(* ===== verification/Prelude.thy ===== *)
theory Prelude
  imports Main "HOL-Library.Word" "HOL-Library.Sublist"
begin

text \<open>
  Shared vocabulary of the development: the types of bytes and byte strings, the fact
  collections the component theories fill, and generic lemmas on lists and maps that more
  than one component uses. A Go \<open>string\<close> is a sequence of bytes and is modelled by
  the HOL type \<open>string\<close>, whose characters are bytes; a Go \<open>[]byte\<close> is a list of
  8-bit words.
\<close>

type_synonym byte = "8 word"
type_synonym bytes = "byte list"

text \<open>
  \<open>go_defs\<close> collects the equations of small operations that proofs unfold together;
  \<open>inv_intros\<close> collects the preservation rules of component invariants.
\<close>

named_theorems go_defs
named_theorems inv_intros

subsection \<open>Chunks of a list\<close>

text \<open>
  The reference description of the write loops: a list cut into pieces of at most
  \<open>m\<close> elements.
\<close>

function chunks :: "nat \<Rightarrow> 'a list \<Rightarrow> 'a list list" where
  "chunks m xs = (if xs = [] \<or> m = 0 then [] else take m xs # chunks m (drop m xs))"
  by pat_completeness auto
termination
  by (relation "measure (\<lambda>(m, xs). length xs)") auto

declare chunks.simps [simp del]

lemma chunks_Nil [simp]: "chunks m [] = []"
  by (simp add: chunks.simps)

lemma chunks_step: "xs \<noteq> [] \<Longrightarrow> 0 < m \<Longrightarrow> chunks m xs = take m xs # chunks m (drop m xs)"
  by (subst chunks.simps) simp

lemma concat_chunks [simp]: "0 < m \<Longrightarrow> concat (chunks m xs) = xs"
proof (induction m xs rule: chunks.induct)
  case (1 m xs)
  then show ?case by (cases "xs = []") (auto simp: chunks_step)
qed

lemma chunks_bound: "c \<in> set (chunks m xs) \<Longrightarrow> 0 < length c \<and> length c \<le> m"
proof (induction m xs rule: chunks.induct)
  case (1 m xs)
  show ?case
  proof (cases "xs = [] \<or> m = 0")
    case True
    with 1 show ?thesis by (auto simp: chunks.simps [of m xs])
  next
    case False
    with 1 show ?thesis by (auto simp: chunks.simps [of m xs])
  qed
qed

lemma length_chunks_le:
  "0 < m \<Longrightarrow> length xs \<le> k * m \<Longrightarrow> length (chunks m xs) \<le> k"
proof (induction m xs arbitrary: k rule: chunks.induct)
  case (1 m xs)
  show ?case
  proof (cases "xs = []")
    case False
    with 1 obtain k' where k: "k = Suc k'" by (cases k) auto
    with 1 False have "length (chunks m (drop m xs)) \<le> k'" by auto
    with 1 False k show ?thesis by (simp add: chunks_step)
  qed simp
qed

end
