(* ===== verification/Signal_Message.thy ===== *)
theory Signal_Message
  imports Prelude
begin

text \<open>
  The wire format of the signaling protocol (\<open>internal/signaling/message.go\<close>): the one
  message type that both clients and the server exchange. The fields keep the names of the
  Go struct; a field that Go leaves at its zero value is the empty string.
\<close>

record Envelope =
  Kind :: string
  Room :: string
  Role :: string
  Pubkey :: string
  Payload :: string
  Error :: string

definition zero_Envelope :: Envelope where
  "zero_Envelope =
     \<lparr>Kind = [], Room = [], Role = [], Pubkey = [], Payload = [], Error = []\<rparr>"

end
