(* ===== verification/Slot_Table.thy ===== *)
theory Slot_Table
  imports Prelude
begin

text \<open>
  The interface of a table of exclusive slots, as the connection handlers of the signaling
  server use it: a slot is taken over unconditionally by a newcomer, and released only by
  the peer that still holds it. \<open>adm\<close> says which slots exist, \<open>same\<close> which holder values
  are the same peer. The lemmas are the ones a handler relies on.
\<close>

locale slot_table =
  fixes look :: "'h \<Rightarrow> 'k \<Rightarrow> 'p option"
    and put :: "'k \<Rightarrow> 'p \<Rightarrow> 'h \<Rightarrow> 'h"
    and remove :: "'k \<Rightarrow> 'p \<Rightarrow> 'h \<Rightarrow> 'h"
    and adm :: "'k \<Rightarrow> bool"
    and same :: "'p \<Rightarrow> 'p \<Rightarrow> bool"
  assumes look_put: "adm k \<Longrightarrow> look (put k p h) k' = (if k' = k then Some p else look h k')"
    and look_remove: "look (remove k p h) k' =
      (if k' = k \<and> (\<exists>q. look h k = Some q \<and> same q p) then None else look h k')"
    and same_refl: "same p p"
begin

lemma put_remove:
  "adm k \<Longrightarrow> look (remove k p (put k p h)) k' = (if k' = k then None else look h k')"
  by (simp add: look_put look_remove same_refl)

lemma takeover_safe:
  "adm k \<Longrightarrow> \<not> same q p \<Longrightarrow> look (remove k p (put k q h)) k = Some q"
  by (simp add: look_put look_remove)

lemma remove_keeps_other_holder:
  "look h k = Some q \<Longrightarrow> \<not> same q p \<Longrightarrow> look (remove k p h) = look h"
  by (auto simp: look_remove fun_eq_iff)

lemma remove_frame: "k' \<noteq> k \<Longrightarrow> look (remove k p h) k' = look h k'"
  by (simp add: look_remove)

text \<open>
  A holder survives any sequence of takeovers of other slots and of releases by other
  peers, in whatever order they come.
\<close>

lemma holder_survives:
  assumes "look h k = Some q"
    and "\<forall>p \<in> set ops. case p of Inl (k', p') \<Rightarrow> adm k' \<and> k' \<noteq> k | Inr (k', p') \<Rightarrow> \<not> same q p'"
  shows "look (fold (\<lambda>p. case p of Inl (k', p') \<Rightarrow> put k' p' | Inr (k', p') \<Rightarrow> remove k' p') ops h) k
    = Some q"
  using assms
proof (induction ops arbitrary: h)
  case Nil
  then show ?case by simp
next
  case (Cons a ops)
  have "look (case a of Inl (k', p') \<Rightarrow> put k' p' h | Inr (k', p') \<Rightarrow> remove k' p' h) k = Some q"
    using Cons.prems by (auto simp: look_put look_remove split: sum.splits)
  with Cons.IH Cons.prems(2) show ?case
    by (auto split: sum.splits)
qed

end

end
