(* ===== verification/Signal_Hub.thy ===== *)
theory Signal_Hub
  imports Signal_Message Slot_Table
begin

text \<open>
  The signaling server (\<open>cmd/signal/main.go\<close>). The Go type \<open>hub\<close> holds the room table;
  the record \<open>hub\<close> carries beside it what the handlers do to the WebSockets: which ones the
  server has closed and the envelopes it has written, in order. Sockets are numbered; a
  \<open>*peerConn\<close> is created once per socket, so comparing the socket numbers is comparing the
  pointers. Each operation that holds \<open>hub.mu\<close> is one function, and each network operation
  is one function; \<open>up\<close> says which sockets accept a write at that moment. The second half
  of the theory runs any number of connection handlers, interleaved, as a step relation.
\<close>

subsection \<open>Rooms and sockets\<close>

record peerConn =
  ws :: nat
  pubkey :: string

record room =
  owner :: "peerConn option"
  viewer :: "peerConn option"

record hub =
  rooms :: "string \<rightharpoonup> room"
  closed :: "nat \<Rightarrow> bool"
  sent :: "(nat \<times> Envelope) list"

definition newHub :: hub where
  "newHub = \<lparr>rooms = Map.empty, closed = (\<lambda>_. False), sent = []\<rparr>"

definition empty_room :: room where
  "empty_room = \<lparr>owner = None, viewer = None\<rparr>"

definition ws_Close :: "nat \<Rightarrow> hub \<Rightarrow> hub" where
  "ws_Close w h = h\<lparr>closed := (closed h)(w := True)\<rparr>"

definition ws_WriteJSON :: "(nat \<Rightarrow> bool) \<Rightarrow> nat \<Rightarrow> Envelope \<Rightarrow> hub \<Rightarrow> bool \<times> hub" where
  "ws_WriteJSON up w e h =
     (if closed h w \<or> \<not> up w then (False, h) else (True, h\<lparr>sent := sent h @ [(w, e)]\<rparr>))"

definition close_opt :: "peerConn option \<Rightarrow> hub \<Rightarrow> hub" where
  "close_opt d h = (case d of None \<Rightarrow> h | Some p \<Rightarrow> ws_Close (ws p) h)"

subsection \<open>The operations on the room table\<close>

text \<open>
  \<open>pair\<close> returns the counterpart, the displaced incumbent and \<open>ok\<close>. The room is entered
  into the table before the role is looked at, as in the source.
\<close>

definition pair_peer :: "string \<Rightarrow> string \<Rightarrow> peerConn \<Rightarrow> hub \<Rightarrow>
    (peerConn option \<times> peerConn option \<times> bool) \<times> hub" where
  "pair_peer rid role p h =
     (let r = (case rooms h rid of None \<Rightarrow> empty_room | Some r \<Rightarrow> r);
          h1 = h\<lparr>rooms := (rooms h)(rid \<mapsto> r)\<rparr>
      in if role = ''owner'' then
           (let displaced = owner r;
                h2 = close_opt displaced h1
            in ((viewer r, displaced, True),
                h2\<lparr>rooms := (rooms h2)(rid \<mapsto> r\<lparr>owner := Some p\<rparr>)\<rparr>))
         else if role = ''viewer'' then
           (let displaced = viewer r;
                h2 = close_opt displaced h1
            in ((owner r, displaced, True),
                h2\<lparr>rooms := (rooms h2)(rid \<mapsto> r\<lparr>viewer := Some p\<rparr>)\<rparr>))
         else ((None, None, False), h1))"

definition counterpart :: "string \<Rightarrow> string \<Rightarrow> hub \<Rightarrow> nat option" where
  "counterpart rid myRole h =
     (case rooms h rid of None \<Rightarrow> None
      | Some r \<Rightarrow>
          if myRole = ''owner'' then map_option ws (viewer r)
          else map_option ws (owner r))"

definition holds :: "peerConn option \<Rightarrow> peerConn \<Rightarrow> bool" where
  "holds s p = (case s of None \<Rightarrow> False | Some q \<Rightarrow> ws q = ws p)"

definition drop_peer :: "string \<Rightarrow> string \<Rightarrow> peerConn \<Rightarrow> hub \<Rightarrow> hub" where
  "drop_peer rid role self h =
     (case rooms h rid of None \<Rightarrow> h
      | Some r \<Rightarrow>
          let r1 = (if role = ''owner'' \<and> holds (owner r) self then r\<lparr>owner := None\<rparr> else r);
              r2 = (if role = ''viewer'' \<and> holds (viewer r1) self then r1\<lparr>viewer := None\<rparr> else r1)
          in if owner r2 = None \<and> viewer r2 = None
             then h\<lparr>rooms := (rooms h)(rid := None)\<rparr>
             else h\<lparr>rooms := (rooms h)(rid \<mapsto> r2)\<rparr>)"

text \<open>The log-friendly prefix of a key; the ellipsis is one rune of three bytes.\<close>

definition truncKey :: "string \<Rightarrow> string" where
  "truncKey s =
     (if length s \<le> 12 then s
      else take 12 s @ [CHR 0xE2, CHR 0x80, CHR 0xA6])"

subsection \<open>One connection's handler, cut at its atomic actions\<close>

text \<open>
  \<open>handle\<close> reads the first frame, pairs, announces \<open>ready\<close> and then runs \<open>pump\<close>. Other
  handlers run between any two of these actions, so each is a function of its own, and
  the phase says which one a connection does next.
\<close>

datatype phase =
    Accepted
  | Announcing string string peerConn "peerConn option"
  | Pumping string string peerConn
  | Forwarding string string peerConn nat Envelope
  | Leaving string string peerConn
  | Gone

definition reject :: "(nat \<Rightarrow> bool) \<Rightarrow> nat \<Rightarrow> string \<Rightarrow> hub \<Rightarrow> phase \<times> hub" where
  "reject up w msg h =
     (Gone, ws_Close w (snd (ws_WriteJSON up w (zero_Envelope\<lparr>Kind := ''error'', Error := msg\<rparr>) h)))"

text \<open>The first frame; \<open>None\<close> is a failed \<open>ReadJSON\<close>.\<close>

definition handle_first :: "(nat \<Rightarrow> bool) \<Rightarrow> nat \<Rightarrow> Envelope option \<Rightarrow> hub \<Rightarrow> phase \<times> hub" where
  "handle_first up w rd h =
     (case rd of None \<Rightarrow> reject up w ''expected join{room,role,pubkey}'' h
      | Some join \<Rightarrow>
          if Kind join \<noteq> ''join'' \<or> Room join = []
          then reject up w ''expected join{room,role,pubkey}'' h
          else
            let me = \<lparr>ws = w, pubkey = Pubkey join\<rparr>;
                ((peer, displaced, ok), h1) = pair_peer (Room join) (Role join) me h
            in if \<not> ok then reject up w ''role conflict or room full'' h1
               else (Announcing (Room join) (Role join) me peer, h1))"

text \<open>The two \<open>ready\<close> frames; their write errors are ignored.\<close>

definition handle_announce :: "(nat \<Rightarrow> bool) \<Rightarrow> string \<Rightarrow> string \<Rightarrow> peerConn \<Rightarrow> peerConn option \<Rightarrow>
    hub \<Rightarrow> phase \<times> hub" where
  "handle_announce up rid role me peer h =
     (Pumping rid role me,
      case peer of None \<Rightarrow> h
      | Some q \<Rightarrow>
          snd (ws_WriteJSON up (ws me) (zero_Envelope\<lparr>Kind := ''ready'', Pubkey := pubkey q\<rparr>)
            (snd (ws_WriteJSON up (ws q)
               (zero_Envelope\<lparr>Kind := ''ready'', Pubkey := pubkey me\<rparr>) h))))"

text \<open>
  One round of the loop of \<open>pump\<close>: the read and the counterpart lookup, then the write.
  Returning from the loop runs the deferred close; \<open>drop\<close> is the next action.
\<close>

definition pump_return :: "string \<Rightarrow> string \<Rightarrow> peerConn \<Rightarrow> hub \<Rightarrow> phase \<times> hub" where
  "pump_return rid role me h = (Leaving rid role me, ws_Close (ws me) h)"

definition pump_read :: "string \<Rightarrow> string \<Rightarrow> peerConn \<Rightarrow> Envelope option \<Rightarrow> hub \<Rightarrow> phase \<times> hub" where
  "pump_read rid role me rd h =
     (case rd of None \<Rightarrow> pump_return rid role me h
      | Some e \<Rightarrow>
          (case counterpart rid role h of
             None \<Rightarrow> (Pumping rid role me, h)
           | Some dest \<Rightarrow> (Forwarding rid role me dest e, h)))"

definition pump_write :: "(nat \<Rightarrow> bool) \<Rightarrow> string \<Rightarrow> string \<Rightarrow> peerConn \<Rightarrow> nat \<Rightarrow> Envelope \<Rightarrow> hub \<Rightarrow>
    phase \<times> hub" where
  "pump_write up rid role me dest e h =
     (let (ok, h1) = ws_WriteJSON up dest e h
      in if ok then (Pumping rid role me, h1) else pump_return rid role me h1)"

definition pump_leave :: "string \<Rightarrow> string \<Rightarrow> peerConn \<Rightarrow> hub \<Rightarrow> phase \<times> hub" where
  "pump_leave rid role me h = (Gone, drop_peer rid role me h)"

text \<open>The next action of the connection on socket \<open>w\<close>.\<close>

fun handler_step :: "(nat \<Rightarrow> bool) \<Rightarrow> nat \<Rightarrow> Envelope option \<Rightarrow> phase \<Rightarrow> hub \<Rightarrow> phase \<times> hub" where
  "handler_step up w rd Accepted h = handle_first up w rd h"
| "handler_step up w rd (Announcing rid role me peer) h = handle_announce up rid role me peer h"
| "handler_step up w rd (Pumping rid role me) h = pump_read rid role me rd h"
| "handler_step up w rd (Forwarding rid role me dest e) h = pump_write up rid role me dest e h"
| "handler_step up w rd (Leaving rid role me) h = pump_leave rid role me h"
| "handler_step up w rd Gone h = (Gone, h)"


subsection \<open>The room table as a table of slots\<close>

text \<open>
  The specification view: who holds the slot of a room and a role. A slot exists for the
  two roles of the protocol.
\<close>

definition slot :: "hub \<Rightarrow> string \<times> string \<Rightarrow> peerConn option" where
  "slot h k =
     (case rooms h (fst k) of None \<Rightarrow> None
      | Some r \<Rightarrow> if snd k = ''owner'' then owner r
                 else if snd k = ''viewer'' then viewer r else None)"

definition valid_role :: "string \<Rightarrow> bool" where
  "valid_role role \<longleftrightarrow> role = ''owner'' \<or> role = ''viewer''"

definition other_role :: "string \<Rightarrow> string" where
  "other_role role = (if role = ''owner'' then ''viewer'' else ''owner'')"

lemma rooms_ws_Close [simp]: "rooms (ws_Close w h) = rooms h"
  and closed_ws_Close [simp]: "closed (ws_Close w h) = (closed h)(w := True)"
  and sent_ws_Close [simp]: "sent (ws_Close w h) = sent h"
  by (simp_all add: ws_Close_def)

lemma rooms_WriteJSON [simp]: "rooms (snd (ws_WriteJSON up w e h)) = rooms h"
  and closed_WriteJSON [simp]: "closed (snd (ws_WriteJSON up w e h)) = closed h"
  by (simp_all add: ws_WriteJSON_def)

lemma rooms_close_opt [simp]: "rooms (close_opt d h) = rooms h"
  and sent_close_opt [simp]: "sent (close_opt d h) = sent h"
  by (auto simp: close_opt_def split: option.splits)

lemma slot_cong: "rooms h = rooms h' \<Longrightarrow> slot h = slot h'"
  by (simp add: slot_def fun_eq_iff)

lemma slot_sent [simp]: "slot (h\<lparr>sent := l\<rparr>) = slot h"
  by (auto intro: slot_cong)

lemma slot_ws_Close [simp]: "slot (ws_Close w h) = slot h"
  and slot_WriteJSON [simp]: "slot (snd (ws_WriteJSON up w e h)) = slot h"
  by (auto intro: slot_cong)

lemma slot_pair_peer:
  "valid_role role \<Longrightarrow>
     slot (snd (pair_peer rid role p h)) k =
       (if k = (rid, role) then Some p else slot h k)"
  by (cases k)
     (auto simp: pair_peer_def slot_def valid_role_def empty_room_def Let_def split: option.splits)

lemma slot_pair_bad_role:
  "\<not> valid_role role \<Longrightarrow> slot (snd (pair_peer rid role p h)) k = slot h k"
  by (cases k)
     (auto simp: pair_peer_def slot_def valid_role_def empty_room_def Let_def split: option.splits)

lemma drop_peer_None: "rooms h rid = None \<Longrightarrow> drop_peer rid role p h = h"
  by (simp add: drop_peer_def)

lemma drop_peer_owner:
  "rooms h rid = Some r \<Longrightarrow> drop_peer rid ''owner'' p h =
     h\<lparr>rooms := (rooms h)(rid :=
       (let r' = (if holds (owner r) p then r\<lparr>owner := None\<rparr> else r)
        in if owner r' = None \<and> viewer r' = None then None else Some r'))\<rparr>"
  by (simp add: drop_peer_def Let_def)

lemma drop_peer_viewer:
  "rooms h rid = Some r \<Longrightarrow> drop_peer rid ''viewer'' p h =
     h\<lparr>rooms := (rooms h)(rid :=
       (let r' = (if holds (viewer r) p then r\<lparr>viewer := None\<rparr> else r)
        in if owner r' = None \<and> viewer r' = None then None else Some r'))\<rparr>"
  by (simp add: drop_peer_def Let_def)

lemma drop_peer_other:
  "rooms h rid = Some r \<Longrightarrow> \<not> valid_role role \<Longrightarrow> drop_peer rid role p h =
     h\<lparr>rooms := (rooms h)(rid := (if owner r = None \<and> viewer r = None then None else Some r))\<rparr>"
  by (simp add: drop_peer_def Let_def valid_role_def)

lemma holds_iff: "holds s p \<longleftrightarrow> (\<exists>q. s = Some q \<and> ws q = ws p)"
  by (simp add: holds_def split: option.splits)

lemma slot_drop_peer:
  "slot (drop_peer rid role p h) k =
     (if k = (rid, role) \<and> (\<exists>q. slot h k = Some q \<and> ws q = ws p) then None else slot h k)"
proof (cases "rooms h rid")
  case None
  then show ?thesis by (auto simp: drop_peer_None slot_def)
next
  case (Some r)
  obtain rid' role' where k: "k = (rid', role')" by (cases k)
  consider "role = ''owner''" | "role = ''viewer''" | "\<not> valid_role role"
    by (auto simp: valid_role_def)
  then show ?thesis
  proof cases
    case 1
    with Some k show ?thesis
      by (cases "holds (owner r) p") (auto simp: drop_peer_owner slot_def holds_iff Let_def)
  next
    case 2
    with Some k show ?thesis
      by (cases "holds (viewer r) p") (auto simp: drop_peer_viewer slot_def holds_iff Let_def)
  next
    case 3
    with Some k show ?thesis
      by (auto simp: drop_peer_other slot_def valid_role_def)
  qed
qed

lemma pair_peer_result:
  "valid_role role \<Longrightarrow>
     fst (pair_peer rid role p h) = (slot h (rid, other_role role), slot h (rid, role), True)"
  by (auto simp: pair_peer_def slot_def valid_role_def other_role_def empty_room_def Let_def
      split: option.splits)

lemma closed_pair_peer:
  "valid_role role \<Longrightarrow>
     closed (snd (pair_peer rid role p h)) w \<longleftrightarrow>
       closed h w \<or> (\<exists>d. slot h (rid, role) = Some d \<and> ws d = w)"
  by (auto simp: pair_peer_def slot_def valid_role_def empty_room_def close_opt_def Let_def
      split: option.splits)

lemma closed_pair_bad_role:
  "\<not> valid_role role \<Longrightarrow> closed (snd (pair_peer rid role p h)) = closed h"
  by (auto simp: pair_peer_def valid_role_def Let_def)

lemma sent_pair_peer [simp]: "sent (snd (pair_peer rid role p h)) = sent h"
  by (simp add: pair_peer_def Let_def)

lemma closed_drop_peer [simp]: "closed (drop_peer rid role p h) = closed h"
  by (auto simp: drop_peer_def Let_def split: option.splits)

lemma counterpart_slot:
  "valid_role role \<Longrightarrow> counterpart rid role h = map_option ws (slot h (rid, other_role role))"
  by (auto simp: counterpart_def slot_def valid_role_def other_role_def split: option.splits)

interpretation hub_slots: slot_table slot
  "\<lambda>k p h. snd (pair_peer (fst k) (snd k) p h)" "\<lambda>k. drop_peer (fst k) (snd k)"
  "\<lambda>k. valid_role (snd k)" "\<lambda>p q. ws p = ws q"
  by unfold_locales (auto simp: slot_pair_peer slot_drop_peer)

end
