(* ===== verification/Signal_Hub_Run.thy ===== *)
theory Signal_Hub_Run
  imports Signal_Hub
begin

text \<open>
  The signaling server at work: any number of connections, each at some action of its
  handler, interleaved in any order. The invariant ties the room table to the phases of
  the handlers; exclusiveness of slots, isolation of rooms and the absence of abandoned
  rooms are read off it.
\<close>

record hub_sys =
  srv :: hub
  ph :: "nat \<Rightarrow> phase"

definition init_hub_sys :: hub_sys where
  "init_hub_sys = \<lparr>srv = newHub, ph = (\<lambda>_. Accepted)\<rparr>"

definition set_step :: "hub_sys \<Rightarrow> nat \<Rightarrow> phase \<times> hub \<Rightarrow> hub_sys" where
  "set_step s w r = s\<lparr>srv := snd r, ph := (ph s)(w := fst r)\<rparr>"

lemma set_step_sel [simp]:
  "srv (set_step s w r) = snd r" "ph (set_step s w r) = (ph s)(w := fst r)"
  by (simp_all add: set_step_def)

text \<open>
  One rule per action of a handler. \<open>G\<close> restricts the first frames that arrive; \<open>up\<close>
  (which sockets take a write) and \<open>rd\<close> (what a read returns) are free in every step.
\<close>

inductive hub_step :: "(Envelope \<Rightarrow> bool) \<Rightarrow> hub_sys \<Rightarrow> hub_sys \<Rightarrow> bool" for G where
  first: "ph s w = Accepted \<Longrightarrow> (case rd of None \<Rightarrow> True | Some e \<Rightarrow> G e) \<Longrightarrow>
     hub_step G s (set_step s w (handle_first up w rd (srv s)))"
| announce: "ph s w = Announcing rid role me peer \<Longrightarrow>
     hub_step G s (set_step s w (handle_announce up rid role me peer (srv s)))"
| read: "ph s w = Pumping rid role me \<Longrightarrow>
     hub_step G s (set_step s w (pump_read rid role me rd (srv s)))"
| forward: "ph s w = Forwarding rid role me dest e \<Longrightarrow>
     hub_step G s (set_step s w (pump_write up rid role me dest e (srv s)))"
| leave: "ph s w = Leaving rid role me \<Longrightarrow>
     hub_step G s (set_step s w (pump_leave rid role me (srv s)))"

inductive hub_reach :: "(Envelope \<Rightarrow> bool) \<Rightarrow> hub_sys \<Rightarrow> bool" for G where
  start: "hub_reach G init_hub_sys"
| step: "hub_reach G s \<Longrightarrow> hub_step G s t \<Longrightarrow> hub_reach G t"

text \<open>The rules are the actions of \<open>handler_step\<close>, one per phase.\<close>

lemma hub_step_handler:
  "hub_step G s t \<Longrightarrow> \<exists>w up rd. t = set_step s w (handler_step up w rd (ph s w) (srv s))"
  by (induction rule: hub_step.induct) (metis handler_step.simps)+

subsection \<open>Membership of a connection in a room\<close>

fun active :: "phase \<Rightarrow> string \<Rightarrow> string \<Rightarrow> peerConn \<Rightarrow> bool" where
  "active (Announcing rid' role' me' _) rid role me = (rid' = rid \<and> role' = role \<and> me' = me)"
| "active (Pumping rid' role' me') rid role me = (rid' = rid \<and> role' = role \<and> me' = me)"
| "active (Forwarding rid' role' me' _ _) rid role me = (rid' = rid \<and> role' = role \<and> me' = me)"
| "active _ rid role me = False"

definition joined :: "phase \<Rightarrow> string \<Rightarrow> string \<Rightarrow> peerConn \<Rightarrow> bool" where
  "joined p rid role me \<longleftrightarrow> active p rid role me \<or> p = Leaving rid role me"

lemma active_joined: "active p rid role me \<Longrightarrow> joined p rid role me"
  by (simp add: joined_def)

lemma joined_unique:
  "joined p rid role me \<Longrightarrow> joined p rid' role' me' \<Longrightarrow> rid' = rid \<and> role' = role \<and> me' = me"
  by (cases p) (auto simp: joined_def)

text \<open>
  The invariant: a slot's holder is the connection on the holder's socket, in that room
  and role; a connection records its own socket and a role of the protocol; and a
  connection that is still running on an open socket holds its slot.
\<close>

definition slots_joined :: "hub_sys \<Rightarrow> bool" where
  "slots_joined s \<longleftrightarrow>
     (\<forall>rid role p. slot (srv s) (rid, role) = Some p \<longrightarrow> joined (ph s (ws p)) rid role p)"

definition own_socket :: "hub_sys \<Rightarrow> bool" where
  "own_socket s \<longleftrightarrow>
     (\<forall>w rid role me. joined (ph s w) rid role me \<longrightarrow> ws me = w \<and> valid_role role)"

definition open_holds :: "hub_sys \<Rightarrow> bool" where
  "open_holds s \<longleftrightarrow>
     (\<forall>w rid role me. active (ph s w) rid role me \<and> \<not> closed (srv s) w \<longrightarrow>
        slot (srv s) (rid, role) = Some me)"

definition hub_inv :: "hub_sys \<Rightarrow> bool" where
  "hub_inv s \<longleftrightarrow> slots_joined s \<and> own_socket s \<and> open_holds s"

lemmas hub_inv_defs = hub_inv_def slots_joined_def own_socket_def open_holds_def

lemma hub_inv_init: "hub_inv init_hub_sys"
  by (simp add: hub_inv_defs init_hub_sys_def newHub_def slot_def joined_def)

text \<open>
  Most actions leave the table alone and keep the connection in its room: they preserve
  the invariant by the following frame rule.
\<close>

lemma hub_inv_frame:
  assumes "hub_inv s" and "slot (snd r) = slot (srv s)"
    and "\<And>w'. closed (srv s) w' \<Longrightarrow> closed (snd r) w'"
    and "\<And>rid role me. joined (fst r) rid role me \<longleftrightarrow> joined (ph s w) rid role me"
    and "\<And>rid role me. active (fst r) rid role me \<Longrightarrow> active (ph s w) rid role me"
  shows "hub_inv (set_step s w r)"
  using assms unfolding hub_inv_defs by (auto split: if_splits) blast+

lemma hub_invD:
  assumes "hub_inv s"
  shows slot_joinedD: "slot (srv s) (rid, role) = Some p \<Longrightarrow> joined (ph s (ws p)) rid role p"
    and own_socketD: "joined (ph s w) rid role p \<Longrightarrow> ws p = w"
    and role_validD: "joined (ph s w) rid role p \<Longrightarrow> valid_role role"
    and open_holdsD: "active (ph s w) rid role p \<Longrightarrow> \<not> closed (srv s) w \<Longrightarrow>
      slot (srv s) (rid, role) = Some p"
  using assms unfolding hub_inv_defs by blast+

lemma hub_invI:
  assumes "\<And>rid role p. slot (srv s) (rid, role) = Some p \<Longrightarrow> joined (ph s (ws p)) rid role p"
    and "\<And>w rid role p. joined (ph s w) rid role p \<Longrightarrow> ws p = w \<and> valid_role role"
    and "\<And>w rid role p. active (ph s w) rid role p \<Longrightarrow> \<not> closed (srv s) w \<Longrightarrow>
      slot (srv s) (rid, role) = Some p"
  shows "hub_inv s"
  using assms unfolding hub_inv_defs by blast

lemma hub_inv_pair:
  assumes inv: "hub_inv s" and acc: "ph s w = Accepted" and me: "ws me = w"
    and role: "valid_role role"
  shows "hub_inv (set_step s w
    (Announcing rid role me peer, snd (pair_peer rid role me (srv s))))" (is "hub_inv ?t")
proof (rule hub_invI)
  fix rid' role' p
  assume "slot (srv ?t) (rid', role') = Some p"
  then have *: "if rid' = rid \<and> role' = role then p = me else slot (srv s) (rid', role') = Some p"
    using role by (auto simp: slot_pair_peer split: if_splits)
  show "joined (ph ?t (ws p)) rid' role' p"
  proof (cases "rid' = rid \<and> role' = role")
    case True
    with * me show ?thesis by (simp add: joined_def)
  next
    case False
    with * have "joined (ph s (ws p)) rid' role' p" by (simp add: slot_joinedD [OF inv])
    moreover from this acc have "ws p \<noteq> w" by (auto simp: joined_def)
    ultimately show ?thesis by simp
  qed
next
  fix w' rid' role' p
  assume "joined (ph ?t w') rid' role' p"
  then show "ws p = w' \<and> valid_role role'"
    using me role own_socketD [OF inv] role_validD [OF inv]
    by (auto simp: joined_def split: if_splits)
next
  fix w' rid' role' p
  assume a: "active (ph ?t w') rid' role' p" and o: "\<not> closed (srv ?t) w'"
  show "slot (srv ?t) (rid', role') = Some p"
  proof (cases "w' = w")
    case True
    with a role show ?thesis by (simp add: slot_pair_peer)
  next
    case False
    with a o role have p: "slot (srv s) (rid', role') = Some p"
      by (simp add: closed_pair_peer open_holdsD [OF inv])
    moreover have "ws p = w'"
      using a False by (auto intro: own_socketD [OF inv] active_joined)
    ultimately have "(rid', role') \<noteq> (rid, role)"
      using o role by (auto simp: closed_pair_peer)
    with p role show ?thesis by (auto simp: slot_pair_peer)
  qed
qed

lemma hub_inv_drop:
  assumes inv: "hub_inv s" and lv: "ph s w = Leaving rid role me"
  shows "hub_inv (set_step s w (Gone, drop_peer rid role me (srv s)))" (is "hub_inv ?t")
proof (rule hub_invI)
  have w: "ws me = w" using own_socketD [OF inv, of w rid role me] lv by (simp add: joined_def)
  fix rid' role' p
  assume a: "slot (srv ?t) (rid', role') = Some p"
  then have p: "joined (ph s (ws p)) rid' role' p"
    by (auto simp: slot_drop_peer intro: slot_joinedD [OF inv] split: if_splits)
  moreover have "ws p \<noteq> w"
  proof
    assume "ws p = w"
    with p lv have "rid' = rid" "role' = role" "p = me" by (auto simp: joined_def)
    with a w show False by (auto simp: slot_drop_peer split: if_splits)
  qed
  ultimately show "joined (ph ?t (ws p)) rid' role' p" by simp
next
  fix w' rid' role' p
  assume "joined (ph ?t w') rid' role' p"
  then show "ws p = w' \<and> valid_role role'"
    using own_socketD [OF inv] role_validD [OF inv] by (auto simp: joined_def split: if_splits)
next
  have w: "ws me = w" using own_socketD [OF inv, of w rid role me] lv by (simp add: joined_def)
  fix w' rid' role' p
  assume a: "active (ph ?t w') rid' role' p" and o: "\<not> closed (srv ?t) w'"
  then have w': "w' \<noteq> w" and p: "slot (srv s) (rid', role') = Some p"
    by (auto intro: open_holdsD [OF inv] split: if_splits)
  from a w' have "ws p = w'"
    by (auto intro: own_socketD [OF inv] active_joined)
  with w w' p show "slot (srv ?t) (rid', role') = Some p"
    by (auto simp: slot_drop_peer)
qed

subsection \<open>Every action keeps the invariant\<close>

lemma hub_inv_gone:
  "hub_inv s \<Longrightarrow> ph s w = Accepted \<Longrightarrow> slot h = slot (srv s) \<Longrightarrow>
     (\<And>w'. closed (srv s) w' \<Longrightarrow> closed h w') \<Longrightarrow> hub_inv (set_step s w (Gone, h))"
  by (rule hub_inv_frame) (auto simp: joined_def)

lemma hub_inv_first [inv_intros]:
  assumes inv: "hub_inv s" and acc: "ph s w = Accepted"
  shows "hub_inv (set_step s w (handle_first up w rd (srv s)))"
proof (cases "\<exists>join. rd = Some join \<and> Kind join = ''join'' \<and> Room join \<noteq> [] \<and>
    valid_role (Role join)")
  case True
  then obtain join where join: "rd = Some join" "Kind join = ''join''" "Room join \<noteq> []"
    and role: "valid_role (Role join)" by blast
  let ?me = "\<lparr>ws = w, pubkey = Pubkey join\<rparr>"
  obtain peer d ok h where pr: "pair_peer (Room join) (Role join) ?me (srv s) = ((peer, d, ok), h)"
    by (metis prod.exhaust)
  then have "ok" using pair_peer_result [OF role] by (metis fst_conv prod.inject)
  then have "handle_first up w rd (srv s) =
      (Announcing (Room join) (Role join) ?me peer, snd (pair_peer (Room join) (Role join) ?me (srv s)))"
    using join pr by (simp add: handle_first_def)
  with hub_inv_pair [OF inv acc _ role] show ?thesis by simp
next
  case False
  have "\<exists>h. handle_first up w rd (srv s) = (Gone, h) \<and> slot h = slot (srv s) \<and>
      (\<forall>w'. closed (srv s) w' \<longrightarrow> closed h w')"
  proof (cases rd)
    case None
    then show ?thesis by (simp add: handle_first_def reject_def)
  next
    case (Some join)
    show ?thesis
    proof (cases "Kind join = ''join'' \<and> Room join \<noteq> []")
      case True
      with False Some have bad: "\<not> valid_role (Role join)" by simp
      let ?p = "pair_peer (Room join) (Role join) \<lparr>ws = w, pubkey = Pubkey join\<rparr> (srv s)"
      have "fst ?p = (None, None, False)" using bad by (simp add: pair_peer_def valid_role_def Let_def)
      then obtain h where h: "?p = ((None, None, False), h)" by (metis prod.collapse)
      then have "slot h = slot (srv s)" "closed h = closed (srv s)"
        using slot_pair_bad_role [OF bad] closed_pair_bad_role [OF bad] by (metis ext snd_conv)+
      with True Some h show ?thesis by (simp add: handle_first_def reject_def)
    qed (use Some in \<open>auto simp: handle_first_def reject_def\<close>)
  qed
  then show ?thesis using hub_inv_gone [OF inv acc] by metis
qed

lemma hub_inv_announce [inv_intros]:
  "hub_inv s \<Longrightarrow> ph s w = Announcing rid role me peer \<Longrightarrow>
     hub_inv (set_step s w (handle_announce up rid role me peer (srv s)))"
  by (rule hub_inv_frame) (auto simp: handle_announce_def joined_def split: option.splits)

lemma hub_inv_read [inv_intros]:
  "hub_inv s \<Longrightarrow> ph s w = Pumping rid role me \<Longrightarrow>
     hub_inv (set_step s w (pump_read rid role me rd (srv s)))"
  by (rule hub_inv_frame)
     (auto simp: pump_read_def pump_return_def joined_def split: option.splits)

lemma hub_inv_forward [inv_intros]:
  "hub_inv s \<Longrightarrow> ph s w = Forwarding rid role me dest e \<Longrightarrow>
     hub_inv (set_step s w (pump_write up rid role me dest e (srv s)))"
  by (rule hub_inv_frame)
     (auto simp: pump_write_def pump_return_def ws_WriteJSON_def joined_def split: if_splits)

lemma hub_inv_leave [inv_intros]:
  "hub_inv s \<Longrightarrow> ph s w = Leaving rid role me \<Longrightarrow>
     hub_inv (set_step s w (pump_leave rid role me (srv s)))"
  by (simp add: pump_leave_def hub_inv_drop)

lemma hub_step_inv: "hub_step G s t \<Longrightarrow> hub_inv s \<Longrightarrow> hub_inv t"
  by (induction rule: hub_step.induct) (auto intro: inv_intros)

lemma hub_reach_inv: "hub_reach G s \<Longrightarrow> hub_inv s"
  by (induction rule: hub_reach.induct) (auto intro: hub_inv_init hub_step_inv)

subsection \<open>Properties of the running server\<close>

text \<open>
  Property C1: whatever the clients send and however the handlers are interleaved, two
  connections that are still running on open sockets never serve the same role in the same
  room: a takeover closes the incumbent, so the relay always has one owner and one viewer.
\<close>
theorem hub_exclusive:
  assumes "hub_reach G s"
    and "active (ph s w) rid role p" and "\<not> closed (srv s) w"
    and "active (ph s w') rid role p'" and "\<not> closed (srv s) w'"
  shows "w = w'"
proof -
  note inv = hub_reach_inv [OF assms(1)]
  have "p = p'"
    using open_holdsD [OF inv assms(2,3)] open_holdsD [OF inv assms(4,5)] by simp
  then show ?thesis
    using own_socketD [OF inv active_joined [OF assms(2)]]
      own_socketD [OF inv active_joined [OF assms(4)]] by simp
qed

text \<open>
  Property C2: isolation of rooms. The socket to which a connection's envelope is about
  to be forwarded is never its own, and belongs to a connection that joined the same room
  with the opposite role; the envelope is the one that was read, unchanged.
\<close>
theorem hub_forwards_to_counterpart:
  assumes "hub_reach G s" and "ph s w = Pumping rid role me"
    and "fst (pump_read rid role me (Some e) (srv s)) = Forwarding rid' role' me' dest e'"
  shows "rid' = rid \<and> role' = role \<and> me' = me \<and> e' = e \<and> dest \<noteq> w \<and>
    (\<exists>q. ws q = dest \<and> joined (ph s dest) rid (other_role role) q)"
proof -
  note inv = hub_reach_inv [OF assms(1)]
  have me: "joined (ph s w) rid role me" using assms(2) by (simp add: joined_def)
  have "counterpart rid role (srv s) = Some dest"
    and eq: "rid' = rid" "role' = role" "me' = me" "e' = e"
    using assms(3) by (auto simp: pump_read_def pump_return_def split: option.splits)
  then obtain q where q: "slot (srv s) (rid, other_role role) = Some q" "ws q = dest"
    using counterpart_slot [OF role_validD [OF inv me]] by auto
  then have j: "joined (ph s dest) rid (other_role role) q"
    using slot_joinedD [OF inv q(1)] by simp
  have "dest \<noteq> w"
    using joined_unique [OF me] j by (auto simp: other_role_def split: if_splits)
  with eq q j show ?thesis by blast
qed

text \<open>
  Force-takeover. A second join for a taken role closes the incumbent's
  socket, hands the slot to the newcomer, leaves the counterpart in place and returns it;
  and when the displaced handler later unwinds, its drop does not evict the newcomer.
\<close>
theorem hub_takeover:
  assumes "slot h (rid, role) = Some old" and "valid_role role" and "ws old \<noteq> ws new"
  shows "fst (pair_peer rid role new h) = (slot h (rid, other_role role), Some old, True)
    \<and> closed (snd (pair_peer rid role new h)) (ws old)
    \<and> slot (snd (pair_peer rid role new h)) (rid, other_role role) = slot h (rid, other_role role)
    \<and> slot (drop_peer rid role old (snd (pair_peer rid role new h))) (rid, role) = Some new"
proof (intro conjI)
  show "fst (pair_peer rid role new h) = (slot h (rid, other_role role), Some old, True)"
    by (simp add: pair_peer_result [OF assms(2)] assms(1))
  show "closed (snd (pair_peer rid role new h)) (ws old)"
    using assms(1) by (simp add: closed_pair_peer [OF assms(2)])
  show "slot (snd (pair_peer rid role new h)) (rid, other_role role)
      = slot h (rid, other_role role)"
    by (simp add: slot_pair_peer [OF assms(2)] other_role_def)
  show "slot (drop_peer rid role old (snd (pair_peer rid role new h))) (rid, role) = Some new"
    using hub_slots.takeover_safe [of "(rid, role)" new old h] assms(2,3) by simp
qed

text \<open>
  The pairing announcement. When a peer joins a room whose counterpart is
  connected, and both sockets take a write, each side is sent exactly one \<open>ready\<close> frame
  carrying the other side's public key.
\<close>
theorem hub_ready_exchange:
  assumes join: "Kind join = ''join''" "Room join \<noteq> []" "valid_role (Role join)"
    and q: "slot h (Room join, other_role (Role join)) = Some q"
    and up: "up w" "up (ws q)" "\<not> closed h w" "\<not> closed h (ws q)" "w \<noteq> ws q"
    and old: "\<forall>d. slot h (Room join, Role join) = Some d \<longrightarrow> ws d \<noteq> w \<and> ws d \<noteq> ws q"
  shows "\<exists>me h1. handle_first up w (Some join) h = (Announcing (Room join) (Role join) me (Some q), h1)
    \<and> sent (snd (handle_announce up (Room join) (Role join) me (Some q) h1)) = sent h @
        [(ws q, zero_Envelope\<lparr>Kind := ''ready'', Pubkey := Pubkey join\<rparr>),
         (w, zero_Envelope\<lparr>Kind := ''ready'', Pubkey := pubkey q\<rparr>)]"
proof -
  let ?me = "\<lparr>ws = w, pubkey = Pubkey join\<rparr>"
  obtain h1 where pr: "pair_peer (Room join) (Role join) ?me h =
      ((Some q, slot h (Room join, Role join), True), h1)"
    using pair_peer_result [OF join(3), of "Room join" ?me h] q by (metis prod.collapse)
  have h1: "h1 = snd (pair_peer (Room join) (Role join) ?me h)" by (simp only: pr snd_conv)
  have cl: "\<not> closed h1 w" "\<not> closed h1 (ws q)"
    using up old unfolding h1 by (auto simp: closed_pair_peer [OF join(3)])
  have sent1: "sent h1 = sent h"
    unfolding h1 by (rule sent_pair_peer)
  have "handle_first up w (Some join) h = (Announcing (Room join) (Role join) ?me (Some q), h1)"
    using join(1,2) by (simp add: handle_first_def pr)
  moreover have "sent (snd (handle_announce up (Room join) (Role join) ?me (Some q) h1)) =
      sent h @ [(ws q, zero_Envelope\<lparr>Kind := ''ready'', Pubkey := Pubkey join\<rparr>),
         (w, zero_Envelope\<lparr>Kind := ''ready'', Pubkey := pubkey q\<rparr>)]"
    using up cl sent1 by (simp add: handle_announce_def ws_WriteJSON_def)
  ultimately show ?thesis by blast
qed

text \<open>A room in the table has a peer in it.\<close>

definition no_empty_room :: "(string \<rightharpoonup> room) \<Rightarrow> bool" where
  "no_empty_room m \<longleftrightarrow> (\<forall>rid r. m rid = Some r \<longrightarrow> owner r \<noteq> None \<or> viewer r \<noteq> None)"

lemma no_empty_room_pair:
  "no_empty_room (rooms h) \<Longrightarrow> valid_role role \<Longrightarrow>
     no_empty_room (rooms (snd (pair_peer rid role p h)))"
  by (auto simp: no_empty_room_def pair_peer_def valid_role_def Let_def)

lemma no_empty_room_drop:
  "no_empty_room (rooms h) \<Longrightarrow> no_empty_room (rooms (drop_peer rid role p h))"
  by (auto simp: no_empty_room_def drop_peer_def Let_def split: option.splits)

lemma rooms_reject [simp]: "rooms (snd (reject up w msg h)) = rooms h"
  by (simp add: reject_def)

lemma rooms_handle_first:
  "rooms (snd (handle_first up w rd h)) = rooms h \<or>
     (\<exists>join. rd = Some join \<and> rooms (snd (handle_first up w rd h)) =
        rooms (snd (pair_peer (Room join) (Role join) \<lparr>ws = w, pubkey = Pubkey join\<rparr> h)))"
proof (cases rd)
  case None
  then show ?thesis by (simp add: handle_first_def)
next
  case (Some join)
  obtain peer d ok h1 where
    "pair_peer (Room join) (Role join) \<lparr>ws = w, pubkey = Pubkey join\<rparr> h = ((peer, d, ok), h1)"
    by (metis prod.exhaust)
  with Some show ?thesis by (simp add: handle_first_def)
qed

lemma no_empty_room_step:
  "hub_step (\<lambda>e. valid_role (Role e)) s t \<Longrightarrow> no_empty_room (rooms (srv s)) \<Longrightarrow>
     no_empty_room (rooms (srv t))"
proof (induction rule: hub_step.induct)
  case (first s w rd up)
  with rooms_handle_first [of up w rd "srv s"] show ?case
    by (auto simp: no_empty_room_pair)
next
  case (announce s w rid role me peer up)
  then show ?case by (simp add: handle_announce_def split: option.splits)
next
  case (read s w rid role me rd)
  then show ?case by (simp add: pump_read_def pump_return_def split: option.splits)
next
  case (forward s w rid role me dest e up)
  then show ?case by (simp add: pump_write_def pump_return_def ws_WriteJSON_def)
next
  case (leave s w rid role me)
  then show ?case by (simp add: pump_leave_def no_empty_room_drop)
qed

text \<open>
  No abandoned rooms. As long as every first frame names one of the two roles,
  a room is in the table only while a peer holds one of its slots, so the table does not
  grow with rooms that everyone has left.
\<close>
theorem hub_no_empty_rooms:
  assumes "hub_reach (\<lambda>e. valid_role (Role e)) s" and "rooms (srv s) rid = Some r"
  shows "(\<exists>p. owner r = Some p) \<or> (\<exists>p. viewer r = Some p)"
proof -
  from assms(1) have "no_empty_room (rooms (srv s))"
  proof (induction rule: hub_reach.induct)
    case start
    show ?case by (simp add: no_empty_room_def init_hub_sys_def newHub_def)
  next
    case (step s t)
    then show ?case by (blast intro: no_empty_room_step)
  qed
  with assms(2) show ?thesis by (auto simp: no_empty_room_def)
qed

text \<open>
  The room table leaks on an unknown role. One client that sends a join with
  any other role is rejected and its connection ends, but its room stays in the table with
  both slots empty: \<open>pair\<close> enters the room before it looks at the role, and nothing
  removes it.
\<close>
theorem hub_unknown_role_leaks_room:
  "\<exists>s. hub_reach (\<lambda>_. True) s \<and> (\<forall>w. ph s w = Accepted \<or> ph s w = Gone)
     \<and> rooms (srv s) ''r'' = Some empty_room"
proof -
  let ?join = "zero_Envelope\<lparr>Kind := ''join'', Room := ''r'', Role := ''spy''\<rparr>"
  let ?t = "set_step init_hub_sys 0 (handle_first (\<lambda>_. True) 0 (Some ?join) (srv init_hub_sys))"
  have "hub_step (\<lambda>_. True) init_hub_sys ?t"
    by (rule hub_step.first) (simp_all add: init_hub_sys_def)
  then have "hub_reach (\<lambda>_. True) ?t" by (rule hub_reach.step [OF hub_reach.start])
  moreover have "(\<forall>w. ph ?t w = Accepted \<or> ph ?t w = Gone) \<and> rooms (srv ?t) ''r'' = Some empty_room"
    by (simp add: handle_first_def reject_def pair_peer_def init_hub_sys_def newHub_def
        zero_Envelope_def Let_def)
  ultimately show ?thesis by blast
qed

subsection \<open>A concrete run\<close>

text \<open>
  An owner on socket 0 and a viewer on socket 1 join the room \<open>r\<close>; the run witnesses that
  the hypotheses of the properties above hold together.
\<close>

definition demo_join :: "string \<Rightarrow> string \<Rightarrow> Envelope" where
  "demo_join role key = zero_Envelope\<lparr>Kind := ''join'', Room := ''r'', Role := role, Pubkey := key\<rparr>"

definition demo_owner :: peerConn where "demo_owner = \<lparr>ws = 0, pubkey = ''ko''\<rparr>"
definition demo_viewer :: peerConn where "demo_viewer = \<lparr>ws = 1, pubkey = ''kv''\<rparr>"

definition demo_sys1 :: hub_sys where
  "demo_sys1 = set_step init_hub_sys 0
     (handle_first (\<lambda>_. True) 0 (Some (demo_join ''owner'' ''ko'')) (srv init_hub_sys))"

definition demo_sys2 :: hub_sys where
  "demo_sys2 = set_step demo_sys1 0
     (handle_announce (\<lambda>_. True) ''r'' ''owner'' demo_owner None (srv demo_sys1))"

definition demo_sys3 :: hub_sys where
  "demo_sys3 = set_step demo_sys2 1
     (handle_first (\<lambda>_. True) 1 (Some (demo_join ''viewer'' ''kv'')) (srv demo_sys2))"

lemmas demo_defs = demo_join_def demo_owner_def demo_viewer_def zero_Envelope_def
  init_hub_sys_def newHub_def handle_first_def pair_peer_def empty_room_def close_opt_def Let_def
  handle_announce_def

lemma demo_ph1: "ph demo_sys1 0 = Announcing ''r'' ''owner'' demo_owner None"
  by (simp add: demo_sys1_def demo_defs)

lemma demo_ph2: "ph demo_sys2 0 = Pumping ''r'' ''owner'' demo_owner" "ph demo_sys2 1 = Accepted"
  by (simp_all add: demo_sys2_def demo_sys1_def demo_defs)

lemma demo_ph3: "ph demo_sys3 0 = Pumping ''r'' ''owner'' demo_owner"
  "ph demo_sys3 1 = Announcing ''r'' ''viewer'' demo_viewer (Some demo_owner)"
  by (simp_all add: demo_sys3_def demo_sys2_def demo_sys1_def demo_defs)

lemma demo_rooms3:
  "rooms (srv demo_sys3) ''r'' = Some \<lparr>owner = Some demo_owner, viewer = Some demo_viewer\<rparr>"
  "closed (srv demo_sys3) w = False"
  by (simp_all add: demo_sys3_def demo_sys2_def demo_sys1_def demo_defs)

lemma demo_reach: "(\<forall>role key. role \<in> {''owner'', ''viewer''} \<longrightarrow> G (demo_join role key)) \<Longrightarrow>
    hub_reach G demo_sys3"
proof -
  assume G: "\<forall>role key. role \<in> {''owner'', ''viewer''} \<longrightarrow> G (demo_join role key)"
  have "hub_step G init_hub_sys demo_sys1"
    unfolding demo_sys1_def using G by (intro hub_step.first) (simp_all add: init_hub_sys_def)
  moreover have "hub_step G demo_sys1 demo_sys2"
    unfolding demo_sys2_def by (rule hub_step.announce [OF demo_ph1])
  moreover have "hub_step G demo_sys2 demo_sys3"
    unfolding demo_sys3_def using G by (intro hub_step.first [OF demo_ph2(2)]) simp
  ultimately show ?thesis by (meson hub_reach.intros)
qed

theorem hub_exclusive_witness:
  "hub_reach (\<lambda>_. True) demo_sys3 \<and> active (ph demo_sys3 0) ''r'' ''owner'' demo_owner
     \<and> (0::nat) = 0"
proof -
  have r: "hub_reach (\<lambda>_. True) demo_sys3" by (rule demo_reach) simp
  have a: "active (ph demo_sys3 0) ''r'' ''owner'' demo_owner" by (simp add: demo_ph3)
  have c: "\<not> closed (srv demo_sys3) 0" by (simp add: demo_rooms3)
  show ?thesis using r a hub_exclusive [OF r a c a c] by blast
qed

theorem hub_forwards_to_counterpart_witness:
  "fst (pump_read ''r'' ''owner'' demo_owner (Some (demo_join ''x'' ''y'')) (srv demo_sys3))
     = Forwarding ''r'' ''owner'' demo_owner 1 (demo_join ''x'' ''y'') \<and> (1::nat) \<noteq> 0"
proof -
  have r: "hub_reach (\<lambda>_. True) demo_sys3" by (rule demo_reach) simp
  have f: "fst (pump_read ''r'' ''owner'' demo_owner (Some (demo_join ''x'' ''y'')) (srv demo_sys3))
     = Forwarding ''r'' ''owner'' demo_owner 1 (demo_join ''x'' ''y'')"
    by (simp add: pump_read_def counterpart_def demo_rooms3 demo_viewer_def)
  show ?thesis using f hub_forwards_to_counterpart [OF r demo_ph3(1) f] by blast
qed

theorem hub_takeover_witness:
  "slot (drop_peer ''r'' ''owner'' demo_owner
     (snd (pair_peer ''r'' ''owner'' \<lparr>ws = 2, pubkey = ''k2''\<rparr> (srv demo_sys3)))) (''r'', ''owner'')
   = Some \<lparr>ws = 2, pubkey = ''k2''\<rparr>"
  using hub_takeover [of "srv demo_sys3" "''r''" "''owner''" demo_owner "\<lparr>ws = 2, pubkey = ''k2''\<rparr>"]
  by (simp add: slot_def demo_rooms3 valid_role_def demo_owner_def)

theorem hub_ready_exchange_witness:
  "\<exists>me h1. handle_first (\<lambda>_. True) 1 (Some (demo_join ''viewer'' ''kv'')) (srv demo_sys2)
     = (Announcing ''r'' ''viewer'' me (Some demo_owner), h1)
   \<and> sent (snd (handle_announce (\<lambda>_. True) ''r'' ''viewer'' me (Some demo_owner) h1)) =
       sent (srv demo_sys2) @
        [(0, zero_Envelope\<lparr>Kind := ''ready'', Pubkey := ''kv''\<rparr>),
         (1, zero_Envelope\<lparr>Kind := ''ready'', Pubkey := ''ko''\<rparr>)]"
proof -
  have s: "slot (srv demo_sys2) k = (if k = (''r'', ''owner'') then Some demo_owner else None)" for k
    by (cases k) (simp add: slot_def demo_sys2_def demo_sys1_def demo_defs)
  have c: "closed (srv demo_sys2) w = False" for w
    by (simp add: demo_sys2_def demo_sys1_def demo_defs)
  show ?thesis
    using hub_ready_exchange [of "demo_join ''viewer'' ''kv''" "srv demo_sys2" demo_owner
        "\<lambda>_. True" 1]
    by (simp add: s c demo_join_def demo_owner_def valid_role_def other_role_def)
qed

theorem hub_no_empty_rooms_witness:
  "hub_reach (\<lambda>e. valid_role (Role e)) demo_sys3
   \<and> ((\<exists>p. Some demo_owner = Some p) \<or> (\<exists>p. Some demo_viewer = Some p))"
proof -
  have r: "hub_reach (\<lambda>e. valid_role (Role e)) demo_sys3"
    by (rule demo_reach) (auto simp: demo_join_def valid_role_def)
  show ?thesis using r hub_no_empty_rooms [OF r demo_rooms3(1)] by simp
qed

end
