(* ===== verification/Go_Error.thy ===== *)
theory Go_Error
  imports Prelude
begin

text \<open>
  Go error values. An error is a package-level sentinel variable (compared by identity,
  here by its qualified name), an anonymous error with a text, an error of
  \<open>fmt.Errorf\<close> that wraps another one with the verb \<open>%w\<close> between two pieces of text,
  a WebSocket close error with its code, or a \<open>net.OpError\<close>.
  \<open>err_text\<close> is the method \<open>Error()\<close>, \<open>err_is\<close> is \<open>errors.Is\<close> and \<open>as_OpError\<close>
  is \<open>errors.As\<close> for the type \<open>*net.OpError\<close>.
\<close>

datatype error =
    Sentinel string string
  | ErrorString string
  | WrapError string error string
  | CloseError nat string
  | OpError string

fun err_text :: "error \<Rightarrow> string" where
  "err_text (Sentinel q t) = t"
| "err_text (ErrorString t) = t"
| "err_text (WrapError p e q) = p @ err_text e @ q"
| "err_text (CloseError c t) = t"
| "err_text (OpError t) = t"

fun err_is :: "error \<Rightarrow> error \<Rightarrow> bool" where
  "err_is (WrapError p e q) t = (WrapError p e q = t \<or> err_is e t)"
| "err_is e t = (e = t)"

fun as_OpError :: "error \<Rightarrow> bool" where
  "as_OpError (OpError t) = True"
| "as_OpError (WrapError p e q) = as_OpError e"
| "as_OpError e = False"

lemma err_is_refl [simp]: "err_is e e"
  by (cases e) auto

definition io_EOF :: error where
  "io_EOF = Sentinel ''io.EOF'' ''EOF''"

definition io_ErrUnexpectedEOF :: error where
  "io_ErrUnexpectedEOF = Sentinel ''io.ErrUnexpectedEOF'' ''unexpected EOF''"

definition io_ErrClosedPipe :: error where
  "io_ErrClosedPipe = Sentinel ''io.ErrClosedPipe'' ''io: read/write on closed pipe''"

definition os_ErrDeadlineExceeded :: error where
  "os_ErrDeadlineExceeded = Sentinel ''os.ErrDeadlineExceeded'' ''i/o timeout''"

definition fs_ErrNotExist :: error where
  "fs_ErrNotExist = Sentinel ''fs.ErrNotExist'' ''file does not exist''"

lemmas sentinel_defs =
  io_EOF_def io_ErrUnexpectedEOF_def io_ErrClosedPipe_def os_ErrDeadlineExceeded_def
  fs_ErrNotExist_def

text \<open>The sentinels are pairwise different, so a caller can tell them apart.\<close>

lemma sentinels_distinct:
  "distinct [io_EOF, io_ErrUnexpectedEOF, io_ErrClosedPipe, os_ErrDeadlineExceeded,
     fs_ErrNotExist]"
  by (simp add: sentinel_defs)

end
