(* ===== verification/Signal_Keepalive.thy ===== *)
theory Signal_Keepalive
  imports Signal_Hub Go_Error
begin

text \<open>
  The keepalive of the signaling server (\<open>handle\<close> and \<open>pump\<close> of \<open>cmd/signal/main.go\<close>) in
  time. One connection reads under a deadline that only a pong moves; a ticker pings it. Times are
  nanoseconds. What arrives on the socket is a list of frames with their times, in order; the
  frames that are in the reader's buffer are delivered without a look at the deadline, every other
  frame only if the deadline has not passed when it is read.
\<close>

subsection \<open>Reading under a deadline\<close>

definition keepaliveInterval :: int where "keepaliveInterval = 10 * 1000000000"
definition pongTimeout :: int where "pongTimeout = 60 * 1000000000"
definition pingWriteWait :: int where "pingWriteWait = 5 * 1000000000"

datatype wsframe = PongFrame | DataFrame Envelope | FailFrame error

text \<open>
  \<open>ar_hold\<close> is how long the forwarding of a data frame takes: the write to the counterpart has
  no deadline.
\<close>

record arrival =
  ar_time :: int
  ar_buffered :: bool
  ar_frame :: wsframe
  ar_hold :: int

definition readable :: "int \<Rightarrow> int \<Rightarrow> arrival \<Rightarrow> bool" where
  "readable now dl a \<longleftrightarrow> (ar_buffered a \<and> ar_time a \<le> now) \<or> max now (ar_time a) < dl"

text \<open>\<open>ReadJSON\<close>, with the pong handler that \<open>handle\<close> installed: the result, the time at which
  it returns, the read deadline then and the frames that are left.\<close>

fun ws_ReadJSON :: "int \<Rightarrow> int \<Rightarrow> arrival list \<Rightarrow> (error + Envelope \<times> int) \<times> int \<times> int \<times> arrival list" where
  "ws_ReadJSON now dl [] = (Inl os_ErrDeadlineExceeded, max now dl, dl, [])"
| "ws_ReadJSON now dl (a # as) =
     (if \<not> readable now dl a then (Inl os_ErrDeadlineExceeded, max now dl, dl, a # as)
      else
        let t = max now (ar_time a)
        in (case ar_frame a of
              PongFrame \<Rightarrow> ws_ReadJSON t (t + pongTimeout) as
            | DataFrame e \<Rightarrow> (Inr (e, ar_hold a), t, dl, as)
            | FailFrame err \<Rightarrow> (Inl err, t, dl, as)))"

lemma ws_ReadJSON_shorter:
  "ws_ReadJSON now dl as = (Inr r, t, dl', rest) \<Longrightarrow> length rest < length as"
  by (induction now dl as rule: ws_ReadJSON.induct)
     (fastforce simp: Let_def split: if_splits wsframe.splits)+

subsection \<open>The loop of pump\<close>

text \<open>
  The handler of one connection from its first read in \<open>pump\<close> to its end: the time of the end
  and the hub then. Leaving the loop closes the socket and drops the slot.
\<close>

definition pump_exit :: "string \<Rightarrow> string \<Rightarrow> peerConn \<Rightarrow> hub \<Rightarrow> hub" where
  "pump_exit rid role me h = snd (pump_leave rid role me (snd (pump_return rid role me h)))"

function pump_timed :: "(nat \<Rightarrow> bool) \<Rightarrow> string \<Rightarrow> string \<Rightarrow> peerConn \<Rightarrow> int \<Rightarrow> int \<Rightarrow> arrival list
    \<Rightarrow> hub \<Rightarrow> int \<times> hub" where
  "pump_timed up rid role me now dl as h =
     (case ws_ReadJSON now dl as of
        (Inl err, t, dl', rest) \<Rightarrow> (t, pump_exit rid role me h)
      | (Inr (e, hold), t, dl', rest) \<Rightarrow>
          (case counterpart rid role h of
             None \<Rightarrow> pump_timed up rid role me t dl' rest h
           | Some dest \<Rightarrow>
               (case ws_WriteJSON up dest e h of
                  (True, h1) \<Rightarrow> pump_timed up rid role me (t + hold) dl' rest h1
                | (False, h1) \<Rightarrow> (t + hold, pump_exit rid role me h1))))"
  by pat_completeness auto
termination
  by (relation "measure (\<lambda>(up, rid, role, me, now, dl, as, h). length as)")
     (auto dest: ws_ReadJSON_shorter sym)

declare pump_timed.simps [simp del]

text \<open>
  The whole handler: the deadline is set when the connection is accepted, the first frame is read
  under it, then the join is processed as in \<open>handle_first\<close> and \<open>handle_announce\<close>.
\<close>

definition serve_timed :: "(nat \<Rightarrow> bool) \<Rightarrow> nat \<Rightarrow> int \<Rightarrow> arrival list \<Rightarrow> hub \<Rightarrow> int \<times> hub" where
  "serve_timed up w now as h =
     (case ws_ReadJSON now (now + pongTimeout) as of
        (r, t, dl, rest) \<Rightarrow>
          (case handle_first up w (case r of Inl err \<Rightarrow> None | Inr (e, hold) \<Rightarrow> Some e) h of
             (Announcing rid role me peer, h1) \<Rightarrow>
               pump_timed up rid role me t dl rest (snd (handle_announce up rid role me peer h1))
           | (_, h1) \<Rightarrow> (t, h1)))"

text \<open>A request that cannot be upgraded to a WebSocket never becomes a connection of the hub.\<close>

definition hub_handle :: "error option \<Rightarrow> (nat \<Rightarrow> bool) \<Rightarrow> nat \<Rightarrow> int \<Rightarrow> arrival list \<Rightarrow> hub \<Rightarrow> int \<times> hub" where
  "hub_handle upgrade up w now as h =
     (case upgrade of Some err \<Rightarrow> (now, h) | None \<Rightarrow> serve_timed up w now as h)"

text \<open>The routes of \<open>main\<close>, which exits when the server cannot listen any more.\<close>

datatype route = SignalSocket | Healthz string | NoRoute

definition signal_mux :: "string \<Rightarrow> route" where
  "signal_mux path =
     (if path = ''/signal'' then SignalSocket else if path = ''/healthz'' then Healthz ''ok'' else NoRoute)"

definition signal_main :: "error option \<Rightarrow> nat" where
  "signal_main serveErr = (case serveErr of Some err \<Rightarrow> 1 | None \<Rightarrow> 0)"

text \<open>
  The ping pump: tick \<open>k\<close> comes \<open>k + 1\<close> intervals after the start; it ends when the handler
  is done or a ping cannot be written. The frames it writes, with their write deadlines.
\<close>

fun ping_pump :: "(nat \<Rightarrow> bool) \<Rightarrow> (nat \<Rightarrow> bool) \<Rightarrow> int \<Rightarrow> nat \<Rightarrow> nat \<Rightarrow> (int \<times> int) list" where
  "ping_pump done ok start k 0 = []"
| "ping_pump done ok start k (Suc n) =
     (let t = start + (int k + 1) * keepaliveInterval
      in if done k \<or> \<not> ok k then [] else (t, t + pingWriteWait) # ping_pump done ok start (Suc k) n)"

subsection \<open>A silent connection is given up in time\<close>

definition is_pong :: "arrival \<Rightarrow> bool" where
  "is_pong a \<longleftrightarrow> ar_frame a = PongFrame"

lemma is_pong_simps [simp]:
  "ar_frame a = PongFrame \<Longrightarrow> is_pong a" "ar_frame a = DataFrame e \<Longrightarrow> \<not> is_pong a"
  "ar_frame a = FailFrame err \<Longrightarrow> \<not> is_pong a"
  by (simp_all add: is_pong_def)

text \<open>How long the forwarding of frames blocks in all.\<close>

fun blocked_time :: "arrival list \<Rightarrow> int" where
  "blocked_time [] = 0"
| "blocked_time (a # as) = (case ar_frame a of DataFrame e \<Rightarrow> ar_hold a | _ \<Rightarrow> 0) + blocked_time as"

text \<open>
  What holds at every read when no pong comes after \<open>T\<close> and forwarding has blocked for \<open>H\<close> so far:
  neither the clock nor the deadline has passed \<open>T + H\<close> by more than the timeout, and once the clock
  has passed \<open>T + H\<close> no pong is left.
\<close>

definition fading :: "int \<Rightarrow> int \<Rightarrow> int \<Rightarrow> int \<Rightarrow> arrival list \<Rightarrow> bool" where
  "fading T H now dl as \<longleftrightarrow> sorted (map ar_time as) \<and> (\<forall>a \<in> set as. is_pong a \<longrightarrow> ar_time a \<le> T)
     \<and> (\<forall>a \<in> set as. 0 \<le> ar_hold a) \<and> 0 \<le> H
     \<and> now \<le> T + H + pongTimeout \<and> dl \<le> T + H + pongTimeout \<and> (now \<le> T + H \<or> (\<forall>a \<in> set as. \<not> is_pong a))"

lemma fading_tail:
  assumes "fading T H now dl (a # as)" and "readable now dl a"
  shows "fading T H (max now (ar_time a)) dl as"
proof -
  have "max now (ar_time a) \<le> T + H \<or> (\<forall>b \<in> set as. \<not> is_pong b)"
  proof (cases "ar_time a \<le> T")
    case True
    with assms(1) show ?thesis by (auto simp: fading_def)
  next
    case False
    with assms(1) show ?thesis by (fastforce simp: fading_def)
  qed
  with assms show ?thesis by (auto simp: fading_def readable_def)
qed

lemma fading_pong:
  assumes "fading T H now dl (a # as)" and "readable now dl a" and "is_pong a"
  shows "fading T H (max now (ar_time a)) (max now (ar_time a) + pongTimeout) as"
  using assms by (auto simp: fading_def pongTimeout_def)

lemma fading_hold: "fading T H now dl as \<Longrightarrow> 0 \<le> hold \<Longrightarrow> fading T (H + hold) (now + hold) dl as"
  by (auto simp: fading_def)

lemma blocked_nonneg: "fading T H now dl as \<Longrightarrow> 0 \<le> blocked_time as"
proof (induction as arbitrary: now)
  case (Cons a as)
  then have "0 \<le> blocked_time as" "0 \<le> ar_hold a" by (auto simp: fading_def intro: Cons.IH [of "T + H"])
  then show ?case by (simp split: wsframe.splits)
qed simp

lemma fading_read:
  assumes "fading T H now dl as" and "ws_ReadJSON now dl as = (r, t, dl', rest)"
  shows "t \<le> T + H + pongTimeout
    \<and> (\<forall>e hold. r = Inr (e, hold) \<longrightarrow> 0 \<le> hold \<and> fading T H t dl' rest \<and> blocked_time as = hold + blocked_time rest)"
  using assms
proof (induction now dl as rule: ws_ReadJSON.induct)
  case (1 now dl)
  then show ?case by (auto simp: fading_def)
next
  case (2 now dl a as)
  show ?case
  proof (cases "readable now dl a")
    case False
    with 2(2,3) show ?thesis by (auto simp: fading_def)
  next
    case True
    show ?thesis
    proof (cases "ar_frame a")
      case PongFrame
      with 2(3) True have "ws_ReadJSON (max now (ar_time a)) (max now (ar_time a) + pongTimeout) as = (r, t, dl', rest)"
        by (simp add: Let_def)
      with 2(1) True PongFrame fading_pong [OF 2(2) True] show ?thesis by simp
    next
      case (DataFrame e)
      with 2(2,3) True fading_tail [OF 2(2) True] show ?thesis by (auto simp: Let_def) (auto simp: fading_def)
    next
      case (FailFrame err)
      with 2(3) True fading_tail [OF 2(2) True] show ?thesis by (auto simp: Let_def fading_def)
    qed
  qed
qed

lemma pump_exit_gone:
  assumes "\<And>k q. slot h k = Some q \<Longrightarrow> ws q = ws me \<Longrightarrow> k = (rid, role)"
  shows "closed (pump_exit rid role me h) (ws me)
    \<and> (\<forall>k q. slot (pump_exit rid role me h) k = Some q \<longrightarrow> ws q \<noteq> ws me)"
  using assms by (auto simp: pump_exit_def pump_leave_def pump_return_def slot_drop_peer)

lemma pump_timed_ends:
  assumes "fading T H now dl as" and "\<And>k q. slot h k = Some q \<Longrightarrow> ws q = ws me \<Longrightarrow> k = (rid, role)"
    and "pump_timed up rid role me now dl as h = (t, h')"
  shows "t \<le> T + H + pongTimeout + blocked_time as \<and> closed h' (ws me) \<and> (\<forall>k q. slot h' k = Some q \<longrightarrow> ws q \<noteq> ws me)"
  using assms
proof (induction up rid role me now dl as h arbitrary: H rule: pump_timed.induct)
  case (1 up rid role me now dl as h)
  obtain r t1 dl1 rest where rd: "ws_ReadJSON now dl as = (r, t1, dl1, rest)" by (cases "ws_ReadJSON now dl as")
  note f = fading_read [OF 1(3) rd]
  then have t1: "t1 \<le> T + H + pongTimeout" by simp
  show ?case
  proof (cases r)
    case (Inl err)
    with rd 1(5) have "t = t1" "h' = pump_exit rid role me h" by (simp_all add: pump_timed.simps)
    with t1 blocked_nonneg [OF 1(3)] pump_exit_gone [OF 1(4)] show ?thesis by simp
  next
    case (Inr eh)
    then obtain e hold where r: "r = Inr (e, hold)" and fr: "0 \<le> hold" "fading T H t1 dl1 rest" "blocked_time as = hold + blocked_time rest"
      using f by (cases eh) auto
    show ?thesis
    proof (cases "counterpart rid role h")
      case None
      with r rd 1(5) have "pump_timed up rid role me t1 dl1 rest h = (t, h')" by (simp add: pump_timed.simps)
      with 1(1) [OF rd [symmetric] r refl refl refl None] fr 1(4) show ?thesis by fastforce
    next
      case (Some dest)
      obtain ok h1 where wr: "ws_WriteJSON up dest e h = (ok, h1)" by fastforce
      then have sl: "slot h1 = slot h" by (metis snd_conv slot_WriteJSON)
      show ?thesis
      proof (cases ok)
        case True
        with r rd wr Some 1(5) have "pump_timed up rid role me (t1 + hold) dl1 rest h1 = (t, h')"
          by (subst (asm) pump_timed.simps) simp
        with 1(2) [OF rd [symmetric] r refl refl refl Some wr [symmetric], where H = "H + hold"] True fr(3)
          fading_hold [OF fr(2,1)] 1(4) sl
        show ?thesis by auto
      next
        case False
        with r rd wr Some 1(5) have "t = t1 + hold" "h' = pump_exit rid role me h1" by (simp_all add: pump_timed.simps)
        with t1 fr(3) blocked_nonneg [OF fr(2)] pump_exit_gone [of h1 me rid role] sl 1(4) show ?thesis by auto
      qed
    qed
  qed
qed

lemma pair_peer_bad_role: "\<not> valid_role role \<Longrightarrow> fst (pair_peer rid role p h) = (None, None, False)"
  by (simp add: pair_peer_def valid_role_def Let_def)

lemma handle_first_join:
  assumes "Kind j = ''join''" and "Room j \<noteq> []" and "valid_role (Role j)"
  shows "handle_first up w (Some j) h =
    (Announcing (Room j) (Role j) \<lparr>ws = w, pubkey = Pubkey j\<rparr> (slot h (Room j, other_role (Role j))),
     snd (pair_peer (Room j) (Role j) \<lparr>ws = w, pubkey = Pubkey j\<rparr> h))"
proof -
  let ?me = "\<lparr>ws = w, pubkey = Pubkey j\<rparr>"
  obtain r h1 where p: "pair_peer (Room j) (Role j) ?me h = (r, h1)" by fastforce
  then have "r = (slot h (Room j, other_role (Role j)), slot h (Room j, Role j), True)"
    using pair_peer_result [OF assms(3)] by (metis fst_conv)
  with p show ?thesis using assms(1,2) by (simp add: handle_first_def)
qed

text \<open>The two outcomes of the first frame: turned away with the slots as they were, or joined.\<close>

lemma handle_first_cases:
  obtains (rejected) h1 where "handle_first up w rd h = (Gone, h1)" "closed h1 w" "slot h1 = slot h"
  | (joins) rid role pk where "valid_role role"
      "handle_first up w rd h = (Announcing rid role \<lparr>ws = w, pubkey = pk\<rparr> (slot h (rid, other_role role)),
         snd (pair_peer rid role \<lparr>ws = w, pubkey = pk\<rparr> h))"
proof (cases "rd = None \<or> Kind (the rd) \<noteq> ''join'' \<or> Room (the rd) = []")
  case True
  then have "handle_first up w rd h = reject up w ''expected join{room,role,pubkey}'' h"
    by (auto simp: handle_first_def split: option.splits)
  with rejected show ?thesis by (simp add: reject_def)
next
  case False
  then obtain j where j: "rd = Some j" "Kind j = ''join''" "Room j \<noteq> []" by auto
  let ?me = "\<lparr>ws = w, pubkey = Pubkey j\<rparr>"
  obtain h1 where h1: "snd (pair_peer (Room j) (Role j) ?me h) = h1" by simp
  show ?thesis
  proof (cases "valid_role (Role j)")
    case True
    from handle_first_join [OF j(2,3) True] j(1) show ?thesis by (intro joins [OF True, of "Room j" "Pubkey j"]) simp
  next
    case False
    have "pair_peer (Room j) (Role j) ?me h = ((None, None, False), h1)"
      using pair_peer_bad_role [OF False] h1 by (metis prod.collapse)
    moreover have "slot h1 = slot h" using slot_pair_bad_role [OF False] h1 by (auto simp: fun_eq_iff)
    ultimately show ?thesis using j
      by (intro rejected [of "snd (reject up w ''role conflict or room full'' h1)"]) (auto simp: handle_first_def reject_def)
  qed
qed

lemma slot_handle_announce [simp]: "slot (snd (handle_announce up rid role me peer h)) = slot h"
  by (simp add: handle_announce_def split: option.splits)

text \<open>
  Property C7: a connection from which no pong comes after time \<open>T\<close>, as after a power failure, is
  given up: whatever frames it sent before and whatever data frames still arrive, its handler ends no
  later than \<open>T\<close> plus a minute plus the time for which the forwarding of its frames blocked (a write
  to the counterpart has no deadline), its socket is closed and no slot of any room is left to it. In
  particular it ends within the minute if forwarding does not block.
\<close>
theorem keepalive_evicts:
  assumes "now \<le> T" and "sorted (map ar_time as)" and "\<forall>a \<in> set as. 0 \<le> ar_hold a"
    and "\<forall>a \<in> set as. is_pong a \<longrightarrow> ar_time a \<le> T" and "\<forall>k q. slot h k = Some q \<longrightarrow> ws q \<noteq> w"
    and "serve_timed up w now as h = (t, h')"
  shows "t \<le> T + pongTimeout + blocked_time as \<and> closed h' w \<and> (\<forall>k q. slot h' k = Some q \<longrightarrow> ws q \<noteq> w)"
proof -
  have f0: "fading T 0 now (now + pongTimeout) as"
    using assms(1-4) by (auto simp: fading_def pongTimeout_def)
  obtain r t1 dl1 rest where rd: "ws_ReadJSON now (now + pongTimeout) as = (r, t1, dl1, rest)"
    by (cases "ws_ReadJSON now (now + pongTimeout) as")
  note f = fading_read [OF f0 rd]
  let ?rd = "case r of Inl err \<Rightarrow> None | Inr (e, hold) \<Rightarrow> Some e"
  show ?thesis
  proof (cases rule: handle_first_cases [of up w ?rd h])
    case (rejected h1)
    with assms(6) rd have "t = t1" "h' = h1" by (simp_all add: serve_timed_def)
    with rejected f blocked_nonneg [OF f0] assms(5) show ?thesis by auto
  next
    case (joins rid role pk)
    let ?me = "\<lparr>ws = w, pubkey = pk\<rparr>"
    let ?h1 = "snd (handle_announce up rid role ?me (slot h (rid, other_role role)) (snd (pair_peer rid role ?me h)))"
    have "r \<noteq> Inl x" for x using joins(2) by (auto simp: handle_first_def reject_def)
    then obtain e hold where fr: "0 \<le> hold" "fading T 0 t1 dl1 rest" "blocked_time as = hold + blocked_time rest" using f by (cases r) auto
    have p: "pump_timed up rid role ?me t1 dl1 rest ?h1 = (t, h')"
      using assms(6) rd joins(2) by (simp add: serve_timed_def)
    have s: "\<And>k q. slot ?h1 k = Some q \<Longrightarrow> ws q = ws ?me \<Longrightarrow> k = (rid, role)"
      using assms(5) joins(1) by (auto simp: slot_pair_peer split: if_splits)
    have "t \<le> T + 0 + pongTimeout + blocked_time rest \<and> closed h' (ws ?me) \<and> (\<forall>k q. slot h' k = Some q \<longrightarrow> ws q \<noteq> ws ?me)"
      by (rule pump_timed_ends [OF fr(2) _ p]) (rule s)
    with fr(1,3) show ?thesis by simp
  qed
qed

text \<open>An owner whose second frame takes three seconds to forward, and which then falls silent.\<close>

definition mute_owner :: "arrival list" where
  "mute_owner =
     [\<lparr>ar_time = 1, ar_buffered = False,
        ar_frame = DataFrame (zero_Envelope\<lparr>Kind := ''join'', Room := ''r'', Role := ''owner''\<rparr>), ar_hold = 0\<rparr>,
      \<lparr>ar_time = 9000000000, ar_buffered = False, ar_frame = DataFrame zero_Envelope, ar_hold = 3000000000\<rparr>,
      \<lparr>ar_time = 10000000500, ar_buffered = False, ar_frame = PongFrame, ar_hold = 0\<rparr>]"

theorem keepalive_evicts_witness:
  "fst (serve_timed (\<lambda>_. True) 7 0 mute_owner newHub) \<le> 73000000500
   \<and> closed (snd (serve_timed (\<lambda>_. True) 7 0 mute_owner newHub)) 7
   \<and> slot (snd (serve_timed (\<lambda>_. True) 7 0 mute_owner newHub)) (''r'', ''owner'') \<noteq> Some \<lparr>ws = 7, pubkey = []\<rparr>"
proof -
  have a: "sorted (map ar_time mute_owner)" "\<forall>a \<in> set mute_owner. 0 \<le> ar_hold a"
    "\<forall>a \<in> set mute_owner. is_pong a \<longrightarrow> ar_time a \<le> 10000000500"
    by (simp_all add: mute_owner_def)
  have n: "\<forall>k q. slot newHub k = Some q \<longrightarrow> ws q \<noteq> 7" by (simp add: newHub_def slot_def)
  have e: "10000000500 + pongTimeout + blocked_time mute_owner = 73000000500" by (simp add: pongTimeout_def mute_owner_def)
  show ?thesis
    using keepalive_evicts [OF _ a n prod.collapse [symmetric], of 0 "\<lambda>_. True"] unfolding e by fastforce
qed

subsection \<open>A live connection is spared\<close>

text \<open>Every frame comes before the deadline that the last pong before it has set.\<close>

fun paced :: "int \<Rightarrow> arrival list \<Rightarrow> bool" where
  "paced dl [] = True"
| "paced dl (a # as) = (ar_time a < dl \<and> paced (if is_pong a then ar_time a + pongTimeout else dl) as)"

text \<open>For that it is enough that each frame is within the timeout of some earlier pong.\<close>

definition covered :: "int \<Rightarrow> arrival list \<Rightarrow> arrival \<Rightarrow> bool" where
  "covered dl as a \<longleftrightarrow> ar_time a < dl
     \<or> (\<exists>p \<in> set as. is_pong p \<and> ar_time p < ar_time a \<and> ar_time a < ar_time p + pongTimeout)"

lemma covered_tail:
  assumes "covered dl (a # as) b" and "b \<in> set as" and "dl \<le> ar_time a + pongTimeout"
  shows "covered (if is_pong a then ar_time a + pongTimeout else dl) as b"
  using assms by (auto simp: covered_def)

lemma covered_paced:
  assumes "sorted (map ar_time as)" and "\<And>a. a \<in> set as \<Longrightarrow> covered dl as a"
    and "\<And>a. a \<in> set as \<Longrightarrow> dl \<le> ar_time a + pongTimeout"
  shows "paced dl as"
  using assms
proof (induction as arbitrary: dl)
  case (Cons a as)
  let ?dl = "if is_pong a then ar_time a + pongTimeout else dl"
  have "ar_time a < dl" using Cons.prems(1) Cons.prems(2) [of a] by (auto simp: covered_def)
  moreover have "paced ?dl as"
  proof (rule Cons.IH)
    show "sorted (map ar_time as)" using Cons.prems(1) by simp
    show "covered ?dl as b" if "b \<in> set as" for b
      using covered_tail [OF Cons.prems(2) [of b] that Cons.prems(3) [of a]] that by simp
    show "?dl \<le> ar_time b + pongTimeout" if "b \<in> set as" for b
      using Cons.prems(1) Cons.prems(3) [of b] that by auto
  qed
  ultimately show ?case by simp
qed simp

definition live_frame :: "arrival \<Rightarrow> bool" where
  "live_frame a \<longleftrightarrow> ar_hold a = 0 \<and> (case ar_frame a of FailFrame err \<Rightarrow> False | _ \<Rightarrow> True)"

fun data_frames :: "arrival list \<Rightarrow> Envelope list" where
  "data_frames [] = []"
| "data_frames (a # as) = (case ar_frame a of DataFrame e \<Rightarrow> e # data_frames as | _ \<Rightarrow> data_frames as)"

lemma paced_read:
  assumes "paced dl as" and "sorted (map ar_time as)" and "\<forall>a \<in> set as. now \<le> ar_time a \<and> live_frame a"
    and "ws_ReadJSON now dl as = (r, t, dl', rest)"
  shows "case r of Inl err \<Rightarrow> data_frames as = []
    | Inr (e, hold) \<Rightarrow> data_frames as = e # data_frames rest \<and> hold = 0 \<and> paced dl' rest
        \<and> sorted (map ar_time rest) \<and> (\<forall>a \<in> set rest. t \<le> ar_time a \<and> live_frame a)"
  using assms
proof (induction now dl as rule: ws_ReadJSON.induct)
  case (1 now dl)
  then show ?case by auto
next
  case (2 now dl a as)
  have mx: "max now (ar_time a) = ar_time a" and rdb: "readable now dl a"
    using 2(2,4) by (auto simp: readable_def)
  show ?case
  proof (cases "ar_frame a")
    case PongFrame
    with 2(5) mx rdb have "ws_ReadJSON (ar_time a) (ar_time a + pongTimeout) as = (r, t, dl', rest)"
      by (simp add: Let_def)
    moreover have "case r of Inl err \<Rightarrow> data_frames as = []
      | Inr (e, hold) \<Rightarrow> data_frames as = e # data_frames rest \<and> hold = 0 \<and> paced dl' rest
        \<and> sorted (map ar_time rest) \<and> (\<forall>a \<in> set rest. t \<le> ar_time a \<and> live_frame a)"
      using 2(1) [of "ar_time a"] 2(2,3,4) PongFrame mx rdb calculation by auto
    ultimately show ?thesis using PongFrame by (cases r) auto
  next
    case (DataFrame e)
    with 2(2,3,4,5) mx rdb show ?thesis by (auto simp: Let_def live_frame_def)
  next
    case (FailFrame err)
    with 2(4) show ?thesis by (simp add: live_frame_def)
  qed
qed

lemma sent_drop_peer: "sent (drop_peer rid role p h) = sent h"
  by (simp add: drop_peer_def Let_def split: option.splits)

lemma paced_forwards:
  assumes "paced dl as" and "sorted (map ar_time as)" and "\<forall>a \<in> set as. now \<le> ar_time a \<and> live_frame a"
    and "counterpart rid role h = Some dest" and "up dest" and "\<not> closed h dest"
  shows "sent (snd (pump_timed up rid role me now dl as h)) = sent h @ map (\<lambda>e. (dest, e)) (data_frames as)"
  using assms
proof (induction "length as" arbitrary: now dl as h rule: less_induct)
  case less
  obtain r t dl1 rest where rd: "ws_ReadJSON now dl as = (r, t, dl1, rest)" by (cases "ws_ReadJSON now dl as")
  note p = paced_read [OF less(2-4) rd]
  show ?case
  proof (cases r)
    case (Inl err)
    with rd p show ?thesis
      by (subst pump_timed.simps) (simp add: pump_exit_def pump_leave_def pump_return_def sent_drop_peer)
  next
    case (Inr eh)
    then obtain e where r: "r = Inr (e, 0)" and d: "data_frames as = e # data_frames rest"
      and q: "paced dl1 rest" "sorted (map ar_time rest)" "\<forall>a \<in> set rest. t \<le> ar_time a \<and> live_frame a"
      using p by (cases eh) auto
    let ?h1 = "h\<lparr>sent := sent h @ [(dest, e)]\<rparr>"
    have w: "ws_WriteJSON up dest e h = (True, ?h1)" using less(6,7) by (simp add: ws_WriteJSON_def)
    have c: "counterpart rid role ?h1 = Some dest" using less(5) by (simp add: counterpart_def)
    have "length rest < length as" using rd r ws_ReadJSON_shorter by blast
    from less(1) [OF this q c less(6)] less(7)
    have "sent (snd (pump_timed up rid role me t dl1 rest ?h1)) = sent h @ (dest, e) # map (\<lambda>e. (dest, e)) (data_frames rest)"
      by simp
    with rd r w less(5) d show ?thesis by (subst pump_timed.simps) simp
  qed
qed

text \<open>
  The pongs for a run of pings: the answer to a ping is lost or arrives after a delay.
\<close>

definition pong_times :: "(int \<times> int) list \<Rightarrow> int option list \<Rightarrow> int list" where
  "pong_times pings answers =
     concat (map (\<lambda>((t, wait), d). case d of None \<Rightarrow> [] | Some d \<Rightarrow> [t + d]) (zip pings answers))"

lemma ping_pump_all:
  "ping_pump (\<lambda>_. False) (\<lambda>_. True) start k n =
     map (\<lambda>i. (start + (int (k + i) + 1) * keepaliveInterval, start + (int (k + i) + 1) * keepaliveInterval + pingWriteWait)) [0..<n]"
proof (induction n arbitrary: k)
  case (Suc n)
  have "[0..<Suc n] = 0 # map Suc [0..<n]" by (simp add: map_Suc_upt upt_conv_Cons del: upt_Suc)
  then show ?case by (simp add: Suc.IH Let_def comp_def del: upt_Suc)
qed simp

lemma pong_times_set:
  "x \<in> set (pong_times (ping_pump (\<lambda>_. False) (\<lambda>_. True) start 0 (length answers)) answers) \<longleftrightarrow>
     (\<exists>k d. k < length answers \<and> answers ! k = Some d \<and> x = start + (int k + 1) * keepaliveInterval + d)"
    (is "_ \<longleftrightarrow> ?R")
proof -
  let ?t = "\<lambda>k. start + (int k + 1) * keepaliveInterval"
  let ?z = "zip (ping_pump (\<lambda>_. False) (\<lambda>_. True) start 0 (length answers)) answers"
  have z: "((t, w), d) \<in> set ?z \<longleftrightarrow> (\<exists>k < length answers. t = ?t k \<and> w = ?t k + pingWriteWait \<and> d = answers ! k)" for t w d
  proof
    assume "((t, w), d) \<in> set ?z"
    then show "\<exists>k < length answers. t = ?t k \<and> w = ?t k + pingWriteWait \<and> d = answers ! k"
      by (auto simp: ping_pump_all set_zip)
  next
    assume "\<exists>k < length answers. t = ?t k \<and> w = ?t k + pingWriteWait \<and> d = answers ! k"
    then obtain k where k: "k < length answers" "t = ?t k" "w = ?t k + pingWriteWait" "d = answers ! k" by blast
    then have "?z ! k = ((t, w), d)" "k < length ?z" by (simp_all add: ping_pump_all)
    then show "((t, w), d) \<in> set ?z" by (metis nth_mem)
  qed
  have "x \<in> set (pong_times (ping_pump (\<lambda>_. False) (\<lambda>_. True) start 0 (length answers)) answers) \<longleftrightarrow>
     (\<exists>t w d. ((t, w), Some d) \<in> set ?z \<and> x = t + d)"
    by (force simp: pong_times_def split: option.splits)
  also have "\<dots> \<longleftrightarrow> ?R" unfolding z by metis
  finally show ?thesis .
qed

text \<open>At most three pings in a row lost, every answer within an interval.\<close>

definition hiccups :: "int option list \<Rightarrow> bool" where
  "hiccups answers \<longleftrightarrow> (\<forall>d. Some d \<in> set answers \<longrightarrow> 0 \<le> d \<and> d < keepaliveInterval)
     \<and> (\<forall>k. k + 4 \<le> length answers \<longrightarrow> (\<exists>j<4. answers ! (k + j) \<noteq> None))"

lemma hiccups_covered:
  assumes "hiccups answers" and "start + 5 * keepaliveInterval \<le> dl"
    and "map ar_time (filter is_pong as) = pong_times (ping_pump (\<lambda>_. False) (\<lambda>_. True) start 0 (length answers)) answers"
    and "start \<le> ar_time a" and "ar_time a < start + (int (length answers) + 1) * keepaliveInterval"
  shows "covered dl as a"
proof -
  define q where "q = nat ((ar_time a - start) div keepaliveInterval)"
  have q: "start + int q * keepaliveInterval \<le> ar_time a" "ar_time a < start + (int q + 1) * keepaliveInterval"
  proof -
    let ?x = "ar_time a - start"
    have e: "?x = int q * keepaliveInterval + ?x mod keepaliveInterval"
      using assms(4) by (simp add: q_def keepaliveInterval_def pos_imp_zdiv_nonneg_iff)
    have b: "0 \<le> ?x mod keepaliveInterval" "?x mod keepaliveInterval < keepaliveInterval"
      by (simp_all add: keepaliveInterval_def)
    from e b show "start + int q * keepaliveInterval \<le> ar_time a" by linarith
    from e b have "ar_time a < start + int q * keepaliveInterval + keepaliveInterval" by linarith
    then show "ar_time a < start + (int q + 1) * keepaliveInterval" by (simp add: distrib_right)
  qed
  then have "int q * keepaliveInterval < (int (length answers) + 1) * keepaliveInterval" using assms(5) by linarith
  then have qn: "q \<le> length answers" by (simp add: keepaliveInterval_def)
  show ?thesis
  proof (cases "q \<le> 4")
    case True
    with q(2) assms(2) show ?thesis by (simp add: covered_def keepaliveInterval_def)
  next
    case False
    with qn have "(q - 5) + 4 \<le> length answers" by simp
    with assms(1) obtain j where j: "j < 4" "answers ! (q - 5 + j) \<noteq> None" unfolding hiccups_def by blast
    then obtain d where d: "answers ! (q - 5 + j) = Some d" by blast
    let ?k = "q - 5 + j"
    have k: "?k < length answers" "int ?k = int q - 5 + int j" using qn j(1) False by auto
    with d have "Some d \<in> set answers" by (metis nth_mem)
    with assms(1) have dd: "0 \<le> d" "d < keepaliveInterval" by (auto simp: hiccups_def)
    let ?x = "start + (int ?k + 1) * keepaliveInterval + d"
    have "?x \<in> ar_time ` set (filter is_pong as)"
      using pong_times_set [of ?x start answers] d k(1) assms(3) by (metis list.set_map)
    then obtain p where p: "p \<in> set as" "is_pong p" "ar_time p = ?x" by auto
    have "?x < ar_time a" "ar_time a < ?x + pongTimeout"
      using q dd j(1) unfolding k(2) keepaliveInterval_def pongTimeout_def by (simp_all add: algebra_simps)
    with p show ?thesis by (auto simp: covered_def)
  qed
qed

text \<open>
  Property C8: a live connection rides out a hiccup. Take a connection in \<open>pump\<close> whose counterpart is
  in the room, open and takes every write at once, and whose read deadline is at least fifty seconds
  ahead, as it is in the ten seconds after the last pong or the start. The handler pings it every ten
  seconds; as long as at most three pings in a row go unanswered and every answer that comes takes
  less than ten seconds, every data frame it sends, until ten seconds after the last ping, is
  forwarded to the counterpart in order: the read deadline never strikes. Without the first condition
  frames are dropped, and with a write that blocks the connection can be given up.
\<close>
theorem keepalive_rides_hiccups:
  assumes "hiccups answers" and "start + 5 * keepaliveInterval \<le> dl" and "dl \<le> start + pongTimeout"
    and "map ar_time (filter is_pong as) = pong_times (ping_pump (\<lambda>_. False) (\<lambda>_. True) start 0 (length answers)) answers"
    and "sorted (map ar_time as)"
    and "\<forall>a \<in> set as. live_frame a \<and> start \<le> ar_time a
           \<and> ar_time a < start + (int (length answers) + 1) * keepaliveInterval"
    and "counterpart rid role h = Some dest" and "up dest" and "\<not> closed h dest"
  shows "sent (snd (pump_timed up rid role me start dl as h)) = sent h @ map (\<lambda>e. (dest, e)) (data_frames as)"
proof -
  have "paced dl as"
  proof (rule covered_paced [OF assms(5)])
    show "covered dl as a" if "a \<in> set as" for a
      using hiccups_covered [OF assms(1,2,4)] assms(6) that by blast
    show "dl \<le> ar_time a + pongTimeout" if "a \<in> set as" for a
      using assms(3,6) that by fastforce
  qed
  with assms(5-9) show ?thesis by (intro paced_forwards) auto
qed

definition frame_at :: "int \<Rightarrow> wsframe \<Rightarrow> arrival" where
  "frame_at t f = \<lparr>ar_time = t, ar_buffered = False, ar_frame = f, ar_hold = 0\<rparr>"

text \<open>Three lost pings, then an answer, then a frame a minute and five seconds after the start.\<close>

definition late_frame :: "arrival list" where
  "late_frame = [frame_at 40000000007 PongFrame, frame_at 65000000000 (DataFrame (zero_Envelope\<lparr>Kind := ''ice''\<rparr>))]"

definition paired_hub :: hub where
  "paired_hub = newHub\<lparr>rooms := [''r'' \<mapsto> \<lparr>owner = Some \<lparr>ws = 7, pubkey = []\<rparr>, viewer = Some \<lparr>ws = 9, pubkey = []\<rparr>\<rparr>]\<rparr>"

theorem keepalive_rides_hiccups_witness:
  "sent (snd (pump_timed (\<lambda>_. True) ''r'' ''owner'' \<lparr>ws = 7, pubkey = []\<rparr> 0 pongTimeout late_frame paired_hub)) =
     [(9, zero_Envelope\<lparr>Kind := ''ice''\<rparr>)]"
proof -
  let ?as = "[None, None, None, Some 7, None, None] :: int option list"
  have hu: "hiccups ?as"
  proof -
    have "\<exists>j<4. ?as ! (k + j) \<noteq> None" if "k + 4 \<le> length ?as" for k
      using that by (intro exI [of _ "3 - k"]) (auto simp: nth_Cons split: nat.splits)
    then show ?thesis by (auto simp: hiccups_def keepaliveInterval_def)
  qed
  have ps: "map ar_time (filter is_pong late_frame) =
      pong_times (ping_pump (\<lambda>_. False) (\<lambda>_. True) 0 0 (length ?as)) ?as"
    by (simp add: late_frame_def frame_at_def pong_times_def keepaliveInterval_def Let_def)
  have lv: "\<forall>a \<in> set late_frame. live_frame a \<and> 0 \<le> ar_time a
      \<and> ar_time a < 0 + (int (length ?as) + 1) * keepaliveInterval" "sorted (map ar_time late_frame)"
    by (simp_all add: late_frame_def frame_at_def live_frame_def keepaliveInterval_def)
  have cp: "counterpart ''r'' ''owner'' paired_hub = Some 9" "\<not> closed paired_hub 9" "sent paired_hub = []"
    by (simp_all add: paired_hub_def newHub_def counterpart_def)
  have df: "data_frames late_frame = [zero_Envelope\<lparr>Kind := ''ice''\<rparr>]"
    by (simp add: late_frame_def frame_at_def)
  have dl: "0 + 5 * keepaliveInterval \<le> pongTimeout" "pongTimeout \<le> 0 + pongTimeout"
    by (simp_all add: keepaliveInterval_def pongTimeout_def)
  show ?thesis
    using keepalive_rides_hiccups [OF hu dl ps lv(2,1) cp(1) _ cp(2), of "\<lambda>_. True" "\<lparr>ws = 7, pubkey = []\<rparr>"]
    by (simp add: df cp(3))
qed

subsection \<open>A stalled counterpart\<close>

text \<open>
  Property C38: the write to the counterpart has no deadline, and while it blocks nobody reads the
  pongs. If forwarding one frame takes a minute, a connection that answers every ping at once is
  given up together with the frame after it, although it never missed a ping.
\<close>
theorem stalled_counterpart_evicts_live_peer:
  assumes "counterpart rid role h = Some dest" and "up dest" and "\<not> closed h dest"
    and "t < dl" and "dl \<le> t + hold"
    and "\<forall>a \<in> set rest. \<not> ar_buffered a" and "rest \<noteq> []"
  shows "pump_timed up rid role me t dl (\<lparr>ar_time = t, ar_buffered = False, ar_frame = DataFrame e, ar_hold = hold\<rparr> # rest) h =
    (t + hold, pump_exit rid role me (h\<lparr>sent := sent h @ [(dest, e)]\<rparr>))"
proof -
  obtain a as where rest: "rest = a # as" using assms(7) by (cases rest) auto
  let ?h1 = "h\<lparr>sent := sent h @ [(dest, e)]\<rparr>"
  have w: "ws_WriteJSON up dest e h = (True, ?h1)" using assms(2,3) by (simp add: ws_WriteJSON_def)
  have "\<not> readable (t + hold) dl a" using assms(5,6) rest by (simp add: readable_def)
  then have "pump_timed up rid role me (t + hold) dl rest ?h1 = (t + hold, pump_exit rid role me ?h1)"
    using rest assms(5) by (subst pump_timed.simps) simp
  with assms(1,4) w show ?thesis by (subst pump_timed.simps) (simp add: readable_def Let_def)
qed

theorem stalled_counterpart_evicts_live_peer_witness:
  "fst (pump_timed (\<lambda>_. True) ''r'' ''owner'' \<lparr>ws = 7, pubkey = []\<rparr> 0 pongTimeout
     (\<lparr>ar_time = 0, ar_buffered = False, ar_frame = DataFrame zero_Envelope, ar_hold = pongTimeout\<rparr>
       # map (\<lambda>k. frame_at (k * keepaliveInterval) PongFrame) [1, 2, 3, 4, 5]) paired_hub) = pongTimeout"
proof -
  have cp: "counterpart ''r'' ''owner'' paired_hub = Some 9" "\<not> closed paired_hub 9"
    by (simp_all add: paired_hub_def newHub_def counterpart_def)
  show ?thesis
    using stalled_counterpart_evicts_live_peer [OF cp(1) _ cp(2), of "\<lambda>_. True" 0 pongTimeout pongTimeout
      "map (\<lambda>k. frame_at (k * keepaliveInterval) PongFrame) [1, 2, 3, 4, 5]" "\<lparr>ws = 7, pubkey = []\<rparr>" zero_Envelope]
    by (simp add: frame_at_def pongTimeout_def)
qed

end
