(* ===== verification/Signal_Hub_Spec.thy ===== *)
theory Signal_Hub_Spec
  imports Signal_Hub_Run Signal_Keepalive
begin

text \<open>
  What the signaling server promises, as an abstract machine: a table of slots and two kinds of
  events. The interleaved handlers of \<open>Signal_Hub_Run\<close> refine it by the view \<open>slot\<close> of the room
  table, one abstract event or none per action, which the acting handler determines.
\<close>

type_synonym slots = "string \<times> string \<Rightarrow> peerConn option"

datatype pair_event = Take "string \<times> string" peerConn | Vacate "string \<times> string" peerConn

fun pairing :: "pair_event \<Rightarrow> slots \<Rightarrow> slots" where
  "pairing (Take k p) m = m(k := Some p)"
| "pairing (Vacate k p) m = (if m k = Some p then m(k := None) else m)"

definition pairings :: "pair_event list \<Rightarrow> slots" where
  "pairings evs = fold pairing evs (\<lambda>_. None)"

text \<open>
  A history is legal if the slots taken are those of the two roles, every connection takes one
  slot once, and vacates only what it has taken.
\<close>

fun legal :: "pair_event list \<Rightarrow> bool" where
  "legal [] = True"
| "legal (Take k p # evs) = (legal evs \<and> valid_role (snd k) \<and> (\<forall>k' q. Take k' q \<in> set evs \<longrightarrow> ws q \<noteq> ws p))"
| "legal (Vacate k p # evs) = (legal evs \<and> Take k p \<in> set evs \<and> Vacate k p \<notin> set evs)"

subsection \<open>The refinement\<close>

text \<open>
  The history explains the table, and ties it to the handlers: who has taken a slot is past its
  first frame, who is in a room has taken its slot, and who has vacated is gone. The newest event
  comes first.
\<close>

definition explains :: "pair_event list \<Rightarrow> hub_sys \<Rightarrow> bool" where
  "explains evs s \<longleftrightarrow> legal evs \<and> slot (srv s) = pairings (rev evs)
     \<and> (\<forall>k p. Take k p \<in> set evs \<longrightarrow> ph s (ws p) \<noteq> Accepted)
     \<and> (\<forall>w rid role me. joined (ph s w) rid role me \<longrightarrow> ws me = w \<and> Take (rid, role) me \<in> set evs
           \<and> Vacate (rid, role) me \<notin> set evs)
     \<and> (\<forall>k q. slot (srv s) k = Some q \<longrightarrow> Take k q \<in> set evs)"

lemma pairings_snoc: "pairings (rev (ev # evs)) = pairing ev (pairings (rev evs))"
  by (simp add: pairings_def)

lemma explains_init: "explains [] init_hub_sys"
  by (simp add: explains_def init_hub_sys_def newHub_def slot_def pairings_def joined_def fun_eq_iff)

text \<open>A step that keeps the slots and the rooms of all connections needs no event.\<close>

lemma explains_stutter:
  assumes "explains evs s" and "slot (snd r) = slot (srv s)"
    and "\<And>rid role me. joined (fst r) rid role me \<Longrightarrow> joined (ph s w) rid role me"
    and "fst r = Accepted \<Longrightarrow> ph s w = Accepted"
  shows "explains evs (set_step s w r)"
  using assms unfolding explains_def by auto (blast dest: assms(3))+

lemma explains_take:
  assumes "explains evs s" and "ph s w = Accepted" and "valid_role role"
  shows "explains (Take (rid, role) \<lparr>ws = w, pubkey = pk\<rparr> # evs)
    (set_step s w (Announcing rid role \<lparr>ws = w, pubkey = pk\<rparr> peer,
       snd (pair_peer rid role \<lparr>ws = w, pubkey = pk\<rparr> (srv s))))"
proof -
  let ?p = "\<lparr>ws = w, pubkey = pk\<rparr>"
  have "\<forall>k' q. Take k' q \<in> set evs \<longrightarrow> ws q \<noteq> w" using assms(1,2) by (auto simp: explains_def)
  moreover have "Vacate (rid, role) ?p \<notin> set evs"
  proof
    assume v: "Vacate (rid, role) ?p \<in> set evs"
    have "legal evs \<Longrightarrow> Vacate k p \<in> set evs \<Longrightarrow> Take k p \<in> set evs" for k p
      by (induction evs rule: legal.induct) auto
    with v calculation assms(1) show False by (fastforce simp: explains_def)
  qed
  moreover have "slot (snd (pair_peer rid role ?p (srv s))) = (slot (srv s))((rid, role) := Some ?p)"
    using slot_pair_peer [OF assms(3)] by (simp add: fun_eq_iff)
  ultimately show ?thesis
    using assms(1,3) unfolding explains_def
    by (auto simp: pairings_snoc joined_def simp del: rev.simps)
qed

lemma legal_takes_unique:
  "legal evs \<Longrightarrow> Take k p \<in> set evs \<Longrightarrow> Take k' q \<in> set evs \<Longrightarrow> ws p = ws q \<Longrightarrow> k = k' \<and> p = q"
proof (induction evs rule: legal.induct)
  case (2 k0 p0 evs)
  then show ?case by (metis legal.simps(2) pair_event.inject(1) set_ConsD)
qed auto

lemma explains_vacate:
  assumes "explains evs s" and "ph s w = Leaving rid role me"
  shows "explains (Vacate (rid, role) me # evs) (set_step s w (Gone, drop_peer rid role me (srv s)))"
proof -
  have j: "ws me = w" "Take (rid, role) me \<in> set evs" "Vacate (rid, role) me \<notin> set evs"
    using assms by (auto simp: explains_def joined_def)
  have lg: "legal evs" using assms(1) by (simp add: explains_def)
  have other: "ws p \<noteq> w" if "joined (ph s (ws p)) rid' role' p" "p \<noteq> me \<or> rid' \<noteq> rid \<or> role' \<noteq> role" for rid' role' p
    using that assms(2) by (auto simp: joined_def)
  have "slot (drop_peer rid role me (srv s)) = pairing (Vacate (rid, role) me) (slot (srv s))"
  proof
    fix k
    have "(\<exists>q. slot (srv s) (rid, role) = Some q \<and> ws q = ws me) \<longleftrightarrow> slot (srv s) (rid, role) = Some me"
    proof
      assume "\<exists>q. slot (srv s) (rid, role) = Some q \<and> ws q = ws me"
      then obtain q where q: "slot (srv s) (rid, role) = Some q" "ws q = ws me" by blast
      then have "Take (rid, role) q \<in> set evs" using assms(1) unfolding explains_def by blast
      from legal_takes_unique [OF lg this j(2) q(2)] q(1) show "slot (srv s) (rid, role) = Some me" by simp
    qed simp
    then show "slot (drop_peer rid role me (srv s)) k = pairing (Vacate (rid, role) me) (slot (srv s)) k"
      by (auto simp: slot_drop_peer)
  qed
  moreover have "Vacate (rid', role') p \<noteq> Vacate (rid, role) me" if "joined (ph s w') rid' role' p" "w' \<noteq> w" for w' rid' role' p
    using that assms(1) j(1) by (auto simp: explains_def)
  ultimately show ?thesis
    using assms(1) j lg unfolding explains_def
    by (auto simp: pairings_snoc joined_def simp del: rev.simps split: if_splits)
qed

text \<open>
  One action of the handler of socket \<open>w\<close>, and the event it counts as: entering a slot is a take, and
  the disconnect at the end of a handler is a vacation, whoever holds the slot by then. Every other
  action counts as none.
\<close>

definition acts :: "(Envelope \<Rightarrow> bool) \<Rightarrow> nat \<Rightarrow> hub_sys \<Rightarrow> hub_sys \<Rightarrow> bool" where
  "acts G w s t \<longleftrightarrow> ph s w \<noteq> Gone \<and> (\<exists>up rd. t = set_step s w (handler_step up w rd (ph s w) (srv s))
     \<and> (ph s w = Accepted \<longrightarrow> (case rd of None \<Rightarrow> True | Some e \<Rightarrow> G e)))"

fun event_of :: "phase \<Rightarrow> phase \<Rightarrow> pair_event option" where
  "event_of Accepted (Announcing rid role me peer) = Some (Take (rid, role) me)"
| "event_of (Leaving rid role me) q = Some (Vacate (rid, role) me)"
| "event_of p q = None"

fun actor :: "pair_event \<Rightarrow> nat" where
  "actor (Take k p) = ws p"
| "actor (Vacate k p) = ws p"

lemma acts_step: "(\<exists>w. acts G w s t) \<longleftrightarrow> hub_step G s t"
proof
  assume "\<exists>w. acts G w s t"
  then obtain w up rd where t: "t = set_step s w (handler_step up w rd (ph s w) (srv s))" and g: "ph s w \<noteq> Gone"
    and "ph s w = Accepted \<longrightarrow> (case rd of None \<Rightarrow> True | Some e \<Rightarrow> G e)" unfolding acts_def by blast
  then show "hub_step G s t"
    unfolding t by (cases "ph s w") (simp_all add: hub_step.intros)
next
  assume "hub_step G s t"
  then show "\<exists>w. acts G w s t"
  proof cases
    case (first w rd up)
    then show ?thesis unfolding acts_def by (intro exI [of _ w]) auto
  next
    case (announce w rid role me peer up)
    then show ?thesis unfolding acts_def by (intro exI [of _ w]) auto
  next
    case (read w rid role me rd)
    then show ?thesis unfolding acts_def by (intro exI [of _ w]) auto
  next
    case (forward w rid role me dest e up)
    then show ?thesis unfolding acts_def by (intro exI [of _ w]) auto
  next
    case (leave w rid role me)
    then show ?thesis unfolding acts_def by (intro exI [of _ w]) auto
  qed
qed

text \<open>A run of the server with the events that its actions count as, the newest first.\<close>

inductive traced :: "(Envelope \<Rightarrow> bool) \<Rightarrow> (nat \<times> pair_event) list \<Rightarrow> hub_sys \<Rightarrow> bool" for G where
  traced_start: "traced G [] init_hub_sys"
| traced_step: "traced G evs s \<Longrightarrow> acts G w s t \<Longrightarrow>
    traced G (case event_of (ph s w) (ph t w) of None \<Rightarrow> evs | Some ev \<Rightarrow> (w, ev) # evs) t"

lemma traced_reach: "(\<exists>evs. traced G evs s) \<longleftrightarrow> hub_reach G s"
proof
  assume "\<exists>evs. traced G evs s"
  then obtain evs where "traced G evs s" by blast
  then show "hub_reach G s"
    by (induction rule: traced.induct) (use acts_step in \<open>blast intro: hub_reach.intros\<close>)+
next
  show "hub_reach G s \<Longrightarrow> \<exists>evs. traced G evs s"
  proof (induction rule: hub_reach.induct)
    case start
    then show ?case using traced_start by blast
  next
    case (step s t)
    then obtain evs w where "traced G evs s" "acts G w s t" using acts_step by metis
    then show ?case using traced_step by blast
  qed
qed

text \<open>The event of an action explains it.\<close>

lemma explains_acts:
  assumes e: "explains evs s" and "acts G w s t"
  shows "case event_of (ph s w) (ph t w) of None \<Rightarrow> explains evs t | Some ev \<Rightarrow> explains (ev # evs) t \<and> actor ev = w"
proof -
  obtain up rd where t: "t = set_step s w (handler_step up w rd (ph s w) (srv s))" and g: "ph s w \<noteq> Gone"
    using assms(2) unfolding acts_def by blast
  show ?thesis
  proof (cases "ph s w")
    case Accepted
    show ?thesis
    proof (cases rule: handle_first_cases [of up w rd "srv s"])
      case (rejected h1)
      then show ?thesis
        using explains_stutter [OF e, of "handle_first up w rd (srv s)" w] t Accepted by (simp add: joined_def)
    next
      case (joins rid role pk)
      then show ?thesis
        using explains_take [OF e Accepted joins(1)] t Accepted by simp
    qed
  next
    case (Announcing rid role me peer)
    then show ?thesis
      using explains_stutter [OF e, of "handle_announce up rid role me peer (srv s)" w] t
      by (simp add: handle_announce_def joined_def split: option.splits)
  next
    case (Pumping rid role me)
    then show ?thesis
      using explains_stutter [OF e, of "pump_read rid role me rd (srv s)" w] t
      by (auto simp: pump_read_def pump_return_def joined_def split: option.splits)
  next
    case (Forwarding rid role me dest env)
    obtain ok h1 where wr: "ws_WriteJSON up dest env (srv s) = (ok, h1)" by fastforce
    then have "slot h1 = slot (srv s)" by (metis snd_conv slot_WriteJSON)
    with wr Forwarding show ?thesis
      using explains_stutter [OF e, of "pump_write up rid role me dest env (srv s)" w] t
      by (auto simp: pump_write_def pump_return_def joined_def Let_def split: prod.splits)
  next
    case (Leaving rid role me)
    then have "ws me = w" using e by (auto simp: explains_def joined_def)
    with Leaving show ?thesis
      using explains_vacate [OF e Leaving] t by (simp add: pump_leave_def)
  qed (use g in simp)
qed

lemma traced_explains: "traced G evs s \<Longrightarrow> explains (map snd evs) s \<and> (\<forall>(w, ev) \<in> set evs. actor ev = w)"
proof (induction rule: traced.induct)
  case traced_start
  then show ?case by (simp add: explains_init)
next
  case (traced_step evs s w t)
  then have e: "explains (map snd evs) s" by blast
  from explains_acts [OF e traced_step(2)] traced_step.IH show ?case by (auto split: option.splits)
qed

text \<open>
  Property C3: the running server is the abstract pairing table. Every run, however the handlers of
  the connections interleave, is a run with events: a handler that enters a slot takes it, and a
  handler that ends vacates what it took. The slots are then at every moment those of the table
  after exactly these events, where a vacation clears a slot only for the one who still holds it, so
  that the late end of a displaced connection never evicts its successor. The events are those of
  the handler that acted; nobody takes twice, and nobody vacates twice or what is not his own.
\<close>
theorem hub_refines_pairing:
  "(hub_reach G s \<longleftrightarrow> (\<exists>evs. traced G evs s))
    \<and> (traced G evs s \<longrightarrow> legal (map snd evs) \<and> (\<forall>(w, ev) \<in> set evs. actor ev = w)
         \<and> slot (srv s) = pairings (rev (map snd evs)))
    \<and> (traced G evs s \<and> acts G w s t \<longrightarrow> slot (srv t) =
         (case event_of (ph s w) (ph t w) of None \<Rightarrow> slot (srv s) | Some ev \<Rightarrow> pairing ev (slot (srv s))))"
proof (intro conjI impI)
  show "hub_reach G s \<longleftrightarrow> (\<exists>evs. traced G evs s)" by (rule traced_reach [symmetric])
next
  assume "traced G evs s"
  from traced_explains [OF this]
  show "legal (map snd evs)" "\<forall>(w, ev) \<in> set evs. actor ev = w" "slot (srv s) = pairings (rev (map snd evs))"
    by (simp_all add: explains_def)
next
  assume "traced G evs s \<and> acts G w s t"
  then have e: "explains (map snd evs) s" and a: "acts G w s t" using traced_explains by blast+
  from explains_acts [OF e a] e
  show "slot (srv t) = (case event_of (ph s w) (ph t w) of None \<Rightarrow> slot (srv s) | Some ev \<Rightarrow> pairing ev (slot (srv s)))"
    by (auto simp: explains_def pairings_snoc simp del: rev.simps split: option.splits)
qed

text \<open>
  Two owners join one room, then the handler of the displaced one ends: the history is two takes and a
  vacation, and the second owner is still in its slot.
\<close>

definition late_end :: "nat \<Rightarrow> hub_sys" where
  "late_end n = fold (\<lambda>(w, rd) s. set_step s w (handler_step (\<lambda>_. True) w rd (ph s w) (srv s)))
     (take n [(7, Some (zero_Envelope\<lparr>Kind := ''join'', Room := ''r'', Role := ''owner'', Pubkey := ''k''\<rparr>)),
       (9, Some (zero_Envelope\<lparr>Kind := ''join'', Room := ''r'', Role := ''owner'', Pubkey := ''l''\<rparr>)),
       (7, None), (7, None), (7, None)]) init_hub_sys"

theorem hub_refines_pairing_witness:
  "slot (srv (late_end 5)) (''r'', ''owner'') = Some \<lparr>ws = 9, pubkey = ''l''\<rparr>
    \<and> traced (\<lambda>_. True) [(7, Vacate (''r'', ''owner'') \<lparr>ws = 7, pubkey = ''k''\<rparr>),
        (9, Take (''r'', ''owner'') \<lparr>ws = 9, pubkey = ''l''\<rparr>), (7, Take (''r'', ''owner'') \<lparr>ws = 7, pubkey = ''k''\<rparr>)] (late_end 5)"
proof -
  let ?p = "\<lparr>ws = 7, pubkey = ''k''\<rparr>" and ?q = "\<lparr>ws = 9, pubkey = ''l''\<rparr>"
  let ?jp = "zero_Envelope\<lparr>Kind := ''join'', Room := ''r'', Role := ''owner'', Pubkey := ''k''\<rparr>"
  let ?jq = "zero_Envelope\<lparr>Kind := ''join'', Room := ''r'', Role := ''owner'', Pubkey := ''l''\<rparr>"
  have vr: "valid_role ''owner''" by (simp add: valid_role_def)
  have j: "handle_first up w (Some (zero_Envelope\<lparr>Kind := ''join'', Room := ''r'', Role := ''owner'', Pubkey := k\<rparr>)) h =
      (Announcing ''r'' ''owner'' \<lparr>ws = w, pubkey = k\<rparr> (slot h (''r'', ''viewer'')),
       snd (pair_peer ''r'' ''owner'' \<lparr>ws = w, pubkey = k\<rparr> h))" for up w k h
    using handle_first_join [of "zero_Envelope\<lparr>Kind := ''join'', Room := ''r'', Role := ''owner'', Pubkey := k\<rparr>" up w h]
    by (simp add: zero_Envelope_def vr other_role_def)
  have s1: "late_end (Suc 0) = set_step (late_end 0) 7 (handler_step (\<lambda>_. True) 7 (Some ?jp) (ph (late_end 0) 7) (srv (late_end 0)))"
    and s2: "late_end 2 = set_step (late_end (Suc 0)) 9 (handler_step (\<lambda>_. True) 9 (Some ?jq) (ph (late_end (Suc 0)) 9) (srv (late_end (Suc 0))))"
    and s3: "late_end 3 = set_step (late_end 2) 7 (handler_step (\<lambda>_. True) 7 None (ph (late_end 2) 7) (srv (late_end 2)))"
    and s4: "late_end 4 = set_step (late_end 3) 7 (handler_step (\<lambda>_. True) 7 None (ph (late_end 3) 7) (srv (late_end 3)))"
    and s5: "late_end 5 = set_step (late_end 4) 7 (handler_step (\<lambda>_. True) 7 None (ph (late_end 4) 7) (srv (late_end 4)))"
    by (simp_all add: late_end_def)
  have p0: "late_end 0 = init_hub_sys" by (simp add: late_end_def)
  have p1: "ph (late_end (Suc 0)) 7 = Announcing ''r'' ''owner'' ?p None" "ph (late_end (Suc 0)) 9 = Accepted"
    by (simp_all add: s1 p0 j init_hub_sys_def newHub_def slot_def)
  have p2: "ph (late_end 2) 7 = Announcing ''r'' ''owner'' ?p None" "\<exists>peer. ph (late_end 2) 9 = Announcing ''r'' ''owner'' ?q peer"
    by (simp_all add: s2 p1 j)
  have p3: "ph (late_end 3) 7 = Pumping ''r'' ''owner'' ?p" by (simp add: s3 p2 handle_announce_def)
  have p4: "ph (late_end 4) 7 = Leaving ''r'' ''owner'' ?p" by (simp add: s4 p3 pump_read_def pump_return_def)
  have act: "acts (\<lambda>_. True) w s (set_step s w (handler_step up w rd (ph s w) (srv s)))" if "ph s w \<noteq> Gone" for w s up rd
    using that unfolding acts_def by (auto simp: option.case_eq_if)
  note step = traced_step [OF _ act]
  have t0: "traced (\<lambda>_. True) [] (late_end 0)" using traced_start by (simp add: p0)
  have "ph (late_end 0) 7 = Accepted" by (simp add: p0 init_hub_sys_def)
  with step [OF t0, of 7 "\<lambda>_. True" "Some ?jp"] s1 p1
  have t1: "traced (\<lambda>_. True) [(7, Take (''r'', ''owner'') ?p)] (late_end (Suc 0))" by simp
  from step [OF t1, of 9 "\<lambda>_. True" "Some ?jq"] s2 p1(2) p2(2)
  have t2: "traced (\<lambda>_. True) [(9, Take (''r'', ''owner'') ?q), (7, Take (''r'', ''owner'') ?p)] (late_end 2)" by auto
  from step [OF t2, of 7 "\<lambda>_. True" None] s3 p2(1) p3
  have t3: "traced (\<lambda>_. True) [(9, Take (''r'', ''owner'') ?q), (7, Take (''r'', ''owner'') ?p)] (late_end 3)" by simp
  from step [OF t3, of 7 "\<lambda>_. True" None] s4 p3 p4
  have t4: "traced (\<lambda>_. True) [(9, Take (''r'', ''owner'') ?q), (7, Take (''r'', ''owner'') ?p)] (late_end 4)" by simp
  from step [OF t4, of 7 "\<lambda>_. True" None] s5 p4
  have t5: "traced (\<lambda>_. True) [(7, Vacate (''r'', ''owner'') ?p), (9, Take (''r'', ''owner'') ?q), (7, Take (''r'', ''owner'') ?p)] (late_end 5)"
    by simp
  from hub_refines_pairing [of "\<lambda>_. True" "late_end 5"] t5
  have "slot (srv (late_end 5)) = pairings (rev (map snd [(7 :: nat, Vacate (''r'', ''owner'') ?p), (9, Take (''r'', ''owner'') ?q),
      (7, Take (''r'', ''owner'') ?p)]))"
    by blast
  with t5 show ?thesis by (simp add: pairings_def)
qed

end
