(* ===== verification/Signal_Client.thy ===== *)
theory Signal_Client
  imports Signal_Message Go_Error Go_Strings
begin

text \<open>
  The signaling client of \<open>internal/signaling/client.go\<close>. A WebSocket connection is a
  number; the log fields of the record say which frames connections have accepted, which
  connections the client has closed and how long it has waited between redials. What the
  network does is an argument of every operation. A method call on a nil connection panics.
\<close>

record ws_client =
  cl_room :: string
  cl_role :: string
  cl_pubkey :: string
  cl_conn :: "nat option"
  cl_closed :: bool
  cl_close_done :: bool
  ws_sent :: "(nat \<times> Envelope) list"
  ws_shut :: "nat list"
  waits :: "int list"

datatype 'a outcome = Ret 'a | NilPanic

definition join_envelope :: "ws_client \<Rightarrow> Envelope" where
  "join_envelope c = zero_Envelope\<lparr>Kind := ''join'', Room := cl_room c, Role := cl_role c,
     Pubkey := cl_pubkey c\<rparr>"

subsection \<open>Which errors warrant a redial\<close>

definition IsCloseError :: "error \<Rightarrow> nat list \<Rightarrow> bool" where
  "IsCloseError err codes = (case err of CloseError code t \<Rightarrow> code \<in> set codes | _ \<Rightarrow> False)"

definition IsUnexpectedCloseError :: "error \<Rightarrow> nat list \<Rightarrow> bool" where
  "IsUnexpectedCloseError err expected =
     (case err of CloseError code t \<Rightarrow> code \<notin> set expected | _ \<Rightarrow> False)"

definition recoverable_frags :: "string list" where
  "recoverable_frags =
     [''broken pipe'', ''use of closed'', ''EOF'', ''reset by peer'', ''connection refused'']"

definition isRecoverable :: "error option \<Rightarrow> bool" where
  "isRecoverable e =
     (case e of None \<Rightarrow> False
      | Some err \<Rightarrow>
          if IsCloseError err [1000, 1001, 1006, 1005] then True
          else if IsUnexpectedCloseError err [] then True
          else if as_OpError err then True
          else list_ex (Contains (err_text err)) recoverable_frags)"

subsection \<open>Redialling\<close>

text \<open>250 milliseconds and 5 seconds, in nanoseconds.\<close>

definition initial_backoff :: int where "initial_backoff = 250 * 1000000"
definition reconnectMaxBackoff :: int where "reconnectMaxBackoff = 5 * 1000000000"

text \<open>One connection's \<open>WriteJSON\<close>; \<open>res\<close> is its error.\<close>

definition ws_write :: "error option \<Rightarrow> nat \<Rightarrow> Envelope \<Rightarrow> ws_client \<Rightarrow> ws_client" where
  "ws_write res k e c = (case res of None \<Rightarrow> c\<lparr>ws_sent := ws_sent c @ [(k, e)]\<rparr> | Some _ \<Rightarrow> c)"

definition ws_close :: "nat \<Rightarrow> ws_client \<Rightarrow> ws_client" where
  "ws_close k c = c\<lparr>ws_shut := k # ws_shut c\<rparr>"

text \<open>
  What one attempt meets: whether the client is closed before it, the results of the dial
  and of the join frame, and whether the client is closed during the wait.
\<close>

record attempt =
  at_closed :: bool
  at_dial :: "error + nat"
  at_join :: "error option"
  at_closed_wait :: bool

definition reconnect_drop :: "ws_client \<Rightarrow> ws_client" where
  "reconnect_drop c =
     (case cl_conn c of None \<Rightarrow> c | Some k \<Rightarrow> (ws_close k c)\<lparr>cl_conn := None\<rparr>)"

definition client_closed :: error where "client_closed = ErrorString ''client closed''"

definition try_dial :: "attempt \<Rightarrow> ws_client \<Rightarrow> bool \<times> ws_client" where
  "try_dial a c =
     (case at_dial a of
        Inl err \<Rightarrow> (False, c)
      | Inr k \<Rightarrow>
          (case at_join a of
             Some jerr \<Rightarrow> (False, ws_close k c)
           | None \<Rightarrow> (True, (ws_write None k (join_envelope c) c)\<lparr>cl_conn := Some k\<rparr>)))"

definition next_backoff :: "int \<Rightarrow> int" where
  "next_backoff b = (let b2 = b * 2 in if reconnectMaxBackoff < b2 then reconnectMaxBackoff else b2)"

partial_function (option) reconnect_loop ::
    "(nat \<Rightarrow> attempt) \<Rightarrow> nat \<Rightarrow> int \<Rightarrow> ws_client \<Rightarrow> (error option \<times> ws_client) option" where
  "reconnect_loop env i backoff c =
     (if cl_closed c \<or> at_closed (env i) then Some (Some client_closed, c\<lparr>cl_closed := True\<rparr>)
      else
        (case try_dial (env i) c of
           (ok, c1) \<Rightarrow>
             (if ok then Some (None, c1)
              else if at_closed_wait (env i) then Some (Some client_closed, c1\<lparr>cl_closed := True\<rparr>)
              else reconnect_loop env (Suc i) (next_backoff backoff)
                     (c1\<lparr>waits := waits c1 @ [backoff]\<rparr>))))"

definition reconnectLocked :: "(nat \<Rightarrow> attempt) \<Rightarrow> ws_client \<Rightarrow> (error option \<times> ws_client) option" where
  "reconnectLocked env c = reconnect_loop env 0 initial_backoff (reconnect_drop c)"

subsection \<open>Writing\<close>

text \<open>
  \<open>w1\<close> and \<open>w2\<close> are the results of the two possible writes. \<open>None\<close> means that the redial
  never ends.
\<close>

definition writeEnvelope :: "error option \<Rightarrow> (nat \<Rightarrow> attempt) \<Rightarrow> error option \<Rightarrow> Envelope \<Rightarrow> ws_client
    \<Rightarrow> (error option outcome \<times> ws_client) option" where
  "writeEnvelope w1 env w2 e c =
     (case cl_conn c of
        None \<Rightarrow> Some (NilPanic, c)
      | Some k \<Rightarrow>
          let c1 = ws_write w1 k e c
          in if w1 = None then Some (Ret None, c1)
             else if \<not> isRecoverable w1 then Some (Ret w1, c1)
             else
               (case reconnectLocked env c1 of
                  None \<Rightarrow> None
                | Some (Some err, c2) \<Rightarrow> Some (Ret (Some (WrapError ''reconnect: '' err [])), c2)
                | Some (None, c2) \<Rightarrow>
                    (case cl_conn c2 of
                       None \<Rightarrow> Some (NilPanic, c2)
                     | Some k2 \<Rightarrow> Some (Ret w2, ws_write w2 k2 e c2))))"

definition client_Send :: "error + string \<Rightarrow> error option \<Rightarrow> (nat \<Rightarrow> attempt) \<Rightarrow> error option \<Rightarrow> string
    \<Rightarrow> ws_client \<Rightarrow> (error option outcome \<times> ws_client) option" where
  "client_Send marshalled w1 env w2 kind c =
     (case marshalled of
        Inl err \<Rightarrow> Some (Ret (Some err), c)
      | Inr data \<Rightarrow> writeEnvelope w1 env w2 (zero_Envelope\<lparr>Kind := kind, Payload := data\<rparr>) c)"

definition new_client :: "string \<Rightarrow> string \<Rightarrow> string \<Rightarrow> ws_client" where
  "new_client rm role pubkey = \<lparr>cl_room = rm, cl_role = role, cl_pubkey = pubkey, cl_conn = None,
     cl_closed = False, cl_close_done = False, ws_sent = [], ws_shut = [], waits = []\<rparr>"

definition DialWithLogger :: "string \<Rightarrow> string \<Rightarrow> string \<Rightarrow> string \<Rightarrow> error + nat \<Rightarrow> error option
    \<Rightarrow> (nat \<Rightarrow> attempt) \<Rightarrow> error option \<Rightarrow> ((error + unit) outcome \<times> ws_client) option" where
  "DialWithLogger url rm role pubkey dialled w1 env w2 =
     (let c = new_client rm role pubkey
      in (case dialled of
            Inl err \<Rightarrow> Some (Ret (Inl (WrapError (''dial '' @ url @ '': '') err [])), c)
          | Inr k \<Rightarrow>
              let c1 = c\<lparr>cl_conn := Some k\<rparr>
              in (case writeEnvelope w1 env w2 (join_envelope c1) c1 of
                    None \<Rightarrow> None
                  | Some (NilPanic, c2) \<Rightarrow> Some (NilPanic, c2)
                  | Some (Ret (Some err), c2) \<Rightarrow>
                      Some (Ret (Inl (WrapError ''send join: '' err [])), ws_close k c2)
                  | Some (Ret None, c2) \<Rightarrow> Some (Ret (Inr ()), c2))))"

text \<open>\<open>Dial\<close> only supplies the default logger.\<close>

definition client_Dial :: "string \<Rightarrow> string \<Rightarrow> string \<Rightarrow> string \<Rightarrow> error + nat \<Rightarrow> error option
    \<Rightarrow> (nat \<Rightarrow> attempt) \<Rightarrow> error option \<Rightarrow> ((error + unit) outcome \<times> ws_client) option" where
  "client_Dial = DialWithLogger"

subsection \<open>Reading\<close>

text \<open>\<open>Ready\<close>; \<open>rd\<close> is the result of \<open>ReadJSON\<close>. The verb \<open>%q\<close> quotes the kind.\<close>

definition client_Ready :: "(string \<Rightarrow> string) \<Rightarrow> error + Envelope \<Rightarrow> ws_client \<Rightarrow> (error + string) outcome" where
  "client_Ready quote rd c =
     (case cl_conn c of None \<Rightarrow> NilPanic
      | Some k \<Rightarrow>
          (case rd of
             Inl err \<Rightarrow> Ret (Inl (WrapError ''read ready: '' err []))
           | Inr e \<Rightarrow>
               if Kind e = ''error'' then Ret (Inl (ErrorString (''signal error: '' @ Error e)))
               else if Kind e \<noteq> ''ready'' then Ret (Inl (ErrorString (''expected ready, got '' @ quote (Kind e))))
               else Ret (Inr (Pubkey e))))"

text \<open>
  One round of the loop of \<open>Recv\<close>. The read does not hold \<open>writeMu\<close>: it uses the connection
  that is there when it begins (\<open>recv_read\<close>), and after a failure \<open>recv_redial\<close> finds the
  client in whatever state the writers have left it. The result of a round is to return or
  (\<open>None\<close>) to go round again.
\<close>

definition recv_read :: "error + Envelope \<Rightarrow> ws_client \<Rightarrow> (error + Envelope) outcome" where
  "recv_read rd c = (case cl_conn c of None \<Rightarrow> NilPanic | Some k \<Rightarrow> Ret rd)"

definition recv_redial :: "error \<Rightarrow> (nat \<Rightarrow> attempt) \<Rightarrow> ws_client
    \<Rightarrow> ((error + Envelope) option \<times> ws_client) option" where
  "recv_redial err env c =
     (if \<not> isRecoverable (Some err) then Some (Some (Inl err), c)
      else
        (case reconnectLocked env c of
           None \<Rightarrow> None
         | Some (Some dialErr, c1) \<Rightarrow> Some (Some (Inl (WrapError ''reconnect: '' dialErr [])), c1)
         | Some (None, c1) \<Rightarrow> Some (None, c1)))"

text \<open>\<open>Recv\<close> with no writer in between; round \<open>i\<close> reads \<open>rd i\<close> and redials against \<open>env i\<close>.\<close>

partial_function (option) recv_loop ::
    "(nat \<Rightarrow> error + Envelope) \<Rightarrow> (nat \<Rightarrow> nat \<Rightarrow> attempt) \<Rightarrow> nat \<Rightarrow> ws_client
      \<Rightarrow> ((error + Envelope) outcome \<times> ws_client) option" where
  "recv_loop rd env i c =
     (case recv_read (rd i) c of
        NilPanic \<Rightarrow> Some (NilPanic, c)
      | Ret (Inr e) \<Rightarrow> Some (Ret (Inr e), c)
      | Ret (Inl err) \<Rightarrow>
          Option.bind (recv_redial err (env i) c)
            (\<lambda>r. case r of (Some res, c1) \<Rightarrow> Some (Ret res, c1) | (None, c1) \<Rightarrow> recv_loop rd env (Suc i) c1))"

definition client_Recv :: "(nat \<Rightarrow> error + Envelope) \<Rightarrow> (nat \<Rightarrow> nat \<Rightarrow> attempt) \<Rightarrow> ws_client
    \<Rightarrow> ((error + Envelope) outcome \<times> ws_client) option" where
  "client_Recv rd env c = recv_loop rd env 0 c"

subsection \<open>Close\<close>

definition client_Close :: "error option \<Rightarrow> ws_client \<Rightarrow> error option \<times> ws_client" where
  "client_Close res c =
     (if cl_close_done c then (None, c)
      else
        let c1 = c\<lparr>cl_close_done := True, cl_closed := True\<rparr>
        in (case cl_conn c1 of None \<Rightarrow> (None, c1) | Some k \<Rightarrow> (res, ws_close k c1)))"

subsection \<open>What a redial does\<close>

definition backoff_at :: "nat \<Rightarrow> int" where
  "backoff_at n = min (initial_backoff * 2 ^ n) reconnectMaxBackoff"

lemma next_backoff_at: "next_backoff (backoff_at n) = backoff_at (Suc n)"
  by (auto simp: next_backoff_def backoff_at_def initial_backoff_def reconnectMaxBackoff_def Let_def min_def)

definition attempt_joins :: "attempt \<Rightarrow> nat \<Rightarrow> bool" where
  "attempt_joins a k \<longleftrightarrow> at_dial a = Inr k \<and> at_join a = None"

definition attempt_ends :: "attempt \<Rightarrow> bool" where
  "attempt_ends a \<longleftrightarrow> at_closed a \<or> (\<exists>k. attempt_joins a k) \<or> at_closed_wait a"

text \<open>What every redial has done when it returns, compared with the client \<open>c\<close> before it.\<close>

definition redialled :: "ws_client \<Rightarrow> error option \<Rightarrow> ws_client \<Rightarrow> bool" where
  "redialled c r c' \<longleftrightarrow>
     (case r of
        None \<Rightarrow> (\<exists>k. cl_conn c' = Some k \<and> ws_sent c' = ws_sent c @ [(k, join_envelope c)]) \<and> cl_closed c' = cl_closed c
      | Some err \<Rightarrow> err = client_closed \<and> cl_closed c' \<and> cl_conn c' = None \<and> ws_sent c' = ws_sent c)
   \<and> set (ws_shut c) \<subseteq> set (ws_shut c') \<and> join_envelope c' = join_envelope c
   \<and> cl_close_done c' = cl_close_done c"

lemma join_envelope_cong:
  "cl_room c' = cl_room c \<Longrightarrow> cl_role c' = cl_role c \<Longrightarrow> cl_pubkey c' = cl_pubkey c \<Longrightarrow>
     join_envelope c' = join_envelope c"
  by (simp add: join_envelope_def)

lemma try_dial_fails:
  "try_dial a c = (False, c1) \<Longrightarrow> cl_conn c1 = cl_conn c \<and> ws_sent c1 = ws_sent c \<and> cl_closed c1 = cl_closed c
     \<and> set (ws_shut c) \<subseteq> set (ws_shut c1) \<and> join_envelope c1 = join_envelope c \<and> waits c1 = waits c
     \<and> cl_close_done c1 = cl_close_done c \<and> (\<nexists>k. attempt_joins a k)"
  by (auto simp: try_dial_def ws_close_def ws_write_def attempt_joins_def
      intro: join_envelope_cong split: sum.splits option.splits)

lemma try_dial_joins:
  "try_dial a c = (True, c1) \<Longrightarrow> (\<exists>k. attempt_joins a k \<and> cl_conn c1 = Some k
     \<and> ws_sent c1 = ws_sent c @ [(k, join_envelope c)]) \<and> cl_closed c1 = cl_closed c \<and> ws_shut c1 = ws_shut c
     \<and> join_envelope c1 = join_envelope c \<and> waits c1 = waits c \<and> cl_close_done c1 = cl_close_done c"
  by (auto simp: try_dial_def ws_write_def attempt_joins_def
      intro: join_envelope_cong split: sum.splits option.splits)

lemma redialled_closed: "cl_conn c = None \<Longrightarrow> redialled c (Some client_closed) (c\<lparr>cl_closed := True\<rparr>)"
  by (simp add: redialled_def join_envelope_def)

lemma redialled_trans:
  "redialled c1 r c2 \<Longrightarrow> ws_sent c1 = ws_sent c \<Longrightarrow> join_envelope c1 = join_envelope c \<Longrightarrow>
     set (ws_shut c) \<subseteq> set (ws_shut c1) \<Longrightarrow> cl_closed c1 = cl_closed c \<Longrightarrow>
     cl_close_done c1 = cl_close_done c \<Longrightarrow> redialled c r c2"
  by (auto simp: redialled_def split: option.splits)

lemma reconnect_loop_redials:
  assumes "reconnect_loop env i b c = Some q" and "cl_conn c = None"
  shows "redialled c (fst q) (snd q)"
proof -
  have "cl_conn c = None \<longrightarrow> redialled c (fst q) (snd q)"
  proof (rule reconnect_loop.raw_induct
      [where P = "\<lambda>env i b c q. cl_conn c = None \<longrightarrow> redialled c (fst q) (snd q)", OF _ assms(1)])
    fix f env i b c q
    assume IH: "\<And>env i b c q. f env i b c = Some q \<Longrightarrow> cl_conn c = None \<longrightarrow> redialled c (fst q) (snd q)"
      and eq: "(if cl_closed c \<or> at_closed (env i) then Some (Some client_closed, c\<lparr>cl_closed := True\<rparr>)
        else (case try_dial (env i) c of (ok, c1) \<Rightarrow>
             (if ok then Some (None, c1)
              else if at_closed_wait (env i) then Some (Some client_closed, c1\<lparr>cl_closed := True\<rparr>)
              else f env (Suc i) (next_backoff b) (c1\<lparr>waits := waits c1 @ [b]\<rparr>)))) = Some q"
    show "cl_conn c = None \<longrightarrow> redialled c (fst q) (snd q)"
    proof
      assume none: "cl_conn c = None"
      obtain ok c1 where t: "try_dial (env i) c = (ok, c1)" by fastforce
      consider "cl_closed c \<or> at_closed (env i)" | "\<not> (cl_closed c \<or> at_closed (env i))" "ok"
        | "\<not> (cl_closed c \<or> at_closed (env i))" "\<not> ok" by blast
      then show "redialled c (fst q) (snd q)"
      proof cases
        case 1
        with eq redialled_closed [OF none] show ?thesis by auto
      next
        case 2
        then have q: "q = (None, c1)" using eq t by simp
        have "try_dial (env i) c = (True, c1)" using t 2(2) by simp
        from try_dial_joins [OF this] show ?thesis unfolding q redialled_def by auto
      next
        case 3
        then have "try_dial (env i) c = (False, c1)" using t by simp
        note c1 = try_dial_fails [OF this]
        show ?thesis
        proof (cases "at_closed_wait (env i)")
          case True
          then have "q = (Some client_closed, c1\<lparr>cl_closed := True\<rparr>)" using eq t 3 by simp
          with c1 none show ?thesis by (auto simp: redialled_def join_envelope_def)
        next
          case False
          let ?c = "c1\<lparr>waits := waits c1 @ [b]\<rparr>"
          have "f env (Suc i) (next_backoff b) ?c = Some q" using False eq t 3 by simp
          from IH [OF this] c1 none have "redialled ?c (fst q) (snd q)" by simp
          then show ?thesis
            by (rule redialled_trans) (use c1 in \<open>simp_all add: join_envelope_def\<close>)
        qed
      qed
    qed
  qed
  with assms(2) show ?thesis by blast
qed

lemma reconnect_drop_frame:
  "cl_conn (reconnect_drop c) = None" "ws_sent (reconnect_drop c) = ws_sent c"
  "join_envelope (reconnect_drop c) = join_envelope c" "cl_closed (reconnect_drop c) = cl_closed c"
  "cl_close_done (reconnect_drop c) = cl_close_done c" "waits (reconnect_drop c) = waits c"
  "set (ws_shut (reconnect_drop c)) = set (ws_shut c) \<union> set_option (cl_conn c)"
  by (auto simp: reconnect_drop_def ws_close_def join_envelope_def split: option.splits)

lemma reconnectLocked_redials:
  assumes "reconnectLocked env c = Some (r, c')"
  shows "redialled c r c' \<and> set_option (cl_conn c) \<subseteq> set (ws_shut c')"
proof -
  have "redialled (reconnect_drop c) r c'"
    using reconnect_loop_redials [of env 0 initial_backoff "reconnect_drop c" "(r, c')"] assms
    by (simp add: reconnectLocked_def reconnect_drop_frame)
  then show ?thesis
    by (auto simp: redialled_def reconnect_drop_frame split: option.splits)
qed

text \<open>The loop goes round until the first attempt that ends it.\<close>

lemma reconnect_loop_returns:
  "\<not> cl_closed c \<Longrightarrow> attempt_ends (env (i + n)) \<Longrightarrow> (\<And>m. m < n \<Longrightarrow> \<not> attempt_ends (env (i + m))) \<Longrightarrow>
     \<exists>r c'. reconnect_loop env i (backoff_at j) c = Some (r, c')
       \<and> waits c' = waits c @ map backoff_at [j..<j + n]
       \<and> (r = None \<longleftrightarrow> \<not> at_closed (env (i + n)) \<and> (\<exists>k. attempt_joins (env (i + n)) k))"
proof (induction n arbitrary: i j c)
  case 0
  obtain ok c1 where t: "try_dial (env i) c = (ok, c1)" by fastforce
  show ?case
  proof (cases "at_closed (env i)")
    case True
    then show ?thesis by (simp add: reconnect_loop.simps [of env i])
  next
    case False
    show ?thesis
    proof (cases ok)
      case True
      with t try_dial_joins [of "env i" c c1] 0(1) False show ?thesis
        by (auto simp: reconnect_loop.simps [of env i])
    next
      case nok: False
      with t try_dial_fails [of "env i" c c1] have c1: "waits c1 = waits c" "\<nexists>k. attempt_joins (env i) k"
        by auto
      with 0(2) False have "at_closed_wait (env i)" by (simp add: attempt_ends_def)
      with c1 nok t 0(1) False show ?thesis by (simp add: reconnect_loop.simps [of env i])
    qed
  qed
next
  case (Suc n)
  obtain ok c1 where t: "try_dial (env i) c = (ok, c1)" by fastforce
  have "\<not> attempt_ends (env i)" using Suc.prems(3) [of 0] by simp
  then have e: "\<not> at_closed (env i)" "\<nexists>k. attempt_joins (env i) k" "\<not> at_closed_wait (env i)"
    by (auto simp: attempt_ends_def)
  have nok: "\<not> ok" using t e(2) try_dial_joins [of "env i" c c1] by (cases ok) auto
  with t try_dial_fails [of "env i" c c1] have c1: "waits c1 = waits c" "cl_closed c1 = cl_closed c" by auto
  let ?c = "c1\<lparr>waits := waits c1 @ [backoff_at j]\<rparr>"
  have step: "reconnect_loop env i (backoff_at j) c = reconnect_loop env (Suc i) (backoff_at (Suc j)) ?c"
    using Suc.prems(1) e nok t by (simp add: reconnect_loop.simps [of env i] next_backoff_at)
  have "\<not> attempt_ends (env (Suc i + m))" if "m < n" for m
    using Suc.prems(3) [of "Suc m"] that by simp
  from Suc.IH [of ?c "Suc i" "Suc j", OF _ _ this] Suc.prems(1,2) c1 obtain r c' where
      "reconnect_loop env (Suc i) (backoff_at (Suc j)) ?c = Some (r, c')"
      "waits c' = waits ?c @ map backoff_at [Suc j..<Suc j + n]"
      "r = None \<longleftrightarrow> \<not> at_closed (env (Suc i + n)) \<and> (\<exists>k. attempt_joins (env (Suc i + n)) k)" by auto
  with step c1 show ?case by (simp add: upt_rec [of j])
qed

text \<open>
  Property C17: redialling. Let the \<open>n\<close>-th attempt be the first that ends the loop: the client
  has been closed or the dial and the join frame succeed. Then the redial returns; it waits
  250 ms, doubled each time and never more than 5 s, between attempts; the old connection
  is closed; and either the client holds a new connection on which exactly the join frame
  has been sent, or it has been closed and holds none.
\<close>
theorem client_redial:
  assumes "\<not> cl_closed c" and "attempt_ends (env n)" and "\<And>m. m < n \<Longrightarrow> \<not> attempt_ends (env m)"
  shows "\<exists>r c'. reconnectLocked env c = Some (r, c')
    \<and> waits c' = waits c @ map (\<lambda>j. min (250 * 1000000 * 2 ^ j) (5 * 1000000000)) [0..<n]
    \<and> set_option (cl_conn c) \<subseteq> set (ws_shut c')
    \<and> (if \<not> at_closed (env n) \<and> (\<exists>k. attempt_joins (env n) k)
       then r = None \<and> (\<exists>k. cl_conn c' = Some k \<and> ws_sent c' = ws_sent c @ [(k, join_envelope c)])
       else r = Some client_closed \<and> cl_closed c' \<and> cl_conn c' = None \<and> ws_sent c' = ws_sent c)"
proof -
  have b: "backoff_at = (\<lambda>j. min (250 * 1000000 * 2 ^ j) (5 * 1000000000))"
    by (simp add: fun_eq_iff backoff_at_def initial_backoff_def reconnectMaxBackoff_def)
  have b0: "initial_backoff = backoff_at 0"
    by (simp add: backoff_at_def initial_backoff_def reconnectMaxBackoff_def)
  from reconnect_loop_returns [of "reconnect_drop c" env 0 n 0] assms obtain r c' where
      "reconnect_loop env 0 (backoff_at 0) (reconnect_drop c) = Some (r, c')"
      and w: "waits c' = waits c @ map backoff_at [0..<n]"
      and r: "r = None \<longleftrightarrow> \<not> at_closed (env n) \<and> (\<exists>k. attempt_joins (env n) k)"
    by (auto simp: reconnect_drop_frame)
  then have run: "reconnectLocked env c = Some (r, c')" by (simp add: reconnectLocked_def b0)
  from reconnectLocked_redials [OF run] w r b run show ?thesis
    by (cases r) (auto simp: redialled_def)
qed

theorem client_redial_witness:
  "\<exists>c'. reconnectLocked (\<lambda>i. \<lparr>at_closed = False, at_dial = (if i < 6 then Inl io_EOF else Inr 9),
      at_join = None, at_closed_wait = False\<rparr>) ((new_client ''r'' ''owner'' [])\<lparr>cl_conn := Some 3\<rparr>) = Some (None, c')
    \<and> waits c' = [250000000, 500000000, 1000000000, 2000000000, 4000000000, 5000000000]
    \<and> 3 \<in> set (ws_shut c') \<and> (\<exists>k. cl_conn c' = Some k)"
proof -
  let ?env = "\<lambda>i. \<lparr>at_closed = False, at_dial = (if i < (6 :: nat) then Inl io_EOF else Inr (9 :: nat)),
      at_join = None, at_closed_wait = False\<rparr>"
  let ?c = "(new_client ''r'' ''owner'' [])\<lparr>cl_conn := Some 3\<rparr>"
  have open_c: "\<not> cl_closed ?c" by (simp add: new_client_def)
  have ends: "attempt_ends (?env 6)" and goes: "\<And>m. m < 6 \<Longrightarrow> \<not> attempt_ends (?env m)"
    by (simp_all add: attempt_ends_def attempt_joins_def)
  have j: "\<not> at_closed (?env 6) \<and> (\<exists>k. attempt_joins (?env 6) k)"
    by (simp add: attempt_joins_def)
  from client_redial [where env = ?env and n = 6 and c = ?c, OF open_c ends goes, unfolded if_P [OF j]]
  obtain r c'
    where c: "reconnectLocked ?env ?c = Some (r, c')"
      and w: "waits c' = waits ?c @ map (\<lambda>j. min (250 * 1000000 * 2 ^ j) (5 * 1000000000)) [0..<6]"
      and s: "set_option (cl_conn ?c) \<subseteq> set (ws_shut c')"
      and r: "r = None" "\<exists>k. cl_conn c' = Some k"
    by blast
  have "[0..<6] = [0, 1, 2, 3, 4, 5 :: nat]" by (simp add: upt_rec)
  with w have "waits c' = [250000000, 500000000, 1000000000, 2000000000, 4000000000, 5000000000]"
    by (simp add: new_client_def)
  with c s r show ?thesis by auto
qed

subsection \<open>Writes\<close>

lemma ws_write_frame [simp]:
  "cl_conn (ws_write w k e c) = cl_conn c" "join_envelope (ws_write w k e c) = join_envelope c"
  "cl_closed (ws_write w k e c) = cl_closed c"
  by (simp_all add: ws_write_def join_envelope_def split: option.splits)

text \<open>
  A frame is never duplicated and never lost silently. If \<open>writeEnvelope\<close>
  reports success, the frame has been accepted exactly once, by the connection that the
  client then holds, at most preceded by the join frame of a redial; if it reports an error,
  no connection has accepted it.
\<close>
theorem client_write_exactly_once:
  assumes "writeEnvelope w1 env w2 e c = Some (Ret r, c')"
  shows "case r of
      None \<Rightarrow> \<exists>k. cl_conn c' = Some k \<and> (ws_sent c' = ws_sent c @ [(k, e)]
        \<or> ws_sent c' = ws_sent c @ [(k, join_envelope c), (k, e)])
    | Some err \<Rightarrow> ws_sent c' = ws_sent c \<or> (\<exists>k. cl_conn c' = Some k \<and> ws_sent c' = ws_sent c @ [(k, join_envelope c)])"
proof -
  obtain k where k: "cl_conn c = Some k"
    using assms by (cases "cl_conn c") (simp_all add: writeEnvelope_def)
  show ?thesis
  proof (cases w1)
    case None
    with assms k show ?thesis by (auto simp: writeEnvelope_def ws_write_def)
  next
    case (Some err1)
    show ?thesis
    proof (cases "isRecoverable w1")
      case False
      with assms k Some show ?thesis by (auto simp: writeEnvelope_def ws_write_def)
    next
      case True
      obtain d c2 where rc: "reconnectLocked env c = Some (d, c2)"
        using assms k Some True by (cases "reconnectLocked env c") (auto simp: writeEnvelope_def ws_write_def)
      note red = reconnectLocked_redials [OF rc, THEN conjunct1]
      show ?thesis
      proof (cases d)
        case (Some derr)
        with assms k rc True \<open>w1 = Some err1\<close> red show ?thesis
          by (auto simp: writeEnvelope_def ws_write_def redialled_def)
      next
        case None
        with red obtain k2 where k2: "cl_conn c2 = Some k2" "ws_sent c2 = ws_sent c @ [(k2, join_envelope c)]"
          by (auto simp: redialled_def)
        with assms k rc True \<open>w1 = Some err1\<close> None have "r = w2" "c' = ws_write w2 k2 e c2"
          by (auto simp: writeEnvelope_def ws_write_def)
        with k2 show ?thesis by (cases w2) (auto simp: ws_write_def)
      qed
    qed
  qed
qed

definition demo_attempt :: "nat \<Rightarrow> nat \<Rightarrow> attempt" where
  "demo_attempt k i = \<lparr>at_closed = False, at_dial = Inr k, at_join = None, at_closed_wait = False\<rparr>"

definition broken_pipe :: error where "broken_pipe = OpError ''write: broken pipe''"

lemma broken_pipe_recoverable: "isRecoverable (Some broken_pipe)"
  by (simp add: isRecoverable_def broken_pipe_def IsCloseError_def IsUnexpectedCloseError_def)

lemma demo_reconnect:
  "\<not> cl_closed c \<Longrightarrow> reconnectLocked (demo_attempt k) c =
     Some (None, (ws_write None k (join_envelope c) (reconnect_drop c))\<lparr>cl_conn := Some k\<rparr>)"
  by (simp add: reconnectLocked_def reconnect_loop.simps [of "demo_attempt k" 0] demo_attempt_def
      try_dial_def reconnect_drop_frame)

theorem client_write_exactly_once_witness:
  "\<exists>c'. writeEnvelope (Some broken_pipe) (demo_attempt 4) None (zero_Envelope\<lparr>Kind := ''sdp''\<rparr>)
      ((new_client ''r'' ''owner'' [])\<lparr>cl_conn := Some 3\<rparr>) = Some (Ret None, c')
    \<and> (4, zero_Envelope\<lparr>Kind := ''sdp''\<rparr>) \<in> set (ws_sent c')"
proof -
  let ?c = "(new_client ''r'' ''owner'' [])\<lparr>cl_conn := Some 3\<rparr>" and ?e = "zero_Envelope\<lparr>Kind := ''sdp''\<rparr>"
  obtain c' where w: "writeEnvelope (Some broken_pipe) (demo_attempt 4) None ?e ?c = Some (Ret None, c')"
      and k: "cl_conn c' = Some 4"
    by (simp add: writeEnvelope_def broken_pipe_recoverable ws_write_def demo_reconnect new_client_def)
  from client_write_exactly_once [OF w] w k show ?thesis by auto
qed

subsection \<open>Defects\<close>

text \<open>
  Property C18: the client can call a method on a nil connection, which panics, in two ways.
  \<open>Recv\<close> reads the connection without the write lock, so a \<open>Recv\<close> that starts while a
  \<open>Send\<close> is redialling finds none; and after \<open>Close\<close>, the first \<open>Send\<close> that fails drops the
  connection for good, so the next one finds none.
\<close>
theorem client_nil_connection:
  assumes "cl_conn c = Some k" and "\<not> cl_close_done c" and "isRecoverable (Some err)"
  shows "recv_read rd (reconnect_drop (ws_write (Some err) k e c)) = NilPanic
    \<and> (\<exists>c1 c2. client_Close res c = (res, c1)
        \<and> writeEnvelope (Some err) env w2 e c1 = Some (Ret (Some (WrapError ''reconnect: '' client_closed [])), c2)
        \<and> writeEnvelope w1 env w2 e c2 = Some (NilPanic, c2))"
proof
  show "recv_read rd (reconnect_drop (ws_write (Some err) k e c)) = NilPanic"
    by (simp add: recv_read_def reconnect_drop_frame)
  obtain c1 where c1: "client_Close res c = (res, c1)" "cl_conn c1 = Some k" "cl_closed c1"
    using assms(1,2) by (simp add: client_Close_def ws_close_def)
  define c2 where "c2 = (reconnect_drop c1)\<lparr>cl_closed := True\<rparr>"
  have "reconnectLocked env c1 = Some (Some client_closed, c2)"
    using c1(3) by (simp add: reconnectLocked_def reconnect_loop.simps [of env 0] reconnect_drop_frame c2_def)
  then have "writeEnvelope (Some err) env w2 e c1 = Some (Ret (Some (WrapError ''reconnect: '' client_closed [])), c2)"
    using c1(2) assms(3) by (simp add: writeEnvelope_def ws_write_def)
  moreover have "writeEnvelope w1 env w2 e c2 = Some (NilPanic, c2)"
    by (simp add: writeEnvelope_def c2_def reconnect_drop_frame)
  ultimately show "\<exists>c1 c2. client_Close res c = (res, c1)
        \<and> writeEnvelope (Some err) env w2 e c1 = Some (Ret (Some (WrapError ''reconnect: '' client_closed [])), c2)
        \<and> writeEnvelope w1 env w2 e c2 = Some (NilPanic, c2)"
    using c1(1) by blast
qed

theorem client_nil_connection_witness:
  "\<exists>c1 c2. client_Close None ((new_client ''r'' ''owner'' [])\<lparr>cl_conn := Some 3\<rparr>) = (None, c1)
     \<and> writeEnvelope None (demo_attempt 4) None zero_Envelope c2 = Some (NilPanic, c2)"
  using client_nil_connection [of "(new_client ''r'' ''owner'' [])\<lparr>cl_conn := Some 3\<rparr>" 3 broken_pipe
      "Inl io_EOF" zero_Envelope None "demo_attempt 4" None None] broken_pipe_recoverable
  by (auto simp: new_client_def)

text \<open>
  Redials that should not happen. When the join frame of the first dial is retried,
  the redial has already sent it, so it is sent twice on the new connection. And when a
  \<open>Recv\<close> fails because a \<open>Send\<close> has replaced its connection in the meantime, it closes the
  fresh connection and dials a third one.
\<close>
theorem client_redundant_redials:
  "(\<exists>c'. DialWithLogger url rm role pk (Inr k) (Some broken_pipe) (demo_attempt j) None = Some (Ret (Inr ()), c')
      \<and> ws_sent c' = [(j, join_envelope c'), (j, join_envelope c')])
   \<and> (\<exists>c1 c2. writeEnvelope (Some broken_pipe) (demo_attempt j) None e
          ((new_client rm role pk)\<lparr>cl_conn := Some k\<rparr>) = Some (Ret None, c1)
      \<and> cl_conn c1 = Some j
      \<and> recv_redial broken_pipe (demo_attempt m) c1 = Some (None, c2)
      \<and> j \<in> set (ws_shut c2) \<and> cl_conn c2 = Some m)"
proof -
  have "\<not> cl_closed ((new_client rm role pk)\<lparr>cl_conn := Some k\<rparr>)" by (simp add: new_client_def)
  then show ?thesis
    by (simp add: DialWithLogger_def writeEnvelope_def broken_pipe_recoverable ws_write_def demo_reconnect
        recv_redial_def reconnect_drop_def ws_close_def new_client_def join_envelope_def Let_def)
qed

text \<open>
  A truncated JSON frame is redialled, although the comment of \<open>isRecoverable\<close> promises that
  decoding errors reach the caller: the decoder reports it as an unexpected EOF.
\<close>

lemma truncated_json_is_recoverable: "isRecoverable (Some io_ErrUnexpectedEOF)"
proof -
  have "Contains ''unexpected EOF'' ''EOF''" by (simp add: HasPrefix_def)
  then show ?thesis
    by (simp add: isRecoverable_def io_ErrUnexpectedEOF_def IsCloseError_def IsUnexpectedCloseError_def
        recoverable_frags_def)
qed

text \<open>Every close frame and every network operation error leads to a redial.\<close>

lemma close_and_op_errors_recoverable:
  "isRecoverable (Some (CloseError code t))" "as_OpError err \<Longrightarrow> isRecoverable (Some err)"
  by (simp_all add: isRecoverable_def IsCloseError_def IsUnexpectedCloseError_def split: error.splits)

end
