(* ===== verification/Signal_Duel.thy ===== *)
theory Signal_Duel
  imports Signal_Keepalive Signal_Client "HOL-Library.Multiset"
begin

text \<open>
  Client and server together, where two processes join the same room in the same role: the server
  lets the newcomer take the slot and closes the incumbent's socket; the incumbent's client takes
  the loss of its connection for a network failure and redials. A socket has the same number on
  both sides.
\<close>

definition dial_ok :: "nat \<Rightarrow> attempt" where
  "dial_ok k = \<lparr>at_closed = False, at_dial = Inr k, at_join = None, at_closed_wait = False\<rparr>"

text \<open>
  One round: the handler of the displaced socket ends, the client's \<open>Recv\<close> fails with \<open>err\<close> and
  redials at once, and the server processes the join on the new socket \<open>k\<close>.
\<close>

definition rejoin :: "(nat \<Rightarrow> bool) \<Rightarrow> error \<Rightarrow> nat \<Rightarrow> ws_client \<Rightarrow> hub \<Rightarrow> (ws_client \<times> hub) option" where
  "rejoin up err k c h =
     (case cl_conn c of
        None \<Rightarrow> None
      | Some old \<Rightarrow>
          let h0 = pump_exit (cl_room c) (cl_role c) \<lparr>ws = old, pubkey = cl_pubkey c\<rparr> h
          in (case recv_redial err (\<lambda>_. dial_ok k) c of
                Some (None, c1) \<Rightarrow>
                  (case handle_first up k (Some (snd (last (ws_sent c1)))) h0 of
                     (Announcing rid role me peer, h1) \<Rightarrow>
                       Some (c1, snd (handle_announce up rid role me peer h1))
                   | _ \<Rightarrow> None)
              | _ \<Rightarrow> None))"

text \<open>Rounds in alternation, one new socket for each; the first client is the displaced one.\<close>

fun duel :: "(nat \<Rightarrow> bool) \<Rightarrow> error \<Rightarrow> nat list \<Rightarrow> ws_client \<Rightarrow> ws_client \<Rightarrow> hub
    \<Rightarrow> (ws_client \<times> ws_client \<times> hub) option" where
  "duel up err [] a b h = Some (a, b, h)"
| "duel up err (k # ks) a b h =
     (case rejoin up err k a h of
        None \<Rightarrow> None
      | Some (a1, h1) \<Rightarrow> duel up err ks b a1 h1)"

subsection \<open>The rounds\<close>

text \<open>\<open>a\<close> has lost its socket, \<open>b\<close> holds the slot and \<open>v\<close> is the counterpart of both.\<close>

definition duelling :: "(nat \<Rightarrow> bool) \<Rightarrow> string \<Rightarrow> string \<Rightarrow> peerConn \<Rightarrow> ws_client \<Rightarrow> ws_client \<Rightarrow> hub \<Rightarrow> bool" where
  "duelling up rid role v a b h \<longleftrightarrow>
     rid \<noteq> [] \<and> valid_role role
     \<and> cl_room a = rid \<and> cl_room b = rid \<and> cl_role a = role \<and> cl_role b = role
     \<and> \<not> cl_closed a \<and> \<not> cl_closed b
     \<and> (\<exists>ka. cl_conn a = Some ka \<and> closed h ka \<and> ka \<noteq> ws v)
     \<and> (\<exists>kb. cl_conn b = Some kb \<and> slot h (rid, role) = Some \<lparr>ws = kb, pubkey = cl_pubkey b\<rparr>
           \<and> \<not> closed h kb \<and> kb \<noteq> ws v)
     \<and> slot h (rid, other_role role) = Some v \<and> up (ws v) \<and> \<not> closed h (ws v)"

definition readies :: "nat \<Rightarrow> hub \<Rightarrow> nat" where
  "readies w h = length (filter (\<lambda>(x, e). x = w \<and> Kind e = ''ready'') (sent h))"

lemma redial_at_once:
  assumes "cl_conn c = Some old" and "\<not> cl_closed c" and "isRecoverable (Some err)"
  shows "recv_redial err (\<lambda>_. dial_ok k) c =
    Some (None, c\<lparr>ws_shut := old # ws_shut c, cl_conn := Some k, ws_sent := ws_sent c @ [(k, join_envelope c)]\<rparr>)"
proof -
  have "\<not> cl_closed (reconnect_drop c)" using assms(2) by (simp add: reconnect_drop_frame)
  then have "reconnectLocked (\<lambda>_. dial_ok k) c = Some (None, snd (try_dial (dial_ok k) (reconnect_drop c)))"
    by (simp add: reconnectLocked_def reconnect_loop.simps dial_ok_def try_dial_def)
  then show ?thesis
    using assms(1,3) by (simp add: recv_redial_def dial_ok_def try_dial_def reconnect_drop_def ws_close_def
        ws_write_def join_envelope_def)
qed

lemma pump_exit_frame [simp]:
  "closed (pump_exit rid role me h) = (closed h)(ws me := True)" "sent (pump_exit rid role me h) = sent h"
  by (simp_all add: pump_exit_def pump_leave_def pump_return_def sent_drop_peer)

lemma slot_pump_exit:
  "slot (pump_exit rid role me h) k =
     (if k = (rid, role) \<and> (\<exists>q. slot h k = Some q \<and> ws q = ws me) then None else slot h k)"
  by (auto simp: pump_exit_def pump_leave_def pump_return_def slot_drop_peer)

lemma announce_frame:
  assumes "up (ws q)" and "\<not> closed h (ws q)" and "ws me \<noteq> ws q"
  shows "closed (snd (handle_announce up rid role me (Some q) h)) = closed h"
    and "readies (ws q) (snd (handle_announce up rid role me (Some q) h)) = Suc (readies (ws q) h)"
  using assms by (simp_all add: handle_announce_def ws_WriteJSON_def readies_def zero_Envelope_def)

lemma other_role_other: "valid_role role \<Longrightarrow> other_role role \<noteq> role"
  by (auto simp: valid_role_def other_role_def)

text \<open>One round changes places: the displaced client holds the slot again, the holder has lost its socket.\<close>

lemma duel_round:
  assumes "duelling up rid role v a b h" and "isRecoverable (Some err)" and "\<not> closed h k" and "k \<noteq> ws v"
    and "cl_conn b \<noteq> Some k"
  shows "\<exists>a1 h1. rejoin up err k a h = Some (a1, h1) \<and> duelling up rid role v b a1 h1
    \<and> readies (ws v) h1 = Suc (readies (ws v) h) \<and> waits a1 = waits a \<and> cl_conn a1 = Some k
    \<and> (\<forall>w. closed h1 w \<longleftrightarrow> closed h w \<or> cl_conn b = Some w)"
proof -
  from assms(1) obtain ka kb where d: "rid \<noteq> []" "valid_role role"
      "cl_room a = rid" "cl_room b = rid" "cl_role a = role" "cl_role b = role"
      "\<not> cl_closed a" "\<not> cl_closed b" "cl_conn a = Some ka" "closed h ka"
      "cl_conn b = Some kb" "slot h (rid, role) = Some \<lparr>ws = kb, pubkey = cl_pubkey b\<rparr>" "\<not> closed h kb" "kb \<noteq> ws v"
      "slot h (rid, other_role role) = Some v" "up (ws v)" "\<not> closed h (ws v)"
    unfolding duelling_def by blast
  let ?a1 = "a\<lparr>ws_shut := ka # ws_shut a, cl_conn := Some k, ws_sent := ws_sent a @ [(k, join_envelope a)]\<rparr>"
  let ?me = "\<lparr>ws = k, pubkey = cl_pubkey a\<rparr>"
  define h0 where "h0 = pump_exit rid role \<lparr>ws = ka, pubkey = cl_pubkey a\<rparr> h"
  have ne: "ka \<noteq> kb" "ka \<noteq> ws v" using d(10,13,17) by auto
  have s0: "slot h0 = slot h" using d(12) ne by (auto simp: h0_def slot_pump_exit fun_eq_iff)
  have c0: "closed h0 = closed h" using d(10) by (auto simp: h0_def fun_upd_idem_iff)
  define h1 where "h1 = snd (pair_peer rid role ?me h0)"
  have s1: "slot h1 x = (if x = (rid, role) then Some ?me else slot h x)" for x
    using slot_pair_peer [OF d(2)] by (simp add: h1_def s0)
  have c1: "closed h1 w \<longleftrightarrow> closed h w \<or> w = kb" for w
    using closed_pair_peer [OF d(2), of rid ?me h0 w] d(12) by (auto simp: h1_def s0 c0)
  have r1: "readies (ws v) h1 = readies (ws v) h" by (simp add: readies_def h1_def h0_def)
  define h2 where "h2 = snd (handle_announce up rid role ?me (Some v) h1)"
  have v1: "\<not> closed h1 (ws v)" using c1 d(14,17) by auto
  have me: "ws ?me \<noteq> ws v" using assms(4) by simp
  note an = announce_frame [of up v h1 ?me rid role, OF d(16) v1 me, folded h2_def]
  have "rejoin up err k a h = Some (?a1, h2)"
    using redial_at_once [OF d(9,7) assms(2), of k] handle_first_join [of "join_envelope a" up k h0] d(1-3,5,9,15)
    by (simp add: rejoin_def Let_def join_envelope_def h0_def [symmetric] s0 h1_def h2_def)
  moreover have "duelling up rid role v b ?a1 h2"
    using d assms(3,4,5) an(1) c1 other_role_other [OF d(2)]
    by (simp add: duelling_def h2_def s1)
  moreover have "closed h2 w \<longleftrightarrow> closed h w \<or> cl_conn b = Some w" for w using an(1) c1 d(11) by auto
  ultimately show ?thesis using an(2) r1 by (intro exI [of _ ?a1] exI [of _ h2]) simp
qed

lemma duel_rounds:
  assumes "duelling up rid role v a b h" and "isRecoverable (Some err)" and "distinct ks"
    and "\<And>k. k \<in> set ks \<Longrightarrow> \<not> closed h k \<and> k \<noteq> ws v \<and> cl_conn b \<noteq> Some k"
  shows "\<exists>a' b' h'. duel up err ks a b h = Some (a', b', h') \<and> duelling up rid role v a' b' h'
    \<and> readies (ws v) h' = readies (ws v) h + length ks
    \<and> mset [waits a', waits b'] = mset [waits a, waits b]"
  using assms
proof (induction ks arbitrary: a b h)
  case (Cons k ks)
  have k: "\<not> closed h k" "k \<noteq> ws v" "cl_conn b \<noteq> Some k" using Cons.prems(4) [of k] by simp_all
  from duel_round [OF Cons.prems(1,2) k] obtain a1 h1 where r: "rejoin up err k a h = Some (a1, h1)" "duelling up rid role v b a1 h1"
      "readies (ws v) h1 = Suc (readies (ws v) h)" "waits a1 = waits a"
      "\<forall>w. closed h1 w \<longleftrightarrow> closed h w \<or> cl_conn b = Some w" "cl_conn a1 = Some k"
    by blast
  have "\<not> closed h1 k' \<and> k' \<noteq> ws v \<and> cl_conn a1 \<noteq> Some k'" if "k' \<in> set ks" for k'
    using that Cons.prems(3) Cons.prems(4) [of k'] r(5,6) by auto
  from Cons.IH [OF r(2) Cons.prems(2) _ this] Cons.prems(3) obtain a' b' h' where
      "duel up err ks b a1 h1 = Some (a', b', h')" "duelling up rid role v a' b' h'"
      "readies (ws v) h' = readies (ws v) h1 + length ks" "mset [waits a', waits b'] = mset [waits b, waits a1]"
    by auto
  with r(1,3,4) show ?case by (intro exI [of _ a'] exI [of _ b'] exI [of _ h']) simp
qed auto

text \<open>
  Property C6: two owners of one room never come to rest. Each takeover makes the displaced process
  redial at once and displace the other, for as many rounds as there are sockets: after any number
  of rounds the two are in the same situation as at the start, neither has waited, since the
  backoff only separates attempts of one redial, and the viewer has received one \<open>ready\<close> per
  round, each of which makes it tear down its peer connection and build a new one.
\<close>
theorem duelling_clients_never_settle:
  assumes "duelling up rid role v a b h" and "isRecoverable (Some err)" and "distinct ks"
    and "\<forall>k \<in> set ks. \<not> closed h k \<and> k \<noteq> ws v \<and> cl_conn b \<noteq> Some k"
  shows "\<exists>a' b' h'. duel up err ks a b h = Some (a', b', h') \<and> duelling up rid role v a' b' h'
    \<and> readies (ws v) h' = readies (ws v) h + length ks
    \<and> mset [waits a', waits b'] = mset [waits a, waits b]"
  using duel_rounds [OF assms(1-3)] assms(4) by blast

text \<open>Two owners and a viewer; gorilla reports the lost connection as an abnormal closure.\<close>

definition abnormal_closure :: error where
  "abnormal_closure = CloseError 1006 ''websocket: close 1006 (abnormal closure): unexpected EOF''"

definition two_owners :: hub where
  "two_owners = newHub\<lparr>rooms := [''r'' \<mapsto> \<lparr>owner = Some \<lparr>ws = 2, pubkey = ''kb''\<rparr>, viewer = Some \<lparr>ws = 9, pubkey = []\<rparr>\<rparr>],
     closed := (\<lambda>w. w = 1)\<rparr>"

theorem duelling_clients_never_settle_witness:
  "\<exists>a' b' h'. duel (\<lambda>_. True) abnormal_closure [3, 4, 5] ((new_client ''r'' ''owner'' ''ka'')\<lparr>cl_conn := Some 1\<rparr>)
      ((new_client ''r'' ''owner'' ''kb'')\<lparr>cl_conn := Some 2\<rparr>) two_owners = Some (a', b', h')
    \<and> readies 9 h' = 3 \<and> mset [waits a', waits b'] = {# [], [] #}"
proof -
  let ?v = "\<lparr>ws = 9, pubkey = []\<rparr> :: peerConn"
  have d: "duelling (\<lambda>_. True) ''r'' ''owner'' ?v ((new_client ''r'' ''owner'' ''ka'')\<lparr>cl_conn := Some 1\<rparr>)
      ((new_client ''r'' ''owner'' ''kb'')\<lparr>cl_conn := Some 2\<rparr>) two_owners"
    by (simp add: duelling_def new_client_def two_owners_def newHub_def slot_def valid_role_def other_role_def)
  have e: "isRecoverable (Some abnormal_closure)"
    by (simp add: isRecoverable_def IsCloseError_def abnormal_closure_def)
  have r: "readies 9 two_owners = 0" by (simp add: readies_def two_owners_def newHub_def)
  have k: "\<forall>k \<in> set [3, 4, 5]. \<not> closed two_owners k \<and> k \<noteq> ws ?v
      \<and> cl_conn ((new_client ''r'' ''owner'' ''kb'')\<lparr>cl_conn := Some 2\<rparr>) \<noteq> Some k"
    by (simp add: two_owners_def newHub_def new_client_def)
  have w: "waits ((new_client ''r'' ''owner'' x)\<lparr>cl_conn := y\<rparr>) = []" for x y by (simp add: new_client_def)
  have "distinct [3, 4, 5 :: nat]" "ws ?v = 9" by simp_all
  from duelling_clients_never_settle [OF d e this(1) k] show ?thesis
    unfolding \<open>ws ?v = 9\<close> r w by (auto simp del: duel.simps)
qed

end
