(* ===== verification/Go_Conn.thy ===== *)
theory Go_Conn
  imports Go_Error
begin

text \<open>
  The byte-stream vocabulary of the data path. \<open>NetConn\<close> is the interface \<open>net.Conn\<close> as
  the code uses it: a record of methods over a connection state. A read that blocks for
  ever has no result (\<open>None\<close>). \<open>ReadFull\<close> is \<open>io.ReadFull\<close>; \<open>chunk_loop\<close> is the loop
  shape that both \<open>Write\<close> methods of the program have. The locales \<open>byte_source\<close> and
  \<open>byte_sink\<close> are the contracts between a connection and the code that reads frames from
  it or writes frames to it.
\<close>

type_synonym 'c reader = "nat \<Rightarrow> 'c \<Rightarrow> ((bytes \<times> error option) \<times> 'c) option"
type_synonym 'c writer = "bytes \<Rightarrow> 'c \<Rightarrow> (nat \<times> error option) \<times> 'c"

record 'c NetConn =
  cRead :: "'c reader"
  cWrite :: "'c writer"
  cClose :: "'c \<Rightarrow> error option \<times> 'c"
  cSetDeadline :: "int option \<Rightarrow> 'c \<Rightarrow> 'c"

subsection \<open>Reading exactly n bytes\<close>

text \<open>
  The loop of \<open>io.ReadAtLeast\<close>: read until \<open>m\<close> bytes are there or an error comes. A
  reader that keeps returning no bytes and no error keeps the loop running.
\<close>

partial_function (option) read_loop ::
    "'c reader \<Rightarrow> nat \<Rightarrow> bytes \<Rightarrow> 'c \<Rightarrow> ((bytes \<times> error option) \<times> 'c) option" where
  "read_loop rd m acc c =
     (if m \<le> length acc then Some ((acc, None), c)
      else Option.bind (rd (m - length acc) c)
        (\<lambda>r. case r of ((bs, err), c') \<Rightarrow>
           (case err of None \<Rightarrow> read_loop rd m (acc @ bs) c'
            | Some e \<Rightarrow> Some ((acc @ bs, Some e), c'))))"

definition ReadFull :: "'c reader \<Rightarrow> nat \<Rightarrow> 'c \<Rightarrow> ((bytes \<times> error option) \<times> 'c) option" where
  "ReadFull rd n c =
     (case read_loop rd n [] c of None \<Rightarrow> None
      | Some ((bs, err), c') \<Rightarrow>
          Some ((bs,
            (if n \<le> length bs then None
             else if bs \<noteq> [] \<and> err = Some io_EOF then Some io_ErrUnexpectedEOF else err)), c'))"

text \<open>
  A state predicate that every single read keeps is kept by the whole loop.
\<close>

lemma read_loop_keeps:
  assumes rd: "\<And>n c r c'. rd n c = Some (r, c') \<Longrightarrow> P c \<Longrightarrow> P c'"
    and ret: "read_loop rd m acc c = Some q" and "P c"
  shows "P (snd q)"
proof -
  have "rd = rd \<longrightarrow> P c \<longrightarrow> P (snd q)"
  proof (rule read_loop.raw_induct [where P = "\<lambda>rd' m acc c q. rd' = rd \<longrightarrow> P c \<longrightarrow> P (snd q)", OF _ ret])
    fix f rd' m acc c q
    assume IH: "\<And>rd' m acc c q. f rd' m acc c = Some q \<Longrightarrow> rd' = rd \<longrightarrow> P c \<longrightarrow> P (snd q)"
      and eq: "(if m \<le> length acc then Some ((acc, None), c)
        else Option.bind (rd' (m - length acc) c)
          (\<lambda>r. case r of ((bs, err), c') \<Rightarrow>
             (case err of None \<Rightarrow> f rd' m (acc @ bs) c'
              | Some e \<Rightarrow> Some ((acc @ bs, Some e), c')))) = Some q"
    show "rd' = rd \<longrightarrow> P c \<longrightarrow> P (snd q)"
    proof (intro impI)
      assume rd': "rd' = rd" and Pc: "P c"
      show "P (snd q)"
      proof (cases "m \<le> length acc")
        case True
        with eq Pc show ?thesis by auto
      next
        case False
        with eq rd' obtain bs err c' where one: "rd (m - length acc) c = Some ((bs, err), c')"
            and rest: "(case err of None \<Rightarrow> f rd m (acc @ bs) c'
              | Some e \<Rightarrow> Some ((acc @ bs, Some e), c')) = Some q"
          by (auto simp: bind_eq_Some_conv)
        from rd [OF one Pc] rest IH [of rd m "acc @ bs" c' q] show ?thesis
          by (auto split: option.splits)
      qed
    qed
  qed
  with assms(3) show ?thesis by simp
qed

lemma ReadFull_keeps:
  assumes "\<And>n c r c'. rd n c = Some (r, c') \<Longrightarrow> P c \<Longrightarrow> P c'"
    and "ReadFull rd n c = Some (r, c')" and "P c"
  shows "P c'"
proof -
  from assms(2) obtain q where q: "read_loop rd n [] c = Some q" "c' = snd q"
    by (auto simp: ReadFull_def split: option.splits)
  have "P (snd q)"
    by (rule read_loop_keeps [where rd = rd and P = P, OF _ q(1) assms(3)]) (rule assms(1))
  with q(2) show ?thesis by simp
qed

text \<open>
  The loop ends when every read that returns without an error makes progress on a measure.
\<close>

lemma read_loop_terminates:
  assumes rd: "\<And>n c. 0 < n \<Longrightarrow> P c \<Longrightarrow> \<exists>bs e c'. rd n c = Some ((bs, e), c') \<and> P c'
      \<and> (e = None \<longrightarrow> mu c' < (mu c :: nat))"
  shows "P c \<Longrightarrow> \<exists>q. read_loop rd m acc c = Some q"
proof (induction "mu c" arbitrary: acc c rule: less_induct)
  case less
  show ?case
  proof (cases "m \<le> length acc")
    case True
    then show ?thesis by (simp add: read_loop.simps [of rd m acc c])
  next
    case False
    then obtain bs e c' where r: "rd (m - length acc) c = Some ((bs, e), c')" "P c'"
        "e = None \<longrightarrow> mu c' < mu c"
      using rd [of "m - length acc" c] less.prems by auto
    with False less.hyps [of c' "acc @ bs"] show ?thesis
      by (cases e) (simp_all add: read_loop.simps [of rd m acc c])
  qed
qed

text \<open>
  A source of bytes. \<open>holds c p\<close> says that the connection in state \<open>c\<close> is healthy and
  still has the bytes \<open>p\<close> to deliver; a read hands out a non-empty prefix of them that fits
  the buffer.
\<close>

locale byte_source =
  fixes rd :: "'c reader" and holds :: "'c \<Rightarrow> bytes \<Rightarrow> bool"
  assumes read_prefix: "holds c p \<Longrightarrow> p \<noteq> [] \<Longrightarrow> 0 < n \<Longrightarrow>
    \<exists>k c'. rd n c = Some ((take k p, None), c') \<and> 0 < k \<and> k \<le> n \<and> k \<le> length p
      \<and> holds c' (drop k p)"
begin

lemma read_loop_delivers:
  "holds c p \<Longrightarrow> length acc \<le> m \<Longrightarrow> m - length acc \<le> length p \<Longrightarrow>
     \<exists>c'. read_loop rd m acc c = Some ((acc @ take (m - length acc) p, None), c')
       \<and> holds c' (drop (m - length acc) p)"
proof (induction "m - length acc" arbitrary: acc c p rule: less_induct)
  case less
  show ?case
  proof (cases "m \<le> length acc")
    case True
    with less.prems show ?thesis by (auto simp: read_loop.simps [of rd m acc c])
  next
    case False
    with less.prems have "p \<noteq> []" "0 < m - length acc" by auto
    then obtain k c' where k: "rd (m - length acc) c = Some ((take k p, None), c')"
        "0 < k" "k \<le> m - length acc" "k \<le> length p" "holds c' (drop k p)"
      using read_prefix less.prems(1) by blast
    have "\<exists>c''. read_loop rd m (acc @ take k p) c' =
        Some (((acc @ take k p) @ take (m - length (acc @ take k p)) (drop k p), None), c'')
        \<and> holds c'' (drop (m - length (acc @ take k p)) (drop k p))"
      using less.prems k False by (intro less.hyps) auto
    then obtain c'' where c'': "read_loop rd m (acc @ take k p) c' =
        Some (((acc @ take k p) @ take (m - length (acc @ take k p)) (drop k p), None), c'')"
        "holds c'' (drop (m - length (acc @ take k p)) (drop k p))" by blast
    have "take k p @ take (m - (length acc + k)) (drop k p) = take (m - length acc) p"
      using k take_add [of k "m - (length acc + k)" p] by simp
    moreover have "drop (m - (length acc + k)) (drop k p) = drop (m - length acc) p"
      using k by simp
    ultimately show ?thesis
      using c'' k False by (simp add: read_loop.simps [of rd m acc c] min_absorb2)
  qed
qed

lemma ReadFull_delivers:
  assumes "holds c p" and "n \<le> length p"
  shows "\<exists>c'. ReadFull rd n c = Some ((take n p, None), c') \<and> holds c' (drop n p)"
  using read_loop_delivers [OF assms(1), of "[]" n] assms(2)
  by (auto simp: ReadFull_def)

end

text \<open>
  A sink of bytes: \<open>written c\<close> is everything the connection has accepted. A write accepts a
  prefix and reports its length; without an error it is the whole slice.
\<close>

locale byte_sink =
  fixes wr :: "'c writer" and written :: "'c \<Rightarrow> bytes"
  assumes write_prefix: "wr p c = ((n, e), c') \<Longrightarrow>
    n \<le> length p \<and> written c' = written c @ take n p \<and> (e = None \<longrightarrow> n = length p)"
begin

lemma write_ok: "wr p c = ((n, None), c') \<Longrightarrow> written c' = written c @ p"
  using write_prefix [of p c n None c'] by simp

end

subsection \<open>The loop of a chunking Write\<close>

text \<open>
  \<^verbatim>\<open>
  total := 0
  for len(p) > 0 {
      chunk := p; if len(chunk) > m { chunk = p[:m] }
      if err := body(chunk); err != nil { return total, err }
      total += len(chunk); p = p[len(chunk):]
  }
  return total, nil
  \<close>
  \<open>i\<close> counts the rounds, for bodies whose environment changes from round to round.
\<close>

function chunk_loop :: "nat \<Rightarrow> (nat \<Rightarrow> bytes \<Rightarrow> 's \<Rightarrow> error option \<times> 's) \<Rightarrow> nat \<Rightarrow> bytes \<Rightarrow> nat \<Rightarrow> 's
    \<Rightarrow> (nat \<times> error option) \<times> 's" where
  "chunk_loop m body i p tot s =
     (if p = [] \<or> m = 0 then ((tot, None), s)
      else
        let chunk = (if m < length p then take m p else p)
        in (case body i chunk s of
              (Some e, s') \<Rightarrow> ((tot, Some e), s')
            | (None, s') \<Rightarrow>
                chunk_loop m body (Suc i) (drop (length chunk) p) (tot + length chunk) s'))"
  by pat_completeness auto
termination
  by (relation "measure (\<lambda>(m, body, i, p, tot, s). length p)") (auto split: if_splits)

declare chunk_loop.simps [simp del]

text \<open>The loop runs its body over the chunks of the slice, up to the first error.\<close>

fun run_chunks :: "(nat \<Rightarrow> bytes \<Rightarrow> 's \<Rightarrow> error option \<times> 's) \<Rightarrow> nat \<Rightarrow> bytes list \<Rightarrow> nat \<Rightarrow> 's
    \<Rightarrow> (nat \<times> error option) \<times> 's" where
  "run_chunks body i [] tot s = ((tot, None), s)"
| "run_chunks body i (c # cs) tot s =
     (case body i c s of
        (Some e, s') \<Rightarrow> ((tot, Some e), s')
      | (None, s') \<Rightarrow> run_chunks body (Suc i) cs (tot + length c) s')"

lemma chunk_loop_run:
  "0 < m \<Longrightarrow> chunk_loop m body i p tot s = run_chunks body i (chunks m p) tot s"
proof (induction m body i p tot s rule: chunk_loop.induct)
  case (1 m body i p tot s)
  show ?case
  proof (cases "p = []")
    case True
    then show ?thesis by (simp add: chunk_loop.simps)
  next
    case False
    let ?c = "if m < length p then take m p else p"
    have c: "?c = take m p" and d: "drop (length ?c) p = drop m p" by auto
    from False 1 show ?thesis
      by (subst chunk_loop.simps)
         (simp add: chunks_step c d Let_def min_def del: if_split
           split: prod.splits option.splits)
  qed
qed

end
