(* ===== verification/Secure_Frame.thy ===== *)
theory Secure_Frame
  imports Go_Conn Go_Format
begin

text \<open>
  The framing of \<open>internal/secure/noise.go\<close>: a blob with a two-byte big-endian length in
  front. \<open>readFrame\<close> and \<open>writeFrame\<close> work over any connection; the lemmas are proved
  against the contracts \<open>byte_source\<close> and \<open>byte_sink\<close>.
\<close>

definition be16 :: "nat \<Rightarrow> bytes" where
  "be16 n = [word_of_nat (n div 256), word_of_nat n]"

definition of_be16 :: "bytes \<Rightarrow> nat" where
  "of_be16 hdr = unat (hdr ! 0) * 256 + unat (hdr ! 1)"

lemma length_be16 [simp]: "length (be16 n) = 2"
  by (simp add: be16_def)

lemma of_be16_be16: "n \<le> 0xFFFF \<Longrightarrow> of_be16 (be16 n) = n"
  by (simp add: of_be16_def be16_def unat_of_nat)

definition readFrame :: "'c reader \<Rightarrow> 'c \<Rightarrow> ((error + bytes) \<times> 'c) option" where
  "readFrame rd c =
     (case ReadFull rd 2 c of
        None \<Rightarrow> None
      | Some ((hdr, Some e), c1) \<Rightarrow> Some (Inl e, c1)
      | Some ((hdr, None), c1) \<Rightarrow>
          (let n = of_be16 hdr in
           case ReadFull rd n c1 of
             None \<Rightarrow> None
           | Some ((buf, Some e), c2) \<Rightarrow> Some (Inl e, c2)
           | Some ((buf, None), c2) \<Rightarrow> Some (Inr buf, c2)))"

definition writeFrame :: "'c writer \<Rightarrow> bytes \<Rightarrow> 'c \<Rightarrow> error option \<times> 'c" where
  "writeFrame wr p c =
     (if 0xFFFF < length p
      then (Some (ErrorString (''frame too large: '' @ dec_string (length p))), c)
      else (case wr (be16 (length p) @ p) c of ((n, err), c') \<Rightarrow> (err, c')))"

text \<open>The bytes of one frame on the wire.\<close>

definition frame :: "bytes \<Rightarrow> bytes" where
  "frame p = be16 (length p) @ p"

context byte_source
begin

lemma readFrame_delivers:
  assumes "holds c (frame p @ rest)" and "length p \<le> 0xFFFF"
  shows "\<exists>c'. readFrame rd c = Some (Inr p, c') \<and> holds c' rest"
proof -
  from ReadFull_delivers [OF assms(1), of 2]
  obtain c1 where c1: "ReadFull rd 2 c = Some ((be16 (length p), None), c1)" "holds c1 (p @ rest)"
    by (auto simp: frame_def)
  from ReadFull_delivers [OF c1(2), of "length p"]
  obtain c2 where c2: "ReadFull rd (length p) c1 = Some ((p, None), c2)" "holds c2 rest"
    by auto
  from c1 c2 show ?thesis
    by (simp add: readFrame_def of_be16_be16 [OF assms(2)] Let_def)
qed

end

context byte_sink
begin

lemma writeFrame_ok:
  "writeFrame wr p c = (None, c') \<Longrightarrow>
     length p \<le> 0xFFFF \<and> written c' = written c @ frame p"
  by (auto simp: writeFrame_def frame_def split: if_splits prod.splits dest: write_ok)

end

end
