(* ===== verification/Peer_Timer.thy ===== *)
theory Peer_Timer
  imports Prelude
begin

text \<open>
  The deadline timer of a connection (\<open>atomicTimer\<close> in \<open>internal/peer/conn.go\<close>). A
  channel that the timer creates is a number; \<open>chan_closed\<close> says which ones are closed.
  \<open>armed\<close> holds the channels whose \<open>time.AfterFunc\<close> has not run yet: a call of \<open>Stop\<close>
  may come too late, so the outcome of the race is an input (\<open>stopped\<close>) and a stopped
  timer's function may still run. A second close of a channel would panic; \<open>double_close\<close>
  records it.
\<close>

record atomicTimer =
  timer :: "nat option"
  fired :: "nat option"
  next_chan :: nat
  chan_closed :: "nat \<Rightarrow> bool"
  armed :: "nat \<Rightarrow> bool"
  double_close :: bool

definition new_atomicTimer :: atomicTimer where
  "new_atomicTimer = \<lparr>timer = None, fired = None, next_chan = 0, chan_closed = (\<lambda>_. False),
     armed = (\<lambda>_. False), double_close = False\<rparr>"

definition close_chan :: "nat \<Rightarrow> atomicTimer \<Rightarrow> atomicTimer" where
  "close_chan ch a =
     (if chan_closed a ch then a\<lparr>double_close := True\<rparr>
      else a\<lparr>chan_closed := (chan_closed a)(ch := True)\<rparr>)"

text \<open>
  \<open>set\<close>: the zero time is \<open>None\<close>; \<open>now\<close> is the clock that \<open>time.Until\<close> reads.
\<close>

definition timer_set :: "bool \<Rightarrow> int \<Rightarrow> int option \<Rightarrow> atomicTimer \<Rightarrow> atomicTimer" where
  "timer_set stopped now t a =
     (let a1 = (case timer a of None \<Rightarrow> a
                | Some ch \<Rightarrow> a\<lparr>timer := None,
                    armed := (if stopped then (armed a)(ch := False) else armed a)\<rparr>);
          a2 = a1\<lparr>fired := None\<rparr>
      in case t of None \<Rightarrow> a2
         | Some u \<Rightarrow>
             (let ch = next_chan a2;
                  a3 = a2\<lparr>next_chan := Suc ch, fired := Some ch\<rparr>;
                  d = u - now
              in if d \<le> 0 then close_chan ch a3
                 else a3\<lparr>timer := Some ch, armed := (armed a3)(ch := True)\<rparr>))"

definition timer_channel :: "atomicTimer \<Rightarrow> nat option" where
  "timer_channel a = fired a"

text \<open>The function of \<open>time.AfterFunc\<close> for channel \<open>ch\<close>, when the runtime runs it.\<close>

definition timer_expire :: "nat \<Rightarrow> atomicTimer \<Rightarrow> atomicTimer" where
  "timer_expire ch a = (if armed a ch then close_chan ch (a\<lparr>armed := (armed a)(ch := False)\<rparr>) else a)"

text \<open>Receiving from a channel succeeds when it is closed; a nil channel never does.\<close>

definition chan_ready :: "nat option \<Rightarrow> atomicTimer \<Rightarrow> bool" where
  "chan_ready c a = (case c of None \<Rightarrow> False | Some ch \<Rightarrow> chan_closed a ch)"

subsection \<open>Invariant\<close>

text \<open>
  A channel waiting for its timer function is open and was created earlier; the current
  timer belongs to the current channel.
\<close>

definition timer_inv :: "atomicTimer \<Rightarrow> bool" where
  "timer_inv a \<longleftrightarrow> \<not> double_close a
     \<and> (\<forall>ch. armed a ch \<longrightarrow> \<not> chan_closed a ch \<and> ch < next_chan a)
     \<and> (\<forall>ch. chan_closed a ch \<longrightarrow> ch < next_chan a)
     \<and> (\<forall>ch. timer a = Some ch \<longrightarrow> fired a = Some ch)
     \<and> (\<forall>ch. fired a = Some ch \<longrightarrow> ch < next_chan a)"

lemma timer_inv_new: "timer_inv new_atomicTimer"
  by (simp add: timer_inv_def new_atomicTimer_def)

lemma timer_inv_set [inv_intros]: "timer_inv a \<Longrightarrow> timer_inv (timer_set stopped now t a)"
  by (cases "timer a"; cases t)
     (auto simp: timer_inv_def timer_set_def close_chan_def Let_def less_Suc_eq)

lemma timer_inv_expire [inv_intros]: "timer_inv a \<Longrightarrow> timer_inv (timer_expire ch a)"
  by (auto simp: timer_inv_def timer_expire_def close_chan_def)

subsection \<open>Runs\<close>

datatype timer_event = TSet bool int "int option" | TExpire nat

fun timer_step :: "timer_event \<Rightarrow> atomicTimer \<Rightarrow> atomicTimer" where
  "timer_step (TSet stopped now t) a = timer_set stopped now t a"
| "timer_step (TExpire ch) a = timer_expire ch a"

lemma timer_inv_step: "timer_inv a \<Longrightarrow> timer_inv (timer_step e a)"
  by (cases e) (auto intro: inv_intros)

lemma timer_inv_run: "timer_inv a \<Longrightarrow> timer_inv (fold timer_step es a)"
  by (induction es arbitrary: a) (auto intro: timer_inv_step)

lemma expire_frame:
  "timer (timer_expire ch a) = timer a" "fired (timer_expire ch a) = fired a"
  "next_chan (timer_expire ch a) = next_chan a"
  by (auto simp: timer_expire_def close_chan_def)

lemma expires_frame:
  "fired (fold timer_expire chs a) = fired a"
  by (induction chs arbitrary: a) (auto simp: expire_frame)

lemma expires_closed:
  "timer_inv a \<Longrightarrow> ch \<notin> set chs \<Longrightarrow> chan_closed (fold timer_expire chs a) ch = chan_closed a ch"
proof (induction chs arbitrary: a)
  case Nil
  then show ?case by simp
next
  case (Cons c chs)
  then have "chan_closed (timer_expire c a) ch = chan_closed a ch"
    by (auto simp: timer_expire_def close_chan_def)
  with Cons show ?case by (simp add: timer_inv_expire)
qed

text \<open>
  No timer function ever closes a channel twice, so no sequence of
  \<open>SetDeadline\<close> calls and timer expiries, including stops that come too late, panics.
\<close>
theorem timer_never_double_closes: "\<not> double_close (fold timer_step es new_atomicTimer)"
  using timer_inv_run [OF timer_inv_new, of es] by (simp add: timer_inv_def)

text \<open>
  After any history, setting the zero time disables the deadline and setting a
  time in the future leaves it unexpired, and expiries of timers that were set before (whose
  \<open>Stop\<close> came too late) do not change that: only the new timer's own function can.
\<close>
theorem timer_set_supersedes:
  assumes "a = fold timer_step es new_atomicTimer"
    and "case t of None \<Rightarrow> True | Some u \<Rightarrow> now < u"
    and "set chs \<subseteq> {..<next_chan a}"
  shows "\<not> chan_ready (timer_channel (fold timer_expire chs (timer_set stopped now t a)))
    (fold timer_expire chs (timer_set stopped now t a))"
proof (cases t)
  case None
  then have "fired (timer_set stopped now t a) = None"
    by (simp add: timer_set_def Let_def)
  then show ?thesis by (simp add: timer_channel_def chan_ready_def expires_frame)
next
  case (Some u)
  let ?a = "timer_set stopped now t a"
  have inv: "timer_inv a" using assms(1) timer_inv_run [OF timer_inv_new] by simp
  have f: "fired ?a = Some (next_chan a)" and c: "chan_closed ?a (next_chan a) = chan_closed a (next_chan a)"
    using assms(2) Some by (auto simp: timer_set_def Let_def split: option.splits)
  have "next_chan a \<notin> set chs" using assms(3) by auto
  then have "chan_closed (fold timer_expire chs ?a) (next_chan a) = chan_closed a (next_chan a)"
    using expires_closed [OF timer_inv_set [OF inv]] c by simp
  moreover have "\<not> chan_closed a (next_chan a)" using inv by (auto simp: timer_inv_def)
  ultimately show ?thesis by (simp add: timer_channel_def chan_ready_def expires_frame f)
qed

theorem timer_set_supersedes_witness:
  "\<not> chan_ready (timer_channel (fold timer_expire [0] (timer_set False 5 (Some 9)
        (fold timer_step [TSet True 0 (Some 3)] new_atomicTimer))))
     (fold timer_expire [0] (timer_set False 5 (Some 9)
        (fold timer_step [TSet True 0 (Some 3)] new_atomicTimer)))"
  by (rule timer_set_supersedes [OF refl])
     (simp_all add: timer_set_def new_atomicTimer_def Let_def)

text \<open>A time that is not in the future expires the deadline at once.\<close>

lemma timer_set_past: "timer_inv a \<Longrightarrow> u \<le> now \<Longrightarrow>
    chan_ready (timer_channel (timer_set stopped now (Some u) a)) (timer_set stopped now (Some u) a)"
  by (auto simp: timer_set_def close_chan_def chan_ready_def timer_channel_def timer_inv_def Let_def
      split: option.splits)

end
