(* ===== verification/Peer_Conn.thy ===== *)
theory Peer_Conn
  imports Go_Conn Peer_Timer
begin

text \<open>
  \<open>internal/peer/conn.go\<close>: a byte-stream connection over a WebRTC DataChannel. The state
  holds the channel of incoming frames, the tail of a frame that did not fit the reader's
  buffer, the cancelled context, the two deadlines and, for the DataChannel, the messages
  that \<open>Send\<close> accepted and how often it was closed. A Go \<open>select\<close> takes any case that is
  ready: the ready cases are listed and the number \<open>pick\<close> chooses one; with none ready the
  call blocks and has no result.
\<close>

definition maxMsgSize :: nat where "maxMsgSize = 16 * 1024"
definition lowWaterMark :: nat where "lowWaterMark = 256 * 1024"
definition highWaterMark :: nat where "highWaterMark = 1 * 1024 * 1024"
definition inCap :: nat where "inCap = 1024"

record pconn =
  inq :: "bytes list"
  in_closed :: bool
  leftover :: bytes
  bufLow :: bool
  ctx_done :: bool
  readDeadline :: atomicTimer
  writeDeadline :: atomicTimer
  close_once :: bool
  closeErr :: "error option"
  low_threshold :: nat
  dc_out :: "bytes list"
  dc_closes :: nat

definition NewConn :: pconn where
  "NewConn = \<lparr>inq = [], in_closed = False, leftover = [], bufLow = False, ctx_done = False,
     readDeadline = new_atomicTimer, writeDeadline = new_atomicTimer,
     close_once = False, closeErr = None, low_threshold = lowWaterMark, dc_out = [], dc_closes = 0\<rparr>"

definition select :: "nat \<Rightarrow> 'a list \<Rightarrow> 'a option" where
  "select pick cs = (if cs = [] then None else Some (cs ! (pick mod length cs)))"

lemma select_in: "select pick cs = Some x \<Longrightarrow> x \<in> set cs"
  by (auto simp: select_def split: if_splits)

lemma select_single [simp]: "select pick [x] = Some x"
  by (simp add: select_def)

lemma select_empty [simp]: "select pick [] = None"
  by (simp add: select_def)

subsection \<open>Callbacks of the DataChannel\<close>

text \<open>\<open>OnBufferedAmountLow\<close>: a non-blocking send on a channel of capacity one.\<close>

definition OnBufferedAmountLow :: "pconn \<Rightarrow> pconn" where
  "OnBufferedAmountLow c = (if bufLow c then c else c\<lparr>bufLow := True\<rparr>)"

text \<open>\<open>OnMessage\<close>: the send into the frame channel competes with the cancelled context.\<close>

datatype msg_case = Enqueue | CtxDone

definition OnMessage :: "nat \<Rightarrow> bytes \<Rightarrow> pconn \<Rightarrow> pconn option" where
  "OnMessage pick buf c =
     (case select pick ((if length (inq c) < inCap then [Enqueue] else []) @
                        (if ctx_done c then [CtxDone] else [])) of
        None \<Rightarrow> None
      | Some Enqueue \<Rightarrow> Some (c\<lparr>inq := inq c @ [buf]\<rparr>)
      | Some CtxDone \<Rightarrow> Some c)"

text \<open>\<open>Close\<close>; \<open>res\<close> is what the DataChannel's own close returns. \<open>OnClose\<close> and \<open>OnError\<close> call it.\<close>

definition peer_Close :: "error option \<Rightarrow> pconn \<Rightarrow> error option \<times> pconn" where
  "peer_Close res c =
     (let c' = (if close_once c then c
                else c\<lparr>close_once := True, ctx_done := True, closeErr := res,
                       dc_closes := Suc (dc_closes c)\<rparr>)
      in (closeErr c', c'))"

subsection \<open>Read\<close>

datatype read_case = RCtx | RDeadline | RFrame

definition read_ready :: "nat option \<Rightarrow> pconn \<Rightarrow> read_case list" where
  "read_ready dl c =
     (if ctx_done c then [RCtx] else []) @
     (if chan_ready dl (readDeadline c) then [RDeadline] else []) @
     (if inq c \<noteq> [] \<or> in_closed c then [RFrame] else [])"

text \<open>
  The blocking \<open>select\<close> of \<open>Read\<close>, on the deadline channel \<open>dl\<close> that \<open>Read\<close> fetched when
  it was called.
\<close>

definition read_select :: "nat \<Rightarrow> nat option \<Rightarrow> nat \<Rightarrow> pconn \<Rightarrow> ((bytes \<times> error option) \<times> pconn) option" where
  "read_select pick dl n c =
     (case select pick (read_ready dl c) of
        None \<Rightarrow> None
      | Some RCtx \<Rightarrow> Some (([], Some io_EOF), c)
      | Some RDeadline \<Rightarrow> Some (([], Some os_ErrDeadlineExceeded), c)
      | Some RFrame \<Rightarrow>
          (case inq c of
             [] \<Rightarrow> Some (([], Some io_EOF), c)
           | frame # rest \<Rightarrow>
               let c1 = c\<lparr>inq := rest\<rparr>
               in Some ((take n frame, None),
                    (if n < length frame then c1\<lparr>leftover := drop n frame\<rparr> else c1))))"

definition peer_Read :: "nat \<Rightarrow> pconn reader" where
  "peer_Read pick n c =
     (if leftover c \<noteq> []
      then Some ((take n (leftover c), None), c\<lparr>leftover := drop n (leftover c)\<rparr>)
      else read_select pick (timer_channel (readDeadline c)) n c)"

subsection \<open>Write\<close>

text \<open>
  What other goroutines and the DataChannel do around one round of the loop: cancel the
  context or act on the write deadline before the checks, decide the result of \<open>Send\<close>,
  cancel the context before its error is looked at.
\<close>

record wenv =
  we_cancel :: bool
  we_timer :: "atomicTimer \<Rightarrow> atomicTimer"
  we_pick :: nat
  we_send :: "error option"
  we_cancel2 :: bool

definition disturb :: "wenv \<Rightarrow> pconn \<Rightarrow> pconn" where
  "disturb e c = c\<lparr>ctx_done := ctx_done c \<or> we_cancel e,
     writeDeadline := we_timer e (writeDeadline c)\<rparr>"

definition write_ready :: "pconn \<Rightarrow> error list" where
  "write_ready c =
     (if ctx_done c then [io_ErrClosedPipe] else []) @
     (if chan_ready (timer_channel (writeDeadline c)) (writeDeadline c)
      then [os_ErrDeadlineExceeded] else [])"

definition peer_write_body :: "(nat \<Rightarrow> wenv) \<Rightarrow> nat \<Rightarrow> bytes \<Rightarrow> pconn \<Rightarrow> error option \<times> pconn" where
  "peer_write_body env i chunk c =
     (let e = env i;
          c0 = disturb e c
      in case select (we_pick e) (write_ready c0) of
           Some err \<Rightarrow> (Some err, c0)
         | None \<Rightarrow>
             (case we_send e of
                None \<Rightarrow> (None, c0\<lparr>dc_out := dc_out c0 @ [chunk]\<rparr>)
              | Some err \<Rightarrow>
                  let c1 = c0\<lparr>ctx_done := ctx_done c0 \<or> we_cancel2 e\<rparr>
                  in (Some (if err_is err io_ErrClosedPipe \<or> ctx_done c1
                            then io_ErrClosedPipe else err), c1)))"

definition peer_Write :: "(nat \<Rightarrow> wenv) \<Rightarrow> pconn writer" where
  "peer_Write env p c = chunk_loop maxMsgSize (peer_write_body env) 0 p 0 c"

text \<open>The deadline setters; \<open>st1\<close> and \<open>st2\<close> are the outcomes of the races with \<open>Stop\<close>.\<close>

definition peer_SetReadDeadline :: "bool \<Rightarrow> int \<Rightarrow> int option \<Rightarrow> pconn \<Rightarrow> pconn" where
  "peer_SetReadDeadline st1 now t c = c\<lparr>readDeadline := timer_set st1 now t (readDeadline c)\<rparr>"

definition peer_SetWriteDeadline :: "bool \<Rightarrow> int \<Rightarrow> int option \<Rightarrow> pconn \<Rightarrow> pconn" where
  "peer_SetWriteDeadline st2 now t c = c\<lparr>writeDeadline := timer_set st2 now t (writeDeadline c)\<rparr>"

definition peer_SetDeadline :: "bool \<Rightarrow> bool \<Rightarrow> int \<Rightarrow> int option \<Rightarrow> pconn \<Rightarrow> pconn" where
  "peer_SetDeadline st1 st2 now t c =
     peer_SetWriteDeadline st2 now t (peer_SetReadDeadline st1 now t c)"

text \<open>The synthetic addresses, which only go to logs.\<close>

definition fakeAddr_Network :: string where "fakeAddr_Network = ''webrtc''"
definition peer_LocalAddr :: "string \<Rightarrow> string" where "peer_LocalAddr label = ''local:'' @ label"
definition peer_RemoteAddr :: "string \<Rightarrow> string" where "peer_RemoteAddr label = ''remote:'' @ label"

subsection \<open>What Write sends\<close>

lemma disturb_out [simp]: "dc_out (disturb e c) = dc_out c"
  by (simp add: disturb_def)

lemma write_body_out:
  "peer_write_body env i chunk c = (r, c') \<Longrightarrow>
     dc_out c' = dc_out c @ (case r of None \<Rightarrow> [chunk] | Some _ \<Rightarrow> [])"
  by (auto simp: peer_write_body_def Let_def split: option.splits)

lemma run_write_out:
  "run_chunks (peer_write_body env) i cs t c = ((n, err), c') \<Longrightarrow>
     \<exists>k \<le> length cs. dc_out c' = dc_out c @ take k cs \<and> n = t + length (concat (take k cs))
       \<and> (err = None \<longleftrightarrow> k = length cs)"
proof (induction cs arbitrary: i t c)
  case Nil
  then show ?case by simp
next
  case (Cons chunk cs)
  obtain r c1 where b: "peer_write_body env i chunk c = (r, c1)" by fastforce
  show ?case
  proof (cases r)
    case None
    with Cons.prems b have "run_chunks (peer_write_body env) (Suc i) cs (t + length chunk) c1
        = ((n, err), c')" by simp
    from Cons.IH [OF this] write_body_out [OF b] None obtain k where
      "k \<le> length cs" "dc_out c' = dc_out c @ chunk # take k cs"
      "n = t + length chunk + length (concat (take k cs))" "err = None \<longleftrightarrow> k = length cs"
      by auto
    then show ?thesis by (intro exI [of _ "Suc k"]) simp
  next
    case (Some e)
    with Cons.prems b write_body_out [OF b] show ?thesis by (intro exI [of _ 0]) auto
  qed
qed

lemma maxMsgSize_pos: "0 < maxMsgSize"
  by (simp add: maxMsgSize_def)

lemma concat_take_chunks:
  assumes "0 < m" and "k \<le> length (chunks m p)"
  shows "concat (take k (chunks m p)) = take (length (concat (take k (chunks m p)))) p"
proof -
  have "concat (take k (chunks m p)) @ concat (drop k (chunks m p)) = p"
    using assms(1) by (metis append_take_drop_id concat_append concat_chunks)
  then show ?thesis by (metis append_eq_conv_conj)
qed

lemma concat_pos: "[] \<notin> set xs \<Longrightarrow> xs \<noteq> [] \<Longrightarrow> concat xs \<noteq> []"
  by (cases xs) auto

lemma peer_Write_out:
  assumes "peer_Write env p c = ((n, err), c')"
  shows "\<exists>msgs. dc_out c' = dc_out c @ msgs \<and> concat msgs = take n p \<and> n \<le> length p
     \<and> (\<forall>m \<in> set msgs. 0 < length m \<and> length m \<le> maxMsgSize) \<and> (err = None \<longleftrightarrow> n = length p)"
proof -
  let ?cs = "chunks maxMsgSize p"
  have "run_chunks (peer_write_body env) 0 ?cs 0 c = ((n, err), c')"
    using assms by (simp add: peer_Write_def chunk_loop_run [OF maxMsgSize_pos])
  from run_write_out [OF this] obtain k where k: "k \<le> length ?cs" "dc_out c' = dc_out c @ take k ?cs"
    "n = length (concat (take k ?cs))" "err = None \<longleftrightarrow> k = length ?cs" by auto
  have whole: "length (concat (take k ?cs)) + length (concat (drop k ?cs)) = length p"
    by (metis append_take_drop_id concat_append concat_chunks length_append maxMsgSize_pos)
  have "[] \<notin> set ?cs" using chunks_bound by fastforce
  then have "[] \<notin> set (drop k ?cs)" by (meson in_set_dropD)
  then have "k = length ?cs \<longleftrightarrow> length (concat (drop k ?cs)) = 0"
    using k(1) concat_pos [of "drop k ?cs"] by auto
  with whole k(3,4) have "err = None \<longleftrightarrow> n = length p" by linarith
  moreover have "\<forall>m \<in> set (take k ?cs). 0 < length m \<and> length m \<le> maxMsgSize"
    using chunks_bound by (metis in_set_takeD)
  ultimately show ?thesis
    using k concat_take_chunks [OF maxMsgSize_pos k(1)] whole by auto
qed

interpretation peer_sink: byte_sink "peer_Write env" "\<lambda>c. concat (dc_out c)" for env
  by unfold_locales (use peer_Write_out in fastforce)

text \<open>
  \<open>Write\<close> on a DataChannel connection, whatever the other goroutines and the
  channel do in between. The count it returns is exactly the number of bytes that were
  handed to \<open>Send\<close>, in order and without gaps; every message is non-empty and at most 16
  KiB; and it returns no error exactly when the whole slice was sent.
\<close>
theorem peer_Write_sends_prefix:
  assumes "peer_Write env p c = ((n, err), c')"
  shows "\<exists>msgs. dc_out c' = dc_out c @ msgs \<and> concat msgs = take n p \<and> n \<le> length p
     \<and> (\<forall>m \<in> set msgs. 0 < length m \<and> length m \<le> maxMsgSize) \<and> (err = None \<longleftrightarrow> n = length p)"
  by (rule peer_Write_out [OF assms])

subsection \<open>Reading what was delivered\<close>

text \<open>
  A live connection that still has the bytes \<open>p\<close> to hand out: nobody has closed it, no
  read deadline has passed and no empty message is queued.
\<close>

definition peer_holds :: "pconn \<Rightarrow> bytes \<Rightarrow> bool" where
  "peer_holds c p \<longleftrightarrow> \<not> ctx_done c \<and> \<not> in_closed c
     \<and> \<not> chan_ready (timer_channel (readDeadline c)) (readDeadline c)
     \<and> [] \<notin> set (inq c) \<and> leftover c @ concat (inq c) = p"

lemma peer_read_prefix:
  assumes "peer_holds c p" and "p \<noteq> []" and "0 < n"
  shows "\<exists>k c'. peer_Read pick n c = Some ((take k p, None), c') \<and> 0 < k \<and> k \<le> n
    \<and> k \<le> length p \<and> peer_holds c' (drop k p)"
proof (cases "leftover c = []")
  case False
  let ?k = "min n (length (leftover c))"
  have "peer_Read pick n c = Some ((take ?k p, None), c\<lparr>leftover := drop n (leftover c)\<rparr>)"
    using assms(1) False by (auto simp: peer_Read_def peer_holds_def min_def)
  moreover have "peer_holds (c\<lparr>leftover := drop n (leftover c)\<rparr>) (drop ?k p)"
    using assms(1) by (auto simp: peer_holds_def min_def)
  moreover have "0 < ?k \<and> ?k \<le> length p"
    using assms False by (auto simp: peer_holds_def)
  ultimately show ?thesis by (metis min.cobounded1)
next
  case True
  with assms(1,2) obtain f rest where q: "inq c = f # rest" and f: "f \<noteq> []"
    by (cases "inq c") (auto simp: peer_holds_def)
  let ?k = "min n (length f)"
  let ?c = "if n < length f then c\<lparr>inq := rest, leftover := drop n f\<rparr> else c\<lparr>inq := rest\<rparr>"
  have p: "p = f @ concat rest" using assms(1) True q by (simp add: peer_holds_def)
  have "read_ready (timer_channel (readDeadline c)) c = [RFrame]"
    using assms(1) q by (simp add: read_ready_def peer_holds_def)
  then have "peer_Read pick n c = Some ((take ?k p, None), ?c)"
    using True q p by (auto simp: peer_Read_def read_select_def min_def Let_def)
  moreover have "peer_holds ?c (drop ?k p)"
    using assms(1) True q p by (auto simp: peer_holds_def min_def)
  moreover have "0 < ?k \<and> ?k \<le> length p" using f assms(3) p by auto
  ultimately show ?thesis by (metis min.cobounded1)
qed

interpretation peer_src: byte_source "peer_Read pick" peer_holds for pick
  by unfold_locales (rule peer_read_prefix)

lemma OnMessage_holds:
  assumes "peer_holds c p" and "length (inq c) < inCap" and "m \<noteq> []"
  shows "\<exists>c'. OnMessage pick m c = Some c' \<and> inq c' = inq c @ [m] \<and> peer_holds c' (p @ m)"
  using assms by (auto simp: OnMessage_def peer_holds_def)

text \<open>All the messages of a peer, delivered one after the other.\<close>

fun deliver :: "nat \<Rightarrow> bytes list \<Rightarrow> pconn \<Rightarrow> pconn option" where
  "deliver pick [] c = Some c"
| "deliver pick (m # ms) c =
     (case OnMessage pick m c of None \<Rightarrow> None | Some c' \<Rightarrow> deliver pick ms c')"

lemma deliver_holds:
  "peer_holds c p \<Longrightarrow> [] \<notin> set ms \<Longrightarrow> length (inq c) + length ms \<le> inCap \<Longrightarrow>
     \<exists>c'. deliver pick ms c = Some c' \<and> peer_holds c' (p @ concat ms)"
proof (induction ms arbitrary: c p)
  case Nil
  then show ?case by simp
next
  case (Cons m ms)
  then obtain c' where c': "OnMessage pick m c = Some c'" "inq c' = inq c @ [m]" "peer_holds c' (p @ m)"
    using OnMessage_holds [of c p m pick] by auto
  with Cons.IH [OF c'(3)] Cons.prems show ?case by auto
qed

lemma peer_holds_NewConn: "peer_holds NewConn []"
  by (simp add: peer_holds_def NewConn_def timer_channel_def chan_ready_def new_atomicTimer_def)

text \<open>
  The byte stream survives the DataChannel. What one side's \<open>Write\<close> sent
  without an error, delivered to a fresh connection in the channel's order (up to the
  capacity of its queue), is read back by \<open>io.ReadFull\<close> byte for byte, however the reads
  cut it.
\<close>
theorem peer_write_read_roundtrip:
  assumes "peer_Write env p a = ((n, None), a')" and "dc_out a = []"
    and "length (dc_out a') \<le> inCap"
  shows "\<exists>b b'. deliver pick (dc_out a') NewConn = Some b
    \<and> ReadFull (peer_Read pick2) (length p) b = Some ((p, None), b')"
proof -
  from peer_Write_out [OF assms(1)] assms(2) have out: "concat (dc_out a') = p" "[] \<notin> set (dc_out a')"
    by auto
  have "length (inq NewConn) + length (dc_out a') \<le> inCap"
    using assms(3) by (simp add: NewConn_def)
  from deliver_holds [OF peer_holds_NewConn out(2) this] out(1)
  obtain b where b: "deliver pick (dc_out a') NewConn = Some b" "peer_holds b p" by auto
  from peer_src.ReadFull_delivers [OF b(2), of "length p"] b(1) show ?thesis by auto
qed

definition calm :: wenv where
  "calm = \<lparr>we_cancel = False, we_timer = (\<lambda>a. a), we_pick = 0, we_send = None, we_cancel2 = False\<rparr>"

theorem peer_write_read_roundtrip_witness:
  "\<exists>a' b b'. peer_Write (\<lambda>_. calm) [7, 8] NewConn = ((2, None), a')
     \<and> deliver 0 (dc_out a') NewConn = Some b
     \<and> ReadFull (peer_Read 0) (length [7 :: byte, 8]) b = Some (([7, 8], None), b')"
proof -
  have w: "peer_Write (\<lambda>_. calm) [7, 8] NewConn = ((2, None), NewConn\<lparr>dc_out := [[7, 8]]\<rparr>)"
    by (simp add: peer_Write_def chunk_loop.simps peer_write_body_def disturb_def calm_def
        write_ready_def NewConn_def timer_channel_def chan_ready_def new_atomicTimer_def
        maxMsgSize_def Let_def)
  have d: "dc_out NewConn = []" and l: "length (dc_out (NewConn\<lparr>dc_out := [[7, 8]]\<rparr>)) \<le> inCap"
    by (simp_all add: NewConn_def inCap_def)
  show ?thesis using w peer_write_read_roundtrip [OF w d l, of 0 0] by blast
qed

theorem peer_Write_sends_prefix_witness:
  "\<exists>msgs. dc_out (NewConn\<lparr>dc_out := [[7, 8]]\<rparr>) = dc_out NewConn @ msgs
     \<and> concat msgs = take 2 [7, 8] \<and> (2 :: nat) \<le> length [7 :: byte, 8]"
proof -
  have w: "peer_Write (\<lambda>_. calm) [7, 8] NewConn = ((2, None), NewConn\<lparr>dc_out := [[7, 8]]\<rparr>)"
    by (simp add: peer_Write_def chunk_loop.simps peer_write_body_def disturb_def calm_def
        write_ready_def NewConn_def timer_channel_def chan_ready_def new_atomicTimer_def
        maxMsgSize_def Let_def)
  show ?thesis using peer_Write_sends_prefix [OF w] by blast
qed

subsection \<open>Runs of a connection\<close>

text \<open>
  Everything that can happen to the receiving side, in any order: messages, reads with any
  buffer size, closing, deadlines set and expiring. The run records the messages that were
  queued and the bytes that reads returned. An operation that blocks leaves the state.
\<close>

datatype conn_op =
    OpMsg nat bytes
  | OpRead nat nat
  | OpClose "error option"
  | OpReadDeadline bool int "int option"
  | OpExpire nat
  | OpDrained

fun conn_step :: "conn_op \<Rightarrow> bytes list \<times> bytes \<times> pconn \<Rightarrow> bytes list \<times> bytes \<times> pconn" where
  "conn_step (OpMsg pick m) (ms, out, c) =
     (case OnMessage pick m c of None \<Rightarrow> (ms, out, c)
      | Some c' \<Rightarrow> ((if inq c' = inq c then ms else ms @ [m]), out, c'))"
| "conn_step (OpRead pick n) (ms, out, c) =
     (case peer_Read pick n c of None \<Rightarrow> (ms, out, c)
      | Some ((bs, err), c') \<Rightarrow> (ms, out @ bs, c'))"
| "conn_step (OpClose res) (ms, out, c) = (ms, out, snd (peer_Close res c))"
| "conn_step (OpReadDeadline st now t) (ms, out, c) = (ms, out, peer_SetReadDeadline st now t c)"
| "conn_step (OpExpire ch) (ms, out, c) =
     (ms, out, c\<lparr>readDeadline := timer_expire ch (readDeadline c)\<rparr>)"
| "conn_step OpDrained (ms, out, c) = (ms, out, OnBufferedAmountLow c)"

definition stream_inv :: "bytes list \<times> bytes \<times> pconn \<Rightarrow> bool" where
  "stream_inv s = (case s of (ms, out, c) \<Rightarrow> out @ leftover c @ concat (inq c) = concat ms)"

lemma OnMessage_cases:
  "OnMessage pick m c = Some c' \<Longrightarrow> c' = c \<or> c' = c\<lparr>inq := inq c @ [m]\<rparr>"
  by (auto simp: OnMessage_def split: option.splits msg_case.splits)

lemma peer_Read_stream:
  assumes "peer_Read pick n c = Some ((bs, err), c')"
  shows "bs @ leftover c' @ concat (inq c') = leftover c @ concat (inq c)"
proof (cases "leftover c = []")
  case False
  with assms have "bs = take n (leftover c)" "c' = c\<lparr>leftover := drop n (leftover c)\<rparr>"
    by (auto simp: peer_Read_def)
  then show ?thesis by simp
next
  case True
  with assms show ?thesis
    by (auto simp: peer_Read_def read_select_def Let_def
        split: option.splits read_case.splits list.splits if_splits)
qed

lemma stream_inv_step: "stream_inv s \<Longrightarrow> stream_inv (conn_step op s)"
proof (induction op s rule: conn_step.induct)
  case (1 pick m ms out c)
  then show ?case
    by (auto simp: stream_inv_def split: option.splits dest: OnMessage_cases)
next
  case (2 pick n ms out c)
  then show ?case
    by (auto simp: stream_inv_def split: option.splits dest: peer_Read_stream)
qed (auto simp: stream_inv_def peer_Close_def peer_SetReadDeadline_def OnBufferedAmountLow_def Let_def)

lemma stream_inv_run: "stream_inv s \<Longrightarrow> stream_inv (fold conn_step ops s)"
proof (induction ops arbitrary: s)
  case Nil
  then show ?case by simp
next
  case (Cons op ops)
  from Cons.IH [OF stream_inv_step [OF Cons.prems]] show ?case by simp
qed

text \<open>
  Property C31: integrity of the incoming stream. Along every run, the bytes that reads have
  returned, followed by the kept tail and the queued frames, are exactly the messages that
  were queued: nothing is lost, duplicated or reordered by partial reads, timeouts or a
  close.
\<close>
theorem peer_stream_integrity:
  assumes "fold conn_step ops ([], [], NewConn) = (ms, out, c)"
  shows "out @ leftover c @ concat (inq c) = concat ms"
proof -
  have "stream_inv (fold conn_step ops ([], [], NewConn))"
    by (rule stream_inv_run) (simp add: stream_inv_def NewConn_def)
  with assms show ?thesis by (simp add: stream_inv_def)
qed

theorem peer_stream_integrity_witness:
  "\<exists>ms out c. fold conn_step [OpMsg 0 [1, 2, 3], OpRead 0 2, OpMsg 0 [4], OpRead 0 9]
       ([], [], NewConn) = (ms, out, c)
     \<and> out = [1, 2, 3] \<and> ms = [[1, 2, 3], [4]] \<and> out @ leftover c @ concat (inq c) = concat ms"
proof -
  let ?r = "fold conn_step [OpMsg 0 [1, 2, 3], OpRead 0 2, OpMsg 0 [4], OpRead 0 9] ([], [], NewConn)"
  obtain ms out c where r: "?r = (ms, out, c)" by (metis prod.exhaust)
  have "ms = [[1, 2, 3], [4]] \<and> out = [1, 2, 3]"
    using r by (auto simp: OnMessage_def peer_Read_def read_select_def read_ready_def NewConn_def
        inCap_def chan_ready_def timer_channel_def new_atomicTimer_def Let_def)
  with r peer_stream_integrity [OF r] show ?thesis by blast
qed

subsection \<open>Close and deadlines\<close>

text \<open>
  \<open>Close\<close> is idempotent and unblocks the other side of the connection: the
  DataChannel is closed once, every later \<open>Close\<close> returns the first result, a \<open>Read\<close> that
  has no kept tail returns instead of blocking, and a \<open>Write\<close> sends nothing and fails.
\<close>
theorem peer_Close_final:
  assumes "peer_Close res c = (r, c')"
  shows "peer_Close res2 c' = (r, c')
    \<and> (\<not> close_once c \<longrightarrow> dc_closes c' = Suc (dc_closes c) \<and> ctx_done c')
    \<and> (ctx_done c' \<longrightarrow> peer_Read pick n c' \<noteq> None)
    \<and> (ctx_done c' \<and> p \<noteq> [] \<longrightarrow> (\<exists>e c''. peer_Write env p c' = ((0, Some e), c'')
          \<and> e \<in> {io_ErrClosedPipe, os_ErrDeadlineExceeded} \<and> dc_out c'' = dc_out c'))"
proof (intro conjI impI)
  show "peer_Close res2 c' = (r, c')"
    using assms by (auto simp: peer_Close_def Let_def split: if_splits)
  assume "\<not> close_once c"
  with assms show "dc_closes c' = Suc (dc_closes c)" "ctx_done c'"
    by (auto simp: peer_Close_def Let_def)
next
  assume "ctx_done c'"
  then have "select pick (read_ready (timer_channel (readDeadline c')) c') \<noteq> None"
    by (simp add: select_def read_ready_def)
  then show "peer_Read pick n c' \<noteq> None"
    by (auto simp: peer_Read_def read_select_def Let_def
        split: option.splits read_case.splits list.splits)
next
  assume a: "ctx_done c' \<and> p \<noteq> []"
  let ?c0 = "disturb (env 0) c'"
  have "write_ready ?c0 \<noteq> []" using a by (simp add: write_ready_def disturb_def)
  then obtain e where e: "select (we_pick (env 0)) (write_ready ?c0) = Some e"
    by (auto simp: select_def)
  then have m: "e \<in> set (write_ready ?c0)" by (rule select_in)
  have "peer_Write env p c' = ((0, Some e), ?c0)"
    using a e by (simp add: peer_Write_def chunk_loop.simps [of maxMsgSize] peer_write_body_def
        maxMsgSize_pos Let_def)
  moreover have "e \<in> {io_ErrClosedPipe, os_ErrDeadlineExceeded}"
    using m by (auto simp: write_ready_def split: if_splits)
  ultimately show "\<exists>e c''. peer_Write env p c' = ((0, Some e), c'')
      \<and> e \<in> {io_ErrClosedPipe, os_ErrDeadlineExceeded} \<and> dc_out c'' = dc_out c'"
    by auto
qed

theorem peer_Close_final_witness:
  "peer_Close (Some io_EOF) (snd (peer_Close None NewConn)) = (None, snd (peer_Close None NewConn))"
  using peer_Close_final [of None NewConn None "snd (peer_Close None NewConn)" "Some io_EOF"]
  by (simp add: peer_Close_def NewConn_def)

text \<open>
  A deadline does not reach a read that is already blocked. \<open>Read\<close> fetches the
  deadline channel once, before it blocks; when it blocks with no deadline set, a
  \<open>SetReadDeadline\<close> in the past makes every new \<open>Read\<close> fail at once, but the blocked one
  stays blocked.
\<close>
theorem peer_blocked_read_ignores_deadline:
  assumes "read_select pick dl n c = None" and "dl = None" and "leftover c = []"
    and "timer_inv (readDeadline c)" and "t \<le> now"
  shows "read_select pick2 dl n (peer_SetReadDeadline st now (Some t) c) = None
    \<and> peer_Read pick2 n (peer_SetReadDeadline st now (Some t) c)
       = Some (([], Some os_ErrDeadlineExceeded), peer_SetReadDeadline st now (Some t) c)"
proof -
  have r: "read_ready dl c = []"
    using assms(1) by (auto simp: read_select_def select_def Let_def
        split: option.splits read_case.splits list.splits if_splits)
  then have blocked: "\<not> ctx_done c" "inq c = []" "\<not> in_closed c"
    by (auto simp: read_ready_def split: if_splits)
  let ?c = "peer_SetReadDeadline st now (Some t) c"
  have "chan_ready (timer_channel (readDeadline ?c)) (readDeadline ?c)"
    using timer_set_past [OF assms(4,5)] by (simp add: peer_SetReadDeadline_def)
  with blocked have "read_ready (timer_channel (readDeadline ?c)) ?c = [RDeadline]"
    by (simp add: read_ready_def peer_SetReadDeadline_def)
  moreover have "read_ready dl ?c = []"
    using blocked assms(2) by (simp add: read_ready_def peer_SetReadDeadline_def chan_ready_def)
  moreover have "leftover ?c = []" using assms(3) by (simp add: peer_SetReadDeadline_def)
  ultimately show ?thesis by (simp add: read_select_def peer_Read_def)
qed

theorem peer_blocked_read_ignores_deadline_witness:
  "read_select 0 None 8 (peer_SetReadDeadline True 10 (Some 5) NewConn) = None"
proof -
  have "timer_inv (readDeadline NewConn)" by (simp add: NewConn_def timer_inv_new)
  then show ?thesis
    using peer_blocked_read_ignores_deadline [of 0 None 8 NewConn 5 10 0 True]
    by (simp add: read_select_def read_ready_def chan_ready_def NewConn_def)
qed

end
