(* ===== verification/Secure_Conn.thy ===== *)
theory Secure_Conn
  imports Secure_Frame Peer_Conn
begin

text \<open>
  The encrypted connection of \<open>internal/secure/noise.go\<close>. The Noise library is not part of
  the repository: its cipher states and the functions \<open>encrypt\<close> and \<open>decrypt\<close> on them are
  parameters. What the correctness theorem needs of them is \<open>cipher_sync\<close>.
\<close>

definition maxFramePayload :: nat where "maxFramePayload = 16 * 1024 - 64"

record ('c, 'cs) sconn =
  raw :: 'c
  enc :: 'cs
  dec :: 'cs
  readBuf :: bytes

type_synonym 'cs cipher = "'cs \<Rightarrow> bytes \<Rightarrow> (error + bytes) \<times> 'cs"

definition secure_Read :: "'c reader \<Rightarrow> 'cs cipher \<Rightarrow> ('c, 'cs) sconn reader" where
  "secure_Read rd decrypt n s =
     (if readBuf s \<noteq> []
      then Some ((take n (readBuf s), None), s\<lparr>readBuf := drop n (readBuf s)\<rparr>)
      else
        (case readFrame rd (raw s) of
           None \<Rightarrow> None
         | Some (Inl e, c) \<Rightarrow> Some (([], Some e), s\<lparr>raw := c\<rparr>)
         | Some (Inr ct, c) \<Rightarrow>
             (case decrypt (dec s) ct of
                (Inl e, d) \<Rightarrow>
                  Some (([], Some (WrapError ''noise decrypt: '' e [])), s\<lparr>raw := c, dec := d\<rparr>)
              | (Inr plain, d) \<Rightarrow>
                  let s1 = s\<lparr>raw := c, dec := d\<rparr>
                  in Some ((take n plain, None),
                       (if n < length plain then s1\<lparr>readBuf := drop n plain\<rparr> else s1)))))"

definition secure_write_body :: "'c writer \<Rightarrow> 'cs cipher \<Rightarrow> nat \<Rightarrow> bytes \<Rightarrow> ('c, 'cs) sconn
    \<Rightarrow> error option \<times> ('c, 'cs) sconn" where
  "secure_write_body wr encrypt i chunk s =
     (case encrypt (enc s) chunk of
        (Inl e, k) \<Rightarrow> (Some (WrapError ''noise encrypt: '' e []), s\<lparr>enc := k\<rparr>)
      | (Inr ct, k) \<Rightarrow>
          (case writeFrame wr ct (raw s) of
             (err, c) \<Rightarrow> (err, s\<lparr>enc := k, raw := c\<rparr>)))"

definition secure_Write :: "'c writer \<Rightarrow> 'cs cipher \<Rightarrow> ('c, 'cs) sconn writer" where
  "secure_Write wr encrypt p s = chunk_loop maxFramePayload (secure_write_body wr encrypt) 0 p 0 s"

text \<open>\<open>Close\<close> and the deadline setters delegate to the underlying connection.\<close>

definition secure_Close :: "'c NetConn \<Rightarrow> ('c, 'cs) sconn \<Rightarrow> error option \<times> ('c, 'cs) sconn" where
  "secure_Close net s = (let (e, c) = cClose net (raw s) in (e, s\<lparr>raw := c\<rparr>))"

definition secure_SetDeadline :: "'c NetConn \<Rightarrow> int option \<Rightarrow> ('c, 'cs) sconn \<Rightarrow> ('c, 'cs) sconn" where
  "secure_SetDeadline net t s = s\<lparr>raw := cSetDeadline net t (raw s)\<rparr>"

subsection \<open>Reading encrypted frames\<close>

text \<open>
  \<open>carries decrypt d ps w\<close>: the wire bytes \<open>w\<close> are frames whose payloads decrypt, in
  order and starting from the cipher state \<open>d\<close>, to the plaintexts \<open>ps\<close>.
\<close>

fun carries :: "'cs cipher \<Rightarrow> 'cs \<Rightarrow> bytes list \<Rightarrow> bytes \<Rightarrow> bool" where
  "carries decrypt d [] w = (w = [])"
| "carries decrypt d (p # ps) w =
     (\<exists>ct w' d'. w = frame ct @ w' \<and> length ct \<le> 0xFFFF \<and> decrypt d ct = (Inr p, d')
        \<and> carries decrypt d' ps w')"

definition sec_holds :: "('c \<Rightarrow> bytes \<Rightarrow> bool) \<Rightarrow> 'cs cipher \<Rightarrow> ('c, 'cs) sconn \<Rightarrow> bytes \<Rightarrow> bool" where
  "sec_holds holds decrypt s q \<longleftrightarrow>
     (\<exists>ps w. [] \<notin> set ps \<and> readBuf s @ concat ps = q \<and> carries decrypt (dec s) ps w
        \<and> holds (raw s) w)"

locale secure_source = byte_source rd holds for rd :: "'c reader" and holds +
  fixes decrypt :: "'cs cipher"
begin

lemma secure_read_prefix:
  assumes "sec_holds holds decrypt s q" and "q \<noteq> []" and "0 < n"
  shows "\<exists>k s'. secure_Read rd decrypt n s = Some ((take k q, None), s') \<and> 0 < k \<and> k \<le> n
    \<and> k \<le> length q \<and> sec_holds holds decrypt s' (drop k q)"
proof -
  from assms(1) obtain ps w where ps: "[] \<notin> set ps" "readBuf s @ concat ps = q"
      "carries decrypt (dec s) ps w" "holds (raw s) w"
    by (auto simp: sec_holds_def)
  show ?thesis
  proof (cases "readBuf s = []")
    case False
    let ?k = "min n (length (readBuf s))" and ?s = "s\<lparr>readBuf := drop n (readBuf s)\<rparr>"
    have "secure_Read rd decrypt n s = Some ((take ?k q, None), ?s)"
      using False ps(2) by (auto simp: secure_Read_def min_def)
    moreover have "sec_holds holds decrypt ?s (drop ?k q)"
      unfolding sec_holds_def using ps
      by (intro exI [of _ ps] exI [of _ w]) (auto simp: min_def)
    moreover have "0 < ?k \<and> ?k \<le> length q" using False assms(3) ps(2) by auto
    ultimately show ?thesis by (metis min.cobounded1)
  next
    case True
    with ps(2) assms(2) obtain p ps' where p: "ps = p # ps'" by (cases ps) auto
    with ps(3) obtain ct w' d' where ct: "w = frame ct @ w'" "length ct \<le> 0xFFFF"
        "decrypt (dec s) ct = (Inr p, d')" "carries decrypt d' ps' w'" by auto
    from readFrame_delivers [of "raw s" ct w'] ps(4) ct(1,2) obtain c'
      where c': "readFrame rd (raw s) = Some (Inr ct, c')" "holds c' w'" by auto
    let ?s1 = "s\<lparr>raw := c', dec := d'\<rparr>"
    let ?s = "if n < length p then ?s1\<lparr>readBuf := drop n p\<rparr> else ?s1"
    let ?k = "min n (length p)"
    have q: "q = p @ concat ps'" using ps(2) True p by simp
    have "secure_Read rd decrypt n s = Some ((take ?k q, None), ?s)"
      using True c'(1) ct(3) q by (auto simp: secure_Read_def Let_def min_def)
    moreover have "sec_holds holds decrypt ?s (drop ?k q)"
      unfolding sec_holds_def using ps(1) p c'(2) ct(4) q True
      by (intro exI [of _ ps'] exI [of _ w']) (auto simp: min_def)
    moreover have "0 < ?k \<and> ?k \<le> length q" using ps(1) p assms(3) q by auto
    ultimately show ?thesis by (metis min.cobounded1)
  qed
qed

end

text \<open>So an encrypted connection is again a source of bytes, and can itself be read by frames.\<close>

sublocale secure_source \<subseteq> sec: byte_source "secure_Read rd decrypt" "sec_holds holds decrypt"
  by unfold_locales (rule secure_read_prefix)

subsection \<open>Writing encrypted frames\<close>

text \<open>
  What the program relies on in the cipher: while two states are in sync, what one encrypts
  the other decrypts, both stay in sync, and a ciphertext is the 16-byte tag longer than
  its plaintext.
\<close>

definition cipher_sync :: "'cs cipher \<Rightarrow> 'cs cipher \<Rightarrow> ('cs \<Rightarrow> 'cs \<Rightarrow> bool) \<Rightarrow> bool" where
  "cipher_sync encrypt decrypt sync \<longleftrightarrow>
     (\<forall>e d p ct e'. sync e d \<longrightarrow> encrypt e p = (Inr ct, e') \<longrightarrow>
        length ct = length p + 16 \<and> (\<exists>d'. decrypt d ct = (Inr p, d') \<and> sync e' d'))"

context byte_sink
begin

lemma run_secure_carries:
  assumes "cipher_sync encrypt decrypt sync"
  shows "run_chunks (secure_write_body wr encrypt) i cs t s = ((n, None), s') \<Longrightarrow> sync (enc s) d \<Longrightarrow>
    \<exists>w. written (raw s') = written (raw s) @ w \<and> carries decrypt d cs w \<and> n = t + length (concat cs)"
proof (induction cs arbitrary: i t s d)
  case Nil
  then show ?case by simp
next
  case (Cons c cs)
  obtain r k where e: "encrypt (enc s) c = (r, k)" by fastforce
  with Cons.prems(1) obtain ct where ct: "r = Inr ct"
    by (cases r) (auto simp: secure_write_body_def)
  obtain err c1 where wf: "writeFrame wr ct (raw s) = (err, c1)" by fastforce
  with Cons.prems(1) e ct have err: "err = None"
    by (cases err) (auto simp: secure_write_body_def)
  let ?s1 = "s\<lparr>enc := k, raw := c1\<rparr>"
  have "secure_write_body wr encrypt i c s = (None, ?s1)"
    using e ct wf err by (simp add: secure_write_body_def)
  with Cons.prems(1) have step:
    "run_chunks (secure_write_body wr encrypt) (Suc i) cs (t + length c) ?s1 = ((n, None), s')"
    by simp
  from assms Cons.prems(2) e ct obtain d' where d': "decrypt d ct = (Inr c, d')" "sync k d'"
    unfolding cipher_sync_def by blast
  from Cons.IH [OF step, of d'] d'(2) obtain w where w: "written (raw s') = written c1 @ w"
      "carries decrypt d' cs w" "n = t + length c + length (concat cs)" by auto
  from wf err have "length ct \<le> 0xFFFF \<and> written c1 = written (raw s) @ frame ct"
    by (simp add: writeFrame_ok)
  with w d' show ?case by (intro exI [of _ "frame ct @ w"]) auto
qed

lemma secure_Write_carries:
  assumes "cipher_sync encrypt decrypt sync" and "sync (enc s) d"
    and "secure_Write wr encrypt p s = ((n, None), s')"
  shows "n = length p \<and> (\<exists>w. written (raw s') = written (raw s) @ w
    \<and> carries decrypt d (chunks maxFramePayload p) w)"
proof -
  have m: "0 < maxFramePayload" by (simp add: maxFramePayload_def)
  show ?thesis
    using run_secure_carries [OF assms(1), of 0 "chunks maxFramePayload p" 0 s n s' d] assms(2,3) m
    by (auto simp: secure_Write_def chunk_loop_run)
qed

end

subsection \<open>The encrypted channel over a DataChannel\<close>

interpretation peer_sec: secure_source "peer_Read pick" peer_holds decrypt for pick decrypt
  by unfold_locales

lemma chunks_single: "p \<noteq> [] \<Longrightarrow> length p \<le> m \<Longrightarrow> chunks m p = [p]"
  using chunks_step [of p m] by (cases p) auto

text \<open>A slice of at most 16 KiB is one message or, when \<open>Write\<close> fails, none.\<close>

lemma peer_Write_single:
  assumes "peer_Write env p c = ((n, err), c')" and "p \<noteq> []" and "length p \<le> maxMsgSize"
  shows "dc_out c' = dc_out c @ (if err = None then [p] else [])"
proof -
  have "run_chunks (peer_write_body env) 0 [p] 0 c = ((n, err), c')"
    using assms by (simp add: peer_Write_def chunk_loop_run [OF maxMsgSize_pos] chunks_single)
  from run_write_out [OF this] obtain k where "k \<le> length [p]"
      "dc_out c' = dc_out c @ take k [p]" "err = None \<longleftrightarrow> k = length [p]" by blast
  then show ?thesis by (cases k) auto
qed

definition tag16 :: "'cs cipher \<Rightarrow> bool" where
  "tag16 encrypt \<longleftrightarrow> (\<forall>e p ct e'. encrypt e p = (Inr ct, e') \<longrightarrow> length ct = length p + 16)"

lemma frame_length [simp]: "length (frame ct) = length ct + 2"
  by (simp add: frame_def)

lemma frame_nonempty [simp]: "frame ct \<noteq> []"
  by (simp add: frame_def be16_def)

lemma secure_body_message:
  assumes "tag16 encrypt" and "length chunk \<le> maxFramePayload"
    and "secure_write_body (peer_Write env) encrypt i chunk s = (err, s')"
  shows "\<exists>cts. dc_out (raw s') = dc_out (raw s) @ map frame cts \<and> length cts = (if err = None then 1 else 0)
    \<and> (\<forall>ct \<in> set cts. length ct = length chunk + 16)"
proof -
  obtain r k where e: "encrypt (enc s) chunk = (r, k)" by fastforce
  show ?thesis
  proof (cases r)
    case (Inl x)
    with assms(3) e show ?thesis by (intro exI [of _ "[]"]) (auto simp: secure_write_body_def)
  next
    case (Inr ct)
    have len: "length ct = length chunk + 16" using assms(1) e Inr by (auto simp: tag16_def)
    obtain n err' c where w: "peer_Write env (frame ct) (raw s) = ((n, err'), c)" by (metis prod.exhaust)
    have fit: "length (frame ct) \<le> maxMsgSize" "length ct \<le> 0xFFFF"
      using assms(2) len by (simp_all add: maxFramePayload_def maxMsgSize_def)
    with assms(3) e Inr w have "err = err' \<and> raw s' = c"
      by (auto simp: secure_write_body_def writeFrame_def frame_def)
    moreover have "dc_out c = dc_out (raw s) @ (if err' = None then [frame ct] else [])"
      by (rule peer_Write_single [OF w _ fit(1)]) simp
    ultimately show ?thesis
      using len by (intro exI [of _ "if err = None then [ct] else []"]) auto
  qed
qed

lemma run_secure_messages:
  assumes "tag16 encrypt"
  shows "run_chunks (secure_write_body (peer_Write env) encrypt) i cs t s = ((n, err), s') \<Longrightarrow>
    \<forall>c \<in> set cs. length c \<le> maxFramePayload \<Longrightarrow>
    \<exists>cts. dc_out (raw s') = dc_out (raw s) @ map frame cts
      \<and> (\<forall>ct \<in> set cts. length ct \<le> maxFramePayload + 16) \<and> length cts \<le> length cs
      \<and> (err = None \<longleftrightarrow> length cts = length cs)"
proof (induction cs arbitrary: i t s)
  case Nil
  then show ?case by auto
next
  case (Cons c cs)
  obtain e s1 where b: "secure_write_body (peer_Write env) encrypt i c s = (e, s1)" by fastforce
  from secure_body_message [OF assms _ b] Cons.prems(2) obtain cts where cts:
      "dc_out (raw s1) = dc_out (raw s) @ map frame cts" "length cts = (if e = None then 1 else 0)"
      "\<forall>ct \<in> set cts. length ct \<le> maxFramePayload + 16" by fastforce
  show ?case
  proof (cases e)
    case None
    with Cons.prems b have "run_chunks (secure_write_body (peer_Write env) encrypt) (Suc i) cs
        (t + length c) s1 = ((n, err), s')" by simp
    from Cons.IH [OF this] Cons.prems(2) obtain cts2 where
        "dc_out (raw s') = dc_out (raw s1) @ map frame cts2"
        "\<forall>ct \<in> set cts2. length ct \<le> maxFramePayload + 16" "length cts2 \<le> length cs"
        "err = None \<longleftrightarrow> length cts2 = length cs" by auto
    with cts None show ?thesis by (intro exI [of _ "cts @ cts2"]) auto
  next
    case (Some x)
    with Cons.prems b cts show ?thesis by (intro exI [of _ cts]) auto
  qed
qed

lemma secure_Write_messages:
  assumes "tag16 encrypt" and "secure_Write (peer_Write env) encrypt p s = ((n, err), s')"
  shows "\<exists>cts. dc_out (raw s') = dc_out (raw s) @ map frame cts
      \<and> (\<forall>ct \<in> set cts. length ct \<le> maxFramePayload + 16)
      \<and> length cts \<le> length (chunks maxFramePayload p)
      \<and> (err = None \<longleftrightarrow> length cts = length (chunks maxFramePayload p))"
proof -
  have "0 < maxFramePayload" by (simp add: maxFramePayload_def)
  with assms(2) have "run_chunks (secure_write_body (peer_Write env) encrypt) 0
      (chunks maxFramePayload p) 0 s = ((n, err), s')"
    by (simp add: secure_Write_def chunk_loop_run)
  from run_secure_messages [OF assms(1) this] chunks_bound show ?thesis by blast
qed

text \<open>
  One message per frame. Over a DataChannel, every encrypted frame that
  \<open>Write\<close> emits is sent as exactly one message of at most 16 KiB, never split by the
  connection below, also when the write fails part way; on success there is one per
  chunk of the plaintext.
\<close>
theorem secure_frames_fit_messages:
  assumes "tag16 encrypt" and "secure_Write (peer_Write env) encrypt p s = ((n, err), s')"
  shows "\<exists>cts. dc_out (raw s') = dc_out (raw s) @ map frame cts
      \<and> (\<forall>m \<in> set (map frame cts). length m \<le> maxMsgSize)
      \<and> (err = None \<longleftrightarrow> length cts = length (chunks maxFramePayload p))"
proof -
  from secure_Write_messages [OF assms] obtain cts where cts:
      "dc_out (raw s') = dc_out (raw s) @ map frame cts"
      "\<forall>ct \<in> set cts. length ct \<le> maxFramePayload + 16"
      "err = None \<longleftrightarrow> length cts = length (chunks maxFramePayload p)" by blast
  then have "\<forall>m \<in> set (map frame cts). length m \<le> maxMsgSize"
    by (auto simp: maxFramePayload_def maxMsgSize_def)
  with cts show ?thesis by blast
qed

lemma carries_chunk_nonempty: "[] \<notin> set (chunks maxFramePayload p)"
  using chunks_bound by fastforce

lemma cipher_sync_tag:
  assumes "cipher_sync encrypt decrypt sync" and "\<forall>e. \<exists>d. sync e d"
  shows "tag16 encrypt"
  using assms unfolding cipher_sync_def tag16_def by blast

text \<open>
  Property C30: end to end, from the plaintext to the plaintext. Two encrypted connections
  over the two ends of a DataChannel, whose cipher states are in sync: what \<open>Write\<close> on one
  end accepted without an error, once its messages are delivered, is what
  \<open>io.ReadFull\<close> reads on the other end, byte for byte, through both framing layers. The
  hypotheses on the cipher are that decryption in sync undoes encryption and that the
  tag has 16 bytes.
\<close>
theorem secure_end_to_end:
  assumes "cipher_sync encrypt decrypt sync" and "tag16 encrypt" and "sync (enc a) d"
    and "secure_Write (peer_Write env) encrypt p a = ((n, None), a')"
    and "dc_out (raw a) = []" and "length p \<le> inCap * maxFramePayload"
  shows "n = length p \<and> (\<exists>b b'. deliver pick (dc_out (raw a')) NewConn = Some b
    \<and> ReadFull (secure_Read (peer_Read pick2) decrypt) (length p)
        \<lparr>raw = b, enc = e, dec = d, readBuf = []\<rparr> = Some ((p, None), b'))"
proof -
  from peer_sink.secure_Write_carries [OF assms(1,3,4)] assms(5)
  have n: "n = length p" and c: "carries decrypt d (chunks maxFramePayload p) (concat (dc_out (raw a')))"
    by auto
  have pos: "0 < maxFramePayload" by (simp add: maxFramePayload_def)
  from secure_Write_messages [OF assms(2,4)] assms(5) obtain cts where
      cts: "dc_out (raw a') = map frame cts" "length cts = length (chunks maxFramePayload p)" by auto
  have ne: "[] \<notin> set (dc_out (raw a'))"
    using cts(1) by (auto dest: sym)
  have "length (inq NewConn) + length (dc_out (raw a')) \<le> inCap"
    using cts length_chunks_le [OF pos assms(6)] by (simp add: NewConn_def)
  from deliver_holds [OF peer_holds_NewConn ne this] obtain b
    where b: "deliver pick (dc_out (raw a')) NewConn = Some b"
      "peer_holds b (concat (dc_out (raw a')))" by auto
  have "sec_holds peer_holds decrypt \<lparr>raw = b, enc = e, dec = d, readBuf = []\<rparr> p"
    unfolding sec_holds_def using b(2) c carries_chunk_nonempty pos
    by (intro exI [of _ "chunks maxFramePayload p"] exI [of _ "concat (dc_out (raw a'))"]) simp
  from peer_sec.sec.ReadFull_delivers [OF this, of "length p"] n b(1) show ?thesis by auto
qed

text \<open>A cipher for the witnesses: the counter of each side is the tag.\<close>

definition demo_tag :: "nat \<Rightarrow> bytes" where "demo_tag k = replicate 16 (word_of_nat k)"

definition demo_encrypt :: "nat cipher" where
  "demo_encrypt k p = (Inr (p @ demo_tag k), Suc k)"

definition demo_decrypt :: "nat cipher" where
  "demo_decrypt k ct =
     (if 16 \<le> length ct \<and> drop (length ct - 16) ct = demo_tag k
      then (Inr (take (length ct - 16) ct), Suc k) else (Inl (ErrorString ''tag''), k))"

lemma demo_cipher: "cipher_sync demo_encrypt demo_decrypt (=)" "tag16 demo_encrypt"
  by (auto simp: cipher_sync_def tag16_def demo_encrypt_def demo_decrypt_def demo_tag_def)

definition demo_end :: "(pconn, nat) sconn" where
  "demo_end = \<lparr>raw = NewConn, enc = 0, dec = 0, readBuf = []\<rparr>"

lemma demo_secure_write:
  "\<exists>a'. secure_Write (peer_Write (\<lambda>_. calm)) demo_encrypt [7, 8] demo_end = ((2, None), a')"
  by (simp add: secure_Write_def chunk_loop.simps secure_write_body_def demo_encrypt_def
      demo_end_def demo_tag_def writeFrame_def peer_Write_def peer_write_body_def disturb_def calm_def
      write_ready_def NewConn_def timer_channel_def chan_ready_def new_atomicTimer_def
      maxMsgSize_def maxFramePayload_def be16_def Let_def)

theorem secure_end_to_end_witness:
  "\<exists>a' b b'. secure_Write (peer_Write (\<lambda>_. calm)) demo_encrypt [7, 8] demo_end = ((2, None), a')
    \<and> deliver 0 (dc_out (raw a')) NewConn = Some b
    \<and> ReadFull (secure_Read (peer_Read 0) demo_decrypt) (length [7 :: byte, 8])
        \<lparr>raw = b, enc = 0, dec = 0, readBuf = []\<rparr> = Some (([7, 8], None), b')"
proof -
  obtain a' where w: "secure_Write (peer_Write (\<lambda>_. calm)) demo_encrypt [7, 8] demo_end = ((2, None), a')"
    using demo_secure_write by blast
  have "enc demo_end = 0" "dc_out (raw demo_end) = []" "length [7 :: byte, 8] \<le> inCap * maxFramePayload"
    by (simp_all add: demo_end_def NewConn_def inCap_def maxFramePayload_def)
  with secure_end_to_end [OF demo_cipher _ w, where e = 0 and d = 0] w show ?thesis by blast
qed

theorem secure_frames_fit_messages_witness:
  "\<exists>a' cts. secure_Write (peer_Write (\<lambda>_. calm)) demo_encrypt [7, 8] demo_end = ((2, None), a')
    \<and> dc_out (raw a') = dc_out (raw demo_end) @ map frame cts
    \<and> length cts = length (chunks maxFramePayload [7 :: byte, 8])"
proof -
  obtain a' where w: "secure_Write (peer_Write (\<lambda>_. calm)) demo_encrypt [7, 8] demo_end = ((2, None), a')"
    using demo_secure_write by blast
  from secure_frames_fit_messages [OF demo_cipher(2) w] w show ?thesis by blast
qed

end
