(* ===== verification/Secure_Handshake.thy ===== *)
theory Secure_Handshake
  imports Secure_Conn
begin

text \<open>
  The Noise_IK handshake of \<open>internal/secure/noise.go\<close>. The Noise library, SHA-512 and the
  Edwards curve are not part of the repository: \<open>noise_lib\<close> and \<open>curve_lib\<close> are records of
  the functions the code calls, with the handshake state (its randomness included) of an
  arbitrary type. The connection below is an arbitrary \<open>NetConn\<close>.
\<close>

definition ErrHandshakeFailed :: error where
  "ErrHandshakeFailed = Sentinel ''secure.ErrHandshakeFailed'' ''noise handshake failed''"

text \<open>Ten seconds, in nanoseconds.\<close>

definition handshakeTimeout :: int where "handshakeTimeout = 10 * 1000000000"

record 'pt curve_lib =
  Sum512 :: "bytes \<Rightarrow> bytes"
  SetBytes :: "bytes \<Rightarrow> error + 'pt"
  BytesMontgomery :: "'pt \<Rightarrow> bytes"

record noise_config =
  CipherSuite :: "string list"
  Pattern :: string
  Initiator :: bool
  StaticKeypair :: "bytes \<times> bytes"
  PeerStaticKey :: bytes

record ('hs, 'cs) noise_lib =
  NewHandshakeState :: "noise_config \<Rightarrow> error + 'hs"
  WriteMessage :: "'hs \<Rightarrow> (error + bytes \<times> 'cs option \<times> 'cs option) \<times> 'hs"
  ReadMessage :: "bytes \<Rightarrow> 'hs \<Rightarrow> (error + 'cs option \<times> 'cs option) \<times> 'hs"
  PeerStatic :: "'hs \<Rightarrow> bytes"

subsection \<open>Key conversion\<close>

text \<open>The three canonical bit tweaks on the first half of the hash of the seed.\<close>

definition clamp :: "bytes \<Rightarrow> bytes" where
  "clamp x =
     (let x1 = x[0 := and (x ! 0) 248];
          x2 = x1[31 := and (x1 ! 31) 127]
      in x2[31 := or (x2 ! 31) 64])"

definition ed25519PubToX25519 :: "'pt curve_lib \<Rightarrow> bytes \<Rightarrow> error + bytes" where
  "ed25519PubToX25519 C pub =
     (if length pub \<noteq> 32 then Inl (ErrorString ''invalid ed25519 public key size'')
      else (case SetBytes C pub of
              Inl e \<Rightarrow> Inl (WrapError ''decode edwards point: '' e [])
            | Inr p \<Rightarrow> Inr (BytesMontgomery C p)))"

text \<open>A private key is the seed followed by the public key.\<close>

definition ed25519PrivToX25519 :: "'pt curve_lib \<Rightarrow> bytes \<Rightarrow> error + bytes \<times> bytes" where
  "ed25519PrivToX25519 C priv =
     (if length priv \<noteq> 64 then Inl (ErrorString ''invalid ed25519 private key size'')
      else
        let seed = take 32 priv;
            h = Sum512 C seed;
            x = clamp (take 32 h)
        in (case ed25519PubToX25519 C (drop 32 priv) of
              Inl e \<Rightarrow> Inl e
            | Inr pub \<Rightarrow> Inr (x, pub)))"

subsection \<open>The handshake\<close>

definition hs_fail :: "string \<Rightarrow> error \<Rightarrow> error" where
  "hs_fail what e = WrapError [] ErrHandshakeFailed ('': '' @ what @ '': '' @ err_text e)"

definition hs_incomplete :: error where
  "hs_incomplete = WrapError [] ErrHandshakeFailed '': handshake incomplete after msg2''"

definition hs_mismatch :: "bytes \<Rightarrow> bytes \<Rightarrow> error" where
  "hs_mismatch pinned got = WrapError [] ErrHandshakeFailed
     ('': peer static mismatch (pinned '' @ hex_string pinned @ '', got '' @ hex_string got @ '')'')"

text \<open>The exchange of the initiator; the result is the pair of the sending and the receiving cipher.\<close>

definition hs_initiate :: "('hs, 'cs) noise_lib \<Rightarrow> 'c NetConn \<Rightarrow> 'hs \<Rightarrow> 'c
    \<Rightarrow> ((error + 'cs \<times> 'cs) \<times> 'c) option" where
  "hs_initiate N net hs c =
     (case WriteMessage N hs of
        (Inl e, hs1) \<Rightarrow> Some (Inl (hs_fail ''write msg1'' e), c)
      | (Inr (msg1, _, _), hs1) \<Rightarrow>
          (case writeFrame (cWrite net) msg1 c of
             (Some e, c1) \<Rightarrow> Some (Inl (hs_fail ''send msg1'' e), c1)
           | (None, c1) \<Rightarrow>
               (case readFrame (cRead net) c1 of
                  None \<Rightarrow> None
                | Some (Inl e, c2) \<Rightarrow> Some (Inl (hs_fail ''read msg2'' e), c2)
                | Some (Inr msg2, c2) \<Rightarrow>
                    (case ReadMessage N msg2 hs1 of
                       (Inl e, hs2) \<Rightarrow> Some (Inl (hs_fail ''parse msg2'' e), c2)
                     | (Inr (cs0, cs1), hs2) \<Rightarrow>
                         (case (cs0, cs1) of
                            (Some k0, Some k1) \<Rightarrow> Some (Inr (k0, k1), c2)
                          | _ \<Rightarrow> Some (Inl hs_incomplete, c2))))))"

definition hs_respond :: "('hs, 'cs) noise_lib \<Rightarrow> 'c NetConn \<Rightarrow> bytes \<Rightarrow> 'hs \<Rightarrow> 'c
    \<Rightarrow> ((error + 'cs \<times> 'cs) \<times> 'c) option" where
  "hs_respond N net peerXPub hs c =
     (case readFrame (cRead net) c of
        None \<Rightarrow> None
      | Some (Inl e, c1) \<Rightarrow> Some (Inl (hs_fail ''read msg1'' e), c1)
      | Some (Inr msg1, c1) \<Rightarrow>
          (case ReadMessage N msg1 hs of
             (Inl e, hs1) \<Rightarrow> Some (Inl (hs_fail ''parse msg1'' e), c1)
           | (Inr _, hs1) \<Rightarrow>
               let gotPeer = PeerStatic N hs1
               in if gotPeer \<noteq> peerXPub then Some (Inl (hs_mismatch peerXPub gotPeer), c1)
                  else
                    (case WriteMessage N hs1 of
                       (Inl e, hs2) \<Rightarrow> Some (Inl (hs_fail ''write msg2'' e), c1)
                     | (Inr (msg2, cs0, cs1), hs2) \<Rightarrow>
                         (case writeFrame (cWrite net) msg2 c1 of
                            (Some e, c2) \<Rightarrow> Some (Inl (hs_fail ''send msg2'' e), c2)
                          | (None, c2) \<Rightarrow>
                              (case (cs0, cs1) of
                                 (Some k0, Some k1) \<Rightarrow> Some (Inr (k1, k0), c2)
                               | _ \<Rightarrow> Some (Inl hs_incomplete, c2))))))"

definition ik_config :: "bool \<Rightarrow> bytes \<Rightarrow> bytes \<Rightarrow> bytes \<Rightarrow> noise_config" where
  "ik_config initiator myXPriv myXPub peerXPub =
     \<lparr>CipherSuite = [''DH25519'', ''CipherChaChaPoly'', ''HashBLAKE2b''],
      Pattern = ''HandshakeIK'', Initiator = initiator, StaticKeypair = (myXPriv, myXPub),
      PeerStaticKey = (if initiator then peerXPub else [])\<rparr>"

definition hs_run :: "('hs, 'cs) noise_lib \<Rightarrow> 'pt curve_lib \<Rightarrow> 'c NetConn \<Rightarrow> bytes \<Rightarrow> bytes \<Rightarrow> bool
    \<Rightarrow> 'c \<Rightarrow> ((error + 'cs \<times> 'cs) \<times> 'c) option" where
  "hs_run N C net myPriv peerPub initiator c =
     (case ed25519PrivToX25519 C myPriv of
        Inl e \<Rightarrow> Some (Inl (hs_fail ''convert my priv'' e), c)
      | Inr (myXPriv, myXPub) \<Rightarrow>
          (case ed25519PubToX25519 C peerPub of
             Inl e \<Rightarrow> Some (Inl (hs_fail ''convert peer pub'' e), c)
           | Inr peerXPub \<Rightarrow>
               (case NewHandshakeState N (ik_config initiator myXPriv myXPub peerXPub) of
                  Inl e \<Rightarrow> Some (Inl (hs_fail ''new handshake'' e), c)
                | Inr hs \<Rightarrow>
                    if initiator then hs_initiate N net hs c
                    else hs_respond N net peerXPub hs c)))"

text \<open>The deadline is set first and cleared by the deferred call, on every way out.\<close>

definition doHandshake :: "('hs, 'cs) noise_lib \<Rightarrow> 'pt curve_lib \<Rightarrow> 'c NetConn \<Rightarrow> int \<Rightarrow> bytes \<Rightarrow> bytes
    \<Rightarrow> bool \<Rightarrow> 'c \<Rightarrow> ((error + ('c, 'cs) sconn) \<times> 'c) option" where
  "doHandshake N C net now myPriv peerPub initiator c =
     (case hs_run N C net myPriv peerPub initiator
             (cSetDeadline net (Some (now + handshakeTimeout)) c) of
        None \<Rightarrow> None
      | Some (r, c1) \<Rightarrow>
          let c2 = cSetDeadline net None c1
          in Some ((case r of
                      Inl e \<Rightarrow> Inl e
                    | Inr (e, d) \<Rightarrow> Inr \<lparr>raw = c2, enc = e, dec = d, readBuf = []\<rparr>), c2))"

definition secure_Client :: "('hs, 'cs) noise_lib \<Rightarrow> 'pt curve_lib \<Rightarrow> 'c NetConn \<Rightarrow> int \<Rightarrow> bytes \<Rightarrow> bytes
    \<Rightarrow> 'c \<Rightarrow> ((error + ('c, 'cs) sconn) \<times> 'c) option" where
  "secure_Client N C net now myPriv peerPub c = doHandshake N C net now myPriv peerPub True c"

definition secure_Server :: "('hs, 'cs) noise_lib \<Rightarrow> 'pt curve_lib \<Rightarrow> 'c NetConn \<Rightarrow> int \<Rightarrow> bytes \<Rightarrow> bytes
    \<Rightarrow> 'c \<Rightarrow> ((error + ('c, 'cs) sconn) \<times> 'c) option" where
  "secure_Server N C net now myPriv peerPub c = doHandshake N C net now myPriv peerPub False c"

lemmas handshake_defs = doHandshake_def hs_run_def hs_initiate_def hs_respond_def

subsection \<open>What every outcome has in common\<close>

text \<open>A data channel connection as a \<open>NetConn\<close>; the parameters are the environment's choices.\<close>

definition peer_net :: "nat \<Rightarrow> (nat \<Rightarrow> wenv) \<Rightarrow> bool \<Rightarrow> int \<Rightarrow> pconn NetConn" where
  "peer_net pick env st now =
     \<lparr>cRead = peer_Read pick, cWrite = peer_Write env, cClose = peer_Close None,
      cSetDeadline = peer_SetDeadline st st now\<rparr>"

lemma hs_fail_is [simp]:
  "err_is (hs_fail w e) ErrHandshakeFailed" "err_is hs_incomplete ErrHandshakeFailed"
  "err_is (hs_mismatch p g) ErrHandshakeFailed"
  by (auto simp: hs_fail_def hs_incomplete_def hs_mismatch_def ErrHandshakeFailed_def)

lemma hs_run_fails:
  "hs_run N C net myPriv peerPub ini c = Some (Inl e, c') \<Longrightarrow> err_is e ErrHandshakeFailed"
  by (auto simp: hs_run_def hs_initiate_def hs_respond_def Let_def
      split: sum.splits option.splits prod.splits if_splits)

lemma doHandshake_cases:
  assumes "doHandshake N C net now myPriv peerPub ini c = Some (r, c')"
  obtains e c1 where "hs_run N C net myPriv peerPub ini
      (cSetDeadline net (Some (now + handshakeTimeout)) c) = Some (Inl e, c1)"
      "r = Inl e" "c' = cSetDeadline net None c1"
  | k d c1 where "hs_run N C net myPriv peerPub ini
      (cSetDeadline net (Some (now + handshakeTimeout)) c) = Some (Inr (k, d), c1)"
      "r = Inr \<lparr>raw = c', enc = k, dec = d, readBuf = []\<rparr>" "c' = cSetDeadline net None c1"
proof (cases "hs_run N C net myPriv peerPub ini
      (cSetDeadline net (Some (now + handshakeTimeout)) c)")
  case None
  with assms show thesis by (simp add: doHandshake_def)
next
  case (Some q)
  obtain x c1 where q: "q = (x, c1)" by fastforce
  show thesis
  proof (cases x)
    case (Inl e)
    from assms Some q Inl have "r = Inl e \<and> cSetDeadline net None c1 = c'"
      by (simp add: doHandshake_def Let_def)
    with Some q Inl show thesis by (intro that(1) [of e c1]) auto
  next
    case (Inr y)
    obtain k d where y: "y = (k, d)" by fastforce
    from assms Some q Inr y have "c' = cSetDeadline net None c1"
      by (simp add: doHandshake_def Let_def)
    moreover from this assms Some q Inr y have "r = Inr \<lparr>raw = c', enc = k, dec = d, readBuf = []\<rparr>"
      by (auto simp: doHandshake_def Let_def)
    moreover from Some q Inr y have "hs_run N C net myPriv peerPub ini
        (cSetDeadline net (Some (now + handshakeTimeout)) c) = Some (Inr (k, d), c1)" by simp
    ultimately show thesis using that(2) by blast
  qed
qed

lemma SetDeadline_None [simp]:
  "fired (readDeadline (peer_SetDeadline a b now None c)) = None"
  "fired (writeDeadline (peer_SetDeadline a b now None c)) = None"
  by (simp_all add: peer_SetDeadline_def peer_SetReadDeadline_def peer_SetWriteDeadline_def
      timer_set_def Let_def)

text \<open>
  The ten-second deadline bounds the handshake only. On every way out, the
  success and every failure, the connection has no read and no write deadline left,
  a success is a fresh encrypted connection on it with an empty buffer, and a failure is an
  \<open>ErrHandshakeFailed\<close> for \<open>errors.Is\<close>.
\<close>
theorem handshake_outcome:
  assumes "doHandshake N C (peer_net pick env st t) now myPriv peerPub ini c = Some (r, c')"
  shows "timer_channel (readDeadline c') = None \<and> timer_channel (writeDeadline c') = None
    \<and> (case r of Inl e \<Rightarrow> err_is e ErrHandshakeFailed
        | Inr s \<Rightarrow> raw s = c' \<and> readBuf s = [])"
  using assms
proof (cases rule: doHandshake_cases)
  case (1 e c1)
  then have "c' = peer_SetDeadline st st t None c1" by (simp add: peer_net_def)
  then show ?thesis using hs_run_fails [OF 1(1)] 1(2) by (simp add: timer_channel_def)
next
  case (2 k d c1)
  then have "c' = peer_SetDeadline st st t None c1" by (simp add: peer_net_def)
  then show ?thesis using 2(2) by (simp add: timer_channel_def)
qed

subsection \<open>The responder checks the pinned key before it answers\<close>

lemma peer_Read_out: "peer_Read pick n c = Some (r, c') \<Longrightarrow> dc_out c' = dc_out c"
  by (auto simp: peer_Read_def read_select_def Let_def
      split: if_splits option.splits read_case.splits list.splits)

lemma readFrame_keeps:
  assumes "\<And>n c r c'. rd n c = Some (r, c') \<Longrightarrow> P c \<Longrightarrow> P c'"
    and "readFrame rd c = Some (r, c')" and "P c"
  shows "P c'"
proof -
  have full: "P c'" if "ReadFull rd n c = Some (r, c')" "P c" for n c r c'
    using ReadFull_keeps [where rd = rd and P = P, OF _ that] assms(1) by blast
  from assms(2,3) show ?thesis
    by (auto simp: readFrame_def Let_def split: option.splits prod.splits dest!: full)
qed

lemma SetDeadline_out [simp]: "dc_out (peer_SetDeadline a b now t c) = dc_out c"
  by (simp add: peer_SetDeadline_def peer_SetReadDeadline_def peer_SetWriteDeadline_def)

lemma readFrame_out: "readFrame (peer_Read pick) c = Some (r, c') \<Longrightarrow> dc_out c' = dc_out c"
  by (rule readFrame_keeps [where P = "\<lambda>x. dc_out x = dc_out c"]) (auto dest: peer_Read_out)

lemma hs_respond_checked:
  assumes "hs_respond N (peer_net pick env st t) pin hs c = Some (r, c')"
    and "dc_out c' \<noteq> dc_out c \<or> (\<exists>k. r = Inr k)"
  shows "\<exists>msg1 c1 ks hs1. readFrame (peer_Read pick) c = Some (Inr msg1, c1)
    \<and> ReadMessage N msg1 hs = (Inr ks, hs1) \<and> PeerStatic N hs1 = pin"
proof -
  have rd: "cRead (peer_net pick env st t) = peer_Read pick" by (simp add: peer_net_def)
  show ?thesis
    using assms unfolding hs_respond_def rd
    by (auto simp: Let_def split: option.splits sum.splits prod.splits if_splits dest: readFrame_out)
qed

lemma secure_Server_checked:
  assumes "secure_Server N C (peer_net pick env st t) now myPriv peerPub c = Some (r, c')"
    and "dc_out c' \<noteq> dc_out c \<or> (\<exists>s. r = Inr s)"
  shows "\<exists>pin x hs msg1 c1 ks hs1. ed25519PubToX25519 C peerPub = Inr pin
    \<and> NewHandshakeState N (ik_config False (fst x) (snd x) pin) = Inr hs
    \<and> readFrame (peer_Read pick) (peer_SetDeadline st st t (Some (now + handshakeTimeout)) c)
        = Some (Inr msg1, c1)
    \<and> ReadMessage N msg1 hs = (Inr ks, hs1) \<and> PeerStatic N hs1 = pin"
proof -
  let ?net = "peer_net pick env st t"
  let ?c = "peer_SetDeadline st st t (Some (now + handshakeTimeout)) c"
  have sd: "cSetDeadline ?net = peer_SetDeadline st st t" by (simp add: peer_net_def)
  obtain q c1 where run: "hs_run N C ?net myPriv peerPub False ?c = Some (q, c1)"
      and q: "dc_out c1 \<noteq> dc_out ?c \<or> (\<exists>k. q = Inr k)"
    using assms unfolding secure_Server_def
    by (elim doHandshake_cases) (auto simp: sd)
  from run q obtain x pin hs where pin: "ed25519PubToX25519 C peerPub = Inr pin"
      "NewHandshakeState N (ik_config False (fst x) (snd x) pin) = Inr hs"
      and respond: "hs_respond N ?net pin hs ?c = Some (q, c1)"
    by (auto simp: hs_run_def split: sum.splits prod.splits)
  from hs_respond_checked [OF respond q] pin show ?thesis by blast
qed

text \<open>
  Property C19: the responder pins its peer. If \<open>Server\<close> sent anything at all over the data
  channel, or accepted the connection, then the first frame it read was a message of the
  Noise protocol that revealed the static key to which the pinned Ed25519 key converts. A
  peer with any other static key is never answered.
\<close>
theorem responder_answers_only_pinned:
  assumes "secure_Server N C (peer_net pick env st t) now myPriv peerPub c = Some (r, c')"
    and "dc_out c' \<noteq> dc_out c \<or> (\<exists>s. r = Inr s)"
  shows "\<exists>pin x hs msg1 c1 ks hs1. ed25519PubToX25519 C peerPub = Inr pin
    \<and> NewHandshakeState N (ik_config False (fst x) (snd x) pin) = Inr hs
    \<and> readFrame (peer_Read pick) (peer_SetDeadline st st t (Some (now + handshakeTimeout)) c)
        = Some (Inr msg1, c1)
    \<and> ReadMessage N msg1 hs = (Inr ks, hs1) \<and> PeerStatic N hs1 = pin"
  by (rule secure_Server_checked [OF assms])

subsection \<open>A silent peer cannot hold the handshake\<close>

text \<open>
  A read that waits: when nothing is ready it blocks, nothing more arrives, and then the timer
  of the deadline channel it fetched runs. Without a deadline it blocks for ever.
\<close>

definition peer_Read_wait :: "nat \<Rightarrow> pconn reader" where
  "peer_Read_wait pick n c =
     (case peer_Read pick n c of
        Some r \<Rightarrow> Some r
      | None \<Rightarrow>
          (case timer_channel (readDeadline c) of
             None \<Rightarrow> None
           | Some ch \<Rightarrow>
               read_select pick (Some ch) n
                 (c\<lparr>readDeadline := timer_expire ch (readDeadline c)\<rparr>)))"

text \<open>The current deadline has fired or its timer is still going to.\<close>

definition deadline_live :: "pconn \<Rightarrow> bool" where
  "deadline_live c \<longleftrightarrow> (case fired (readDeadline c) of None \<Rightarrow> False
     | Some ch \<Rightarrow> chan_closed (readDeadline c) ch \<or> armed (readDeadline c) ch)"

definition pending :: "pconn \<Rightarrow> nat" where
  "pending c = length (leftover c) + sum_list (map (\<lambda>f. Suc (length f)) (inq c))"

lemma timer_expire_frame [simp]: "fired (timer_expire ch a) = fired a"
  by (simp add: timer_expire_def close_chan_def)

lemma timer_expire_closes:
  "chan_closed a ch \<or> armed a ch \<Longrightarrow> chan_closed (timer_expire ch a) ch"
  by (auto simp: timer_expire_def close_chan_def)

lemma deadline_live_set: "now < u \<Longrightarrow> deadline_live (peer_SetDeadline a b now (Some u) c)"
  by (simp add: deadline_live_def peer_SetDeadline_def peer_SetReadDeadline_def
      peer_SetWriteDeadline_def timer_set_def Let_def)

lemma deadline_live_cong: "readDeadline c' = readDeadline c \<Longrightarrow> deadline_live c' = deadline_live c"
  by (simp only: deadline_live_def)

lemma read_select_progress:
  assumes "read_select pick dl n c = Some ((bs, e), c')" and "0 < n" and "leftover c = []"
  shows "readDeadline c' = readDeadline c \<and> (e = None \<longrightarrow> pending c' < pending c)"
  using assms
  by (auto simp: read_select_def pending_def Let_def
      split: option.splits read_case.splits list.splits if_splits)

lemma peer_Read_progress:
  assumes "peer_Read pick n c = Some ((bs, e), c')" and "0 < n"
  shows "readDeadline c' = readDeadline c \<and> (e = None \<longrightarrow> pending c' < pending c)"
proof (cases "leftover c = []")
  case True
  with assms read_select_progress show ?thesis by (simp add: peer_Read_def)
next
  case False
  with assms show ?thesis by (auto simp: peer_Read_def pending_def)
qed

lemma select_nonempty: "xs \<noteq> [] \<Longrightarrow> \<exists>x. select pick xs = Some x"
  by (simp add: select_def)

lemma read_select_closed:
  assumes "chan_closed (readDeadline c) ch"
  shows "\<exists>bs e c'. read_select pick (Some ch) n c = Some ((bs, e), c')"
proof -
  have ne: "read_ready (Some ch) c \<noteq> []" using assms by (simp add: read_ready_def chan_ready_def)
  then obtain x where "select pick (read_ready (Some ch) c) = Some x"
    using select_nonempty by blast
  then show ?thesis
    by (auto simp: read_select_def Let_def split: read_case.splits list.splits)
qed

lemma peer_Read_wait_progress:
  assumes "0 < n" and "deadline_live c"
  shows "\<exists>bs e c'. peer_Read_wait pick n c = Some ((bs, e), c') \<and> deadline_live c'
    \<and> (e = None \<longrightarrow> pending c' < pending c)"
proof (cases "peer_Read pick n c")
  case (Some q)
  obtain bs e c' where q: "q = ((bs, e), c')" by (metis prod.exhaust)
  with Some peer_Read_progress [of pick n c bs e c'] assms deadline_live_cong [of c' c]
  show ?thesis by (simp add: peer_Read_wait_def)
next
  case None
  from assms(2) obtain ch where ch: "fired (readDeadline c) = Some ch"
      "chan_closed (readDeadline c) ch \<or> armed (readDeadline c) ch"
    by (auto simp: deadline_live_def split: option.splits)
  let ?c = "c\<lparr>readDeadline := timer_expire ch (readDeadline c)\<rparr>"
  have closed: "chan_closed (readDeadline ?c) ch" using timer_expire_closes [OF ch(2)] by simp
  from read_select_closed [OF this] obtain bs e c' where r:
    "read_select pick (Some ch) n ?c = Some ((bs, e), c')" by blast
  have l: "leftover ?c = []" using None by (auto simp: peer_Read_def split: if_splits)
  have p: "pending ?c = pending c" by (simp add: pending_def)
  have "peer_Read_wait pick n c = Some ((bs, e), c')"
    using None r ch(1) by (simp add: peer_Read_wait_def timer_channel_def)
  moreover have "deadline_live c' \<and> (e = None \<longrightarrow> pending c' < pending c)"
    using read_select_progress [OF r assms(1) l] closed ch(1) p by (simp add: deadline_live_def)
  ultimately show ?thesis by blast
qed

lemma peer_Read_wait_live:
  "peer_Read_wait pick n c = Some (r, c') \<Longrightarrow> deadline_live c \<Longrightarrow> deadline_live c'"
proof (cases n)
  case (Suc k)
  assume "peer_Read_wait pick n c = Some (r, c')" "deadline_live c"
  with peer_Read_wait_progress [of n c pick] Suc show ?thesis by auto
next
  case 0
  assume r: "peer_Read_wait pick n c = Some (r, c')" and live: "deadline_live c"
  then obtain ch where ch: "fired (readDeadline c) = Some ch"
      "chan_closed (readDeadline c) ch \<or> armed (readDeadline c) ch"
    by (auto simp: deadline_live_def split: option.splits)
  have keep: "read_select pick dl n x = Some (r, c') \<Longrightarrow> readDeadline c' = readDeadline x" for dl x
    by (auto simp: read_select_def Let_def
        split: option.splits read_case.splits list.splits if_splits)
  show ?thesis
  proof (cases "peer_Read pick n c")
    case (Some q)
    with r have "readDeadline c' = readDeadline c"
      by (auto simp: peer_Read_wait_def peer_Read_def keep split: if_splits)
    with live deadline_live_cong [of c' c] show ?thesis by simp
  next
    case None
    with r ch keep timer_expire_closes [OF ch(2)] show ?thesis
      by (simp add: peer_Read_wait_def timer_channel_def deadline_live_def)
  qed
qed

lemma ReadFull_wait: "deadline_live c \<Longrightarrow> \<exists>r c'. ReadFull (peer_Read_wait pick) n c = Some (r, c')"
  using read_loop_terminates [of deadline_live "peer_Read_wait pick" pending c n "[]",
      OF peer_Read_wait_progress]
  by (auto simp: ReadFull_def)

lemma readFrame_wait:
  assumes "deadline_live c"
  shows "\<exists>r c'. readFrame (peer_Read_wait pick) c = Some (r, c')"
proof -
  from ReadFull_wait [OF assms] obtain hdr e c1 where
    h: "ReadFull (peer_Read_wait pick) 2 c = Some ((hdr, e), c1)" by (metis prod.exhaust)
  have "deadline_live c1"
    by (rule ReadFull_keeps [where P = deadline_live, OF _ h assms]) (rule peer_Read_wait_live)
  from ReadFull_wait [OF this, of pick "of_be16 hdr"] h show ?thesis
    by (cases e) (auto simp: readFrame_def Let_def split: option.splits)
qed

lemma run_live:
  "run_chunks (peer_write_body env) i cs t c = (r, c') \<Longrightarrow> deadline_live c \<Longrightarrow> deadline_live c'"
proof (induction cs arbitrary: i t c)
  case Nil
  then show ?case by simp
next
  case (Cons x cs)
  obtain e c1 where b: "peer_write_body env i x c = (e, c1)" by fastforce
  have "deadline_live c1"
    using b Cons.prems(2)
    by (auto simp: peer_write_body_def Let_def disturb_def deadline_live_def split: option.splits)
  with Cons b show ?case by (cases e) auto
qed

lemma writeFrame_live:
  "writeFrame (peer_Write env) p c = (e, c') \<Longrightarrow> deadline_live c \<Longrightarrow> deadline_live c'"
  by (auto simp: writeFrame_def peer_Write_def chunk_loop_run [OF maxMsgSize_pos]
      split: if_splits prod.splits dest: run_live)

definition peer_net_wait :: "nat \<Rightarrow> (nat \<Rightarrow> wenv) \<Rightarrow> bool \<Rightarrow> int \<Rightarrow> pconn NetConn" where
  "peer_net_wait pick env st now = (peer_net pick env st now)\<lparr>cRead := peer_Read_wait pick\<rparr>"

lemma hs_initiate_wait:
  assumes "deadline_live c"
  shows "hs_initiate N (peer_net_wait pick env st t) hs c \<noteq> None"
proof -
  have net: "cRead (peer_net_wait pick env st t) = peer_Read_wait pick"
    "cWrite (peer_net_wait pick env st t) = peer_Write env"
    by (simp_all add: peer_net_wait_def peer_net_def)
  obtain w hs1 where w: "WriteMessage N hs = (w, hs1)" by fastforce
  show ?thesis
  proof (cases w)
    case (Inl e)
    with w show ?thesis by (simp add: hs_initiate_def)
  next
    case (Inr m)
    obtain e c1 where f: "writeFrame (peer_Write env) (fst m) c = (e, c1)" by fastforce
    from readFrame_wait [OF writeFrame_live [OF f assms], of pick] obtain r c2
      where "readFrame (peer_Read_wait pick) c1 = Some (r, c2)" by blast
    with w Inr f show ?thesis
      by (cases m) (auto simp: hs_initiate_def net split: option.splits sum.splits prod.splits)
  qed
qed

lemma hs_respond_wait:
  assumes "deadline_live c"
  shows "hs_respond N (peer_net_wait pick env st t) pin hs c \<noteq> None"
proof -
  have net: "cRead (peer_net_wait pick env st t) = peer_Read_wait pick"
    by (simp add: peer_net_wait_def)
  from readFrame_wait [OF assms, of pick] obtain r c1
    where "readFrame (peer_Read_wait pick) c = Some (r, c1)" by blast
  then show ?thesis
    by (auto simp: hs_respond_def net Let_def split: option.splits sum.splits prod.splits)
qed

text \<open>
  Property C21: a silent peer cannot hold a data channel. Whatever is queued on the connection
  and whatever the Noise library answers, the handshake returns in both roles, even if
  nothing more ever arrives: the deadline it sets first ends the read that would block. The
  hypothesis is that the deadline lies in the future of the clock that arms its timer.
\<close>
theorem handshake_never_hangs:
  assumes "t < now + handshakeTimeout"
  shows "\<exists>r c'. doHandshake N C (peer_net_wait pick env st t) now myPriv peerPub ini c = Some (r, c')"
proof -
  let ?net = "peer_net_wait pick env st t"
  let ?c = "cSetDeadline ?net (Some (now + handshakeTimeout)) c"
  have live: "deadline_live ?c"
    using assms by (simp add: peer_net_wait_def peer_net_def deadline_live_set)
  have "hs_run N C ?net myPriv peerPub ini ?c \<noteq> None"
    using hs_initiate_wait [OF live] hs_respond_wait [OF live]
    by (auto simp: hs_run_def split: sum.splits prod.splits)
  then show ?thesis by (auto simp: doHandshake_def Let_def)
qed

subsection \<open>Two honest parties\<close>

text \<open>
  What the code relies on in the Noise library, for the pattern IK and key pairs that
  belong together: the responder reads the first message of an initiator that knows its
  static key, learns the initiator's static key from it, and the initiator reads the
  responder's answer; both end with the pair of cipher states (initiator to responder,
  responder to initiator), in sync. The messages have 96 and 48 bytes.
\<close>

definition noise_ik :: "('hs, 'cs) noise_lib \<Rightarrow> (bytes \<times> bytes \<Rightarrow> bool) \<Rightarrow> ('cs \<Rightarrow> 'cs \<Rightarrow> bool) \<Rightarrow> bool" where
  "noise_ik N valid sync \<longleftrightarrow>
     (\<forall>a b. valid a \<longrightarrow> valid b \<longrightarrow>
        (\<exists>hi hr m1 n0 hi1 ks hr1 m2 r0 r1 hr2 i0 i1 hi2.
           NewHandshakeState N (ik_config True (fst a) (snd a) (snd b)) = Inr hi
         \<and> NewHandshakeState N (ik_config False (fst b) (snd b) (snd a)) = Inr hr
         \<and> WriteMessage N hi = (Inr (m1, n0), hi1) \<and> length m1 = 96
         \<and> ReadMessage N m1 hr = (Inr ks, hr1) \<and> PeerStatic N hr1 = snd a
         \<and> WriteMessage N hr1 = (Inr (m2, Some r0, Some r1), hr2) \<and> length m2 = 48
         \<and> ReadMessage N m2 hi1 = (Inr (Some i0, Some i1), hi2)
         \<and> sync i0 r0 \<and> sync r1 i1))"

text \<open>A connection that nobody disturbs: it is open and no deadline passes.\<close>

definition can_write :: "pconn \<Rightarrow> bool" where
  "can_write c \<longleftrightarrow> \<not> ctx_done c \<and> \<not> chan_ready (timer_channel (writeDeadline c)) (writeDeadline c)"

lemma calm_Write:
  assumes "can_write c" and "p \<noteq> []" and "length p \<le> maxMsgSize"
  shows "peer_Write (\<lambda>_. calm) p c = ((length p, None), c\<lparr>dc_out := dc_out c @ [p]\<rparr>)"
proof -
  have "select (we_pick calm) (write_ready c) = None"
    using assms(1) by (simp add: write_ready_def can_write_def select_def)
  then have "peer_write_body (\<lambda>_. calm) 0 p c = (None, c\<lparr>dc_out := dc_out c @ [p]\<rparr>)"
    by (simp add: peer_write_body_def disturb_def calm_def)
  then show ?thesis
    using assms(2,3) by (simp add: peer_Write_def chunk_loop_run [OF maxMsgSize_pos] chunks_single)
qed

lemma calm_writeFrame:
  assumes "can_write c" and "length p \<le> 96"
  shows "writeFrame (peer_Write (\<lambda>_. calm)) p c = (None, c\<lparr>dc_out := dc_out c @ [frame p]\<rparr>)"
proof -
  have "length (frame p) \<le> maxMsgSize" using assms(2) by (simp add: maxMsgSize_def)
  from calm_Write [OF assms(1) frame_nonempty this] assms(2) show ?thesis
    by (simp add: writeFrame_def frame_def)
qed

lemma timer_set_future:
  "timer_inv a \<Longrightarrow> now < u \<Longrightarrow>
     \<not> chan_ready (timer_channel (timer_set s now (Some u) a)) (timer_set s now (Some u) a)"
  by (auto simp: timer_inv_def timer_set_def timer_channel_def chan_ready_def Let_def
      split: option.splits)

lemma SetDeadline_future:
  assumes "timer_inv (readDeadline c)" and "timer_inv (writeDeadline c)" and "now < u"
    and "peer_holds c p"
  shows "peer_holds (peer_SetDeadline a b now (Some u) c) p
    \<and> can_write (peer_SetDeadline a b now (Some u) c)"
  using timer_set_future [OF assms(1,3), of a] timer_set_future [OF assms(2,3), of b] assms(4)
  by (simp add: peer_SetDeadline_def peer_SetReadDeadline_def peer_SetWriteDeadline_def
      peer_holds_def can_write_def)

lemma can_write_out [simp]: "can_write (c\<lparr>dc_out := x\<rparr>) = can_write c"
  "peer_holds (c\<lparr>dc_out := x\<rparr>) p = peer_holds c p"
  by (simp_all add: can_write_def peer_holds_def)

lemma peer_Read_can_write:
  "peer_Read pick n c = Some (r, c') \<Longrightarrow> can_write c \<Longrightarrow> can_write c'"
  by (auto simp: peer_Read_def read_select_def Let_def can_write_def
      split: if_splits option.splits read_case.splits list.splits)

lemma readFrame_can_write:
  "readFrame (peer_Read pick) c = Some (r, c') \<Longrightarrow> can_write c \<Longrightarrow> can_write c'"
  by (rule readFrame_keeps [where P = can_write]) (auto dest: peer_Read_can_write)

text \<open>A fresh connection to which the peer has sent one frame.\<close>

definition fresh_with :: "bytes \<Rightarrow> pconn" where
  "fresh_with m = NewConn\<lparr>inq := [frame m]\<rparr>"

lemma fresh_ready:
  assumes "0 < timeout"
  shows "peer_holds (peer_SetDeadline st st t (Some (t + timeout)) (fresh_with m)) (frame m)
    \<and> can_write (peer_SetDeadline st st t (Some (t + timeout)) (fresh_with m))"
proof (rule SetDeadline_future)
  show "peer_holds (fresh_with m) (frame m)"
    using frame_nonempty [of m, symmetric] by (simp add: fresh_with_def peer_holds_def NewConn_def
        timer_channel_def chan_ready_def new_atomicTimer_def)
qed (use assms timer_inv_new in \<open>simp_all add: fresh_with_def NewConn_def\<close>)

text \<open>
  Property C20: mutual agreement. Two honest parties that pinned each other's keys, over the
  two ends of a data channel: there are two messages such that the client sends exactly the
  frame of the first and, given the frame of the second, succeeds; the server, given the
  first, sends exactly the second and succeeds; and what each encrypts the other decrypts:
  the sending cipher of each side is in sync with the receiving cipher of the other.
\<close>
theorem handshake_agrees:
  assumes "noise_ik N valid sync"
    and "ed25519PrivToX25519 C privA = Inr a" and "ed25519PubToX25519 C pubA = Inr (snd a)"
    and "ed25519PrivToX25519 C privB = Inr b" and "ed25519PubToX25519 C pubB = Inr (snd b)"
    and "valid a" and "valid b"
  shows "\<exists>m1 m2 s1 s2 c1 c2.
    secure_Client N C (peer_net pick (\<lambda>_. calm) st t) t privA pubB (fresh_with m2) = Some (Inr s1, c1)
    \<and> secure_Server N C (peer_net pick (\<lambda>_. calm) st t) t privB pubA (fresh_with m1) = Some (Inr s2, c2)
    \<and> dc_out c1 = [frame m1] \<and> dc_out c2 = [frame m2]
    \<and> sync (enc s1) (dec s2) \<and> sync (enc s2) (dec s1)"
proof -
  let ?net = "peer_net pick (\<lambda>_. calm) st t"
  let ?dl = "peer_SetDeadline st st t (Some (t + handshakeTimeout))"
  have net: "cRead ?net = peer_Read pick" "cWrite ?net = peer_Write (\<lambda>_. calm)"
    "cSetDeadline ?net = peer_SetDeadline st st t"
    by (simp_all add: peer_net_def)
  from assms(1) [unfolded noise_ik_def, rule_format, OF assms(6,7)] obtain hi hr m1 n0 hi1 ks hr1 m2 r0 r1 hr2 i0 i1 hi2 where ik:
      "NewHandshakeState N (ik_config True (fst a) (snd a) (snd b)) = Inr hi"
      "NewHandshakeState N (ik_config False (fst b) (snd b) (snd a)) = Inr hr"
      "WriteMessage N hi = (Inr (m1, n0), hi1)" "length m1 = 96"
      "ReadMessage N m1 hr = (Inr ks, hr1)" "PeerStatic N hr1 = snd a"
      "WriteMessage N hr1 = (Inr (m2, Some r0, Some r1), hr2)" "length m2 = 48"
      "ReadMessage N m2 hi1 = (Inr (Some i0, Some i1), hi2)" "sync i0 r0" "sync r1 i1"
    by (elim exE conjE, blast)
  have pos: "0 < handshakeTimeout" by (simp add: handshakeTimeout_def)
  have out0: "dc_out (?dl (fresh_with m)) = []" for m by (simp add: fresh_with_def NewConn_def)
  let ?ci = "?dl (fresh_with m2)\<lparr>dc_out := [frame m1]\<rparr>"
  have wi: "writeFrame (peer_Write (\<lambda>_. calm)) m1 (?dl (fresh_with m2)) = (None, ?ci)"
    using calm_writeFrame [of "?dl (fresh_with m2)" m1] fresh_ready [OF pos, of st t m2] ik(4) out0
    by simp
  have "peer_holds ?ci (frame m2 @ [])" using fresh_ready [OF pos, of st t m2] by simp
  from byte_source.readFrame_delivers [OF peer_src.byte_source_axioms this, of pick] ik(8) obtain c1
    where c1: "readFrame (peer_Read pick) ?ci = Some (Inr m2, c1)" by auto
  have o1: "dc_out c1 = [frame m1]" using readFrame_out [OF c1] by simp
  have "peer_holds (?dl (fresh_with m1)) (frame m1 @ [])" using fresh_ready [OF pos, of st t m1] by simp
  from byte_source.readFrame_delivers [OF peer_src.byte_source_axioms this, of pick] ik(4) obtain c2
    where c2: "readFrame (peer_Read pick) (?dl (fresh_with m1)) = Some (Inr m1, c2)" by auto
  have o2: "dc_out c2 = []" using readFrame_out [OF c2] out0 by simp
  have "can_write c2" using readFrame_can_write [OF c2] fresh_ready [OF pos, of st t m1] by simp
  from calm_writeFrame [OF this, of m2] ik(8) o2
  have wr: "writeFrame (peer_Write (\<lambda>_. calm)) m2 c2 = (None, c2\<lparr>dc_out := [frame m2]\<rparr>)" by simp
  obtain ka pa kb pb where keys: "a = (ka, pa)" "b = (kb, pb)" by fastforce
  have "hs_run N C ?net privA pubB True (?dl (fresh_with m2)) = Some (Inr (i0, i1), c1)"
    using assms(2,5) ik wi c1 keys by (cases n0) (simp add: hs_run_def hs_initiate_def net)
  moreover have "hs_run N C ?net privB pubA False (?dl (fresh_with m1))
      = Some (Inr (r1, r0), c2\<lparr>dc_out := [frame m2]\<rparr>)"
    using assms(3,4) ik wr c2 keys by (simp add: hs_run_def hs_respond_def net Let_def)
  ultimately show ?thesis
    using ik(10,11) o1
    by (intro exI [of _ m1] exI [of _ m2])
       (simp add: secure_Client_def secure_Server_def doHandshake_def net Let_def)
qed

subsection \<open>The X25519 keys\<close>

lemma clamp_bits:
  assumes "length x = 32"
  shows "length (clamp x) = 32 \<and> and (clamp x ! 0) 7 = 0 \<and> and (clamp x ! 31) 192 = 64
    \<and> (\<forall>i \<in> {1..30}. clamp x ! i = x ! i)"
proof -
  have low: "and (and (b :: byte) 248) 7 = 0" for b
    by (simp add: and.assoc)
  have high: "and (or (and (b :: byte) 127) 64) 192 = 64" for b
    by (simp add: bit_eq_iff bit_and_iff bit_or_iff) (auto simp: bit_simps numeral_eq_Suc less_Suc_eq)
  show ?thesis
    using assms low high by (auto simp: clamp_def Let_def nth_list_update)
qed

text \<open>
  The converted private key is a clamped X25519 scalar: 32 bytes whose three
  low bits are clear, whose top bit is clear and whose second highest bit is set, and which
  agree with the hash of the seed in between; the public half is the conversion of the
  Ed25519 public key inside the private key, so both sides of a pair see the same point.
\<close>
theorem x25519_key_clamped:
  assumes "ed25519PrivToX25519 C priv = Inr (x, pub)" and "32 \<le> length (Sum512 C (take 32 priv))"
  shows "length x = 32 \<and> and (x ! 0) 7 = 0 \<and> and (x ! 31) 192 = 64
    \<and> (\<forall>i \<in> {1..30}. x ! i = Sum512 C (take 32 priv) ! i)
    \<and> ed25519PubToX25519 C (drop 32 priv) = Inr pub"
proof -
  let ?h = "take 32 (Sum512 C (take 32 priv))"
  from assms(1) have x: "x = clamp ?h" "ed25519PubToX25519 C (drop 32 priv) = Inr pub"
    by (auto simp: ed25519PrivToX25519_def Let_def split: if_splits sum.splits)
  have "length ?h = 32" using assms(2) by simp
  from clamp_bits [OF this] x show ?thesis by auto
qed

subsection \<open>Witnesses\<close>

text \<open>
  A library for the witnesses: the first message carries the initiator's static key in
  clear, the second is constant, and the two cipher states are the counters 0 and 100.
\<close>

definition demo_curve :: "bytes curve_lib" where
  "demo_curve = \<lparr>Sum512 = (\<lambda>_. replicate 64 255), SetBytes = Inr, BytesMontgomery = (\<lambda>p. p)\<rparr>"

definition demo_noise :: "(bool \<times> bytes \<times> bytes, nat) noise_lib" where
  "demo_noise = \<lparr>
     NewHandshakeState = (\<lambda>cfg. Inr (Initiator cfg, snd (StaticKeypair cfg), PeerStaticKey cfg)),
     WriteMessage = (\<lambda>(i, me, peer).
       (if i then Inr (me @ replicate 64 0, None, None) else Inr (replicate 48 1, Some 0, Some 100),
        (i, me, peer))),
     ReadMessage = (\<lambda>m (i, me, peer).
       if i then (Inr (Some 0, Some 100), (i, me, peer))
       else (Inr (None, None), (i, me, take 32 m))),
     PeerStatic = (\<lambda>(i, me, peer). peer)\<rparr>"

lemma demo_noise_ik: "noise_ik demo_noise (\<lambda>a. length (snd a) = 32) (=)"
  by (auto simp: noise_ik_def demo_noise_def ik_config_def)

definition demo_key :: "byte \<Rightarrow> bytes" where "demo_key b = replicate 64 b"

lemma demo_conv:
  "ed25519PubToX25519 demo_curve (replicate 32 b) = Inr (replicate 32 b)"
  "\<exists>x. ed25519PrivToX25519 demo_curve (demo_key b) = Inr (x, replicate 32 b)"
  by (simp_all add: ed25519PubToX25519_def ed25519PrivToX25519_def demo_curve_def demo_key_def Let_def)

theorem handshake_agrees_witness:
  "\<exists>m1 m2 s1 s2 c1 c2.
    secure_Client demo_noise demo_curve (peer_net 0 (\<lambda>_. calm) True 5) 5 (demo_key 1)
      (replicate 32 2) (fresh_with m2) = Some (Inr s1, c1)
    \<and> secure_Server demo_noise demo_curve (peer_net 0 (\<lambda>_. calm) True 5) 5 (demo_key 2)
      (replicate 32 1) (fresh_with m1) = Some (Inr s2, c2)
    \<and> dc_out c1 = [frame m1] \<and> dc_out c2 = [frame m2] \<and> enc s1 = dec s2 \<and> enc s2 = dec s1"
proof -
  obtain x y where k: "ed25519PrivToX25519 demo_curve (demo_key 1) = Inr (x, replicate 32 1)"
      "ed25519PrivToX25519 demo_curve (demo_key 2) = Inr (y, replicate 32 2)"
    using demo_conv(2) by blast
  show ?thesis
    using handshake_agrees [OF demo_noise_ik k(1) _ k(2), of "replicate 32 1" "replicate 32 2"]
    by (simp add: demo_conv(1))
qed

theorem handshake_outcome_witness:
  "\<exists>r c'. doHandshake demo_noise demo_curve (peer_net 0 (\<lambda>_. calm) True 5) 5 [] [] True NewConn = Some (r, c')
    \<and> timer_channel (readDeadline c') = None"
proof -
  obtain r c' where h: "doHandshake demo_noise demo_curve (peer_net 0 (\<lambda>_. calm) True 5) 5 [] [] True NewConn
      = Some (r, c')"
    by (auto simp: doHandshake_def hs_run_def ed25519PrivToX25519_def Let_def)
  from handshake_outcome [OF h] h show ?thesis by blast
qed

theorem handshake_never_hangs_witness:
  "\<exists>r c'. doHandshake demo_noise demo_curve (peer_net_wait 0 (\<lambda>_. calm) True 5) 5 (demo_key 1)
     (replicate 32 2) True NewConn = Some (r, c')"
  by (rule handshake_never_hangs) (simp add: handshakeTimeout_def)

theorem x25519_key_clamped_witness:
  "\<exists>x. ed25519PrivToX25519 demo_curve (demo_key 3) = Inr (x, replicate 32 3)
     \<and> and (x ! 0) 7 = 0 \<and> and (x ! 31) 192 = 64"
proof -
  obtain x where x: "ed25519PrivToX25519 demo_curve (demo_key 3) = Inr (x, replicate 32 3)"
    using demo_conv(2) by blast
  from x25519_key_clamped [OF x] x show ?thesis by (simp add: demo_curve_def)
qed

text \<open>A server that accepts the key it pinned.\<close>

lemma demo_server:
  "\<exists>s c. secure_Server demo_noise demo_curve (peer_net 0 (\<lambda>_. calm) True 5) 5 (demo_key 2)
     (replicate 32 b) (fresh_with (replicate 96 b)) = Some (Inr s, c)"
proof -
  let ?dl = "peer_SetDeadline True True 5 (Some (5 + handshakeTimeout)) (fresh_with (replicate 96 b))"
  have pos: "0 < handshakeTimeout" by (simp add: handshakeTimeout_def)
  obtain y where y: "ed25519PrivToX25519 demo_curve (demo_key 2) = Inr (y, replicate 32 2)"
    using demo_conv(2) by blast
  have "peer_holds ?dl (frame (replicate 96 b) @ [])"
    using fresh_ready [OF pos, of True 5 "replicate 96 b"] by simp
  from byte_source.readFrame_delivers [OF peer_src.byte_source_axioms this, of 0] obtain c
    where c: "readFrame (peer_Read 0) ?dl = Some (Inr (replicate 96 b), c)" by auto
  have "can_write c"
    using readFrame_can_write [OF c] fresh_ready [OF pos, of True 5 "replicate 96 b"] by simp
  from calm_writeFrame [OF this, of "replicate 48 1"] y c show ?thesis
    by (simp add: secure_Server_def doHandshake_def hs_run_def hs_respond_def demo_conv(1)
        peer_net_def demo_noise_def ik_config_def Let_def)
qed

theorem responder_answers_only_pinned_witness:
  "\<exists>msg1 c1. readFrame (peer_Read 0) (peer_SetDeadline True True 5 (Some (5 + handshakeTimeout))
     (fresh_with (replicate 96 1))) = Some (Inr msg1, c1)"
proof -
  obtain s c where "secure_Server demo_noise demo_curve (peer_net 0 (\<lambda>_. calm) True 5) 5 (demo_key 2)
     (replicate 32 1) (fresh_with (replicate 96 1)) = Some (Inr s, c)"
    using demo_server by blast
  from responder_answers_only_pinned [OF this] show ?thesis by blast
qed

end
