(* ===== verification/Tunnel.thy ===== *)
theory Tunnel
  imports Secure_Handshake
begin

text \<open>
  The tunnel of \<open>internal/tunnel/tunnel.go\<close>: a data channel, the Noise handshake on it and a
  yamux session on top. The yamux library is a parameter: its default configuration and its
  two constructors, which either take the connection over or fail. Logging is left out.
\<close>

record yamux_config =
  LogOutput :: string
  KeepAliveInterval :: int
  MaxStreamWindowSize :: nat

definition yamuxConfig :: "yamux_config \<Rightarrow> yamux_config" where
  "yamuxConfig DefaultConfig =
     DefaultConfig\<lparr>LogOutput := ''io.Discard'', KeepAliveInterval := 30 * 1000000000,
       MaxStreamWindowSize := 1 * 1024 * 1024\<rparr>"

type_synonym ('c, 'cs, 'y) yamux_new = "('c, 'cs) sconn \<Rightarrow> yamux_config \<Rightarrow> error + 'y"

definition tunnel_Dial :: "('hs, 'cs) noise_lib \<Rightarrow> 'pt curve_lib \<Rightarrow> 'c NetConn \<Rightarrow> ('c, 'cs, 'y) yamux_new
    \<Rightarrow> yamux_config \<Rightarrow> int \<Rightarrow> bytes \<Rightarrow> bytes \<Rightarrow> 'c \<Rightarrow> ((error + 'y) \<times> 'c) option" where
  "tunnel_Dial N C net yamux_Client DefaultConfig now myPriv peerPub c =
     (case secure_Client N C net now myPriv peerPub c of
        None \<Rightarrow> None
      | Some (Inl e, c1) \<Rightarrow>
          Some (Inl (WrapError ''noise client: '' e []), snd (cClose net c1))
      | Some (Inr sec, c1) \<Rightarrow>
          (case yamux_Client sec (yamuxConfig DefaultConfig) of
             Inl e \<Rightarrow> Some (Inl (WrapError ''yamux client: '' e []), raw (snd (secure_Close net sec)))
           | Inr sess \<Rightarrow> Some (Inr sess, c1)))"

definition tunnel_Serve :: "('hs, 'cs) noise_lib \<Rightarrow> 'pt curve_lib \<Rightarrow> 'c NetConn \<Rightarrow> ('c, 'cs, 'y) yamux_new
    \<Rightarrow> yamux_config \<Rightarrow> int \<Rightarrow> bytes \<Rightarrow> bytes \<Rightarrow> 'c \<Rightarrow> ((error + 'y) \<times> 'c) option" where
  "tunnel_Serve N C net yamux_Server DefaultConfig now myPriv peerPub c =
     (case secure_Server N C net now myPriv peerPub c of
        None \<Rightarrow> None
      | Some (Inl e, c1) \<Rightarrow>
          Some (Inl (WrapError ''noise server: '' e []), snd (cClose net c1))
      | Some (Inr sec, c1) \<Rightarrow>
          (case yamux_Server sec (yamuxConfig DefaultConfig) of
             Inl e \<Rightarrow> Some (Inl (WrapError ''yamux server: '' e []), raw (snd (secure_Close net sec)))
           | Inr sess \<Rightarrow> Some (Inr sess, c1)))"

subsection \<open>The handshake leaves the data channel open\<close>

definition never_closed :: "pconn \<Rightarrow> bool" where
  "never_closed c \<longleftrightarrow> \<not> close_once c \<and> dc_closes c = 0"

lemma peer_Read_never_closed:
  "peer_Read pick n c = Some (r, c') \<Longrightarrow> never_closed c \<Longrightarrow> never_closed c'"
  by (auto simp: peer_Read_def read_select_def Let_def never_closed_def
      split: if_splits option.splits read_case.splits list.splits)

lemma readFrame_never_closed:
  "readFrame (peer_Read pick) c = Some (r, c') \<Longrightarrow> never_closed c \<Longrightarrow> never_closed c'"
  by (rule readFrame_keeps [where P = never_closed]) (auto dest: peer_Read_never_closed)

lemma run_never_closed:
  "run_chunks (peer_write_body env) i cs t c = (r, c') \<Longrightarrow> never_closed c \<Longrightarrow> never_closed c'"
proof (induction cs arbitrary: i t c)
  case Nil
  then show ?case by simp
next
  case (Cons x cs)
  obtain e c1 where b: "peer_write_body env i x c = (e, c1)" by fastforce
  have "never_closed c1"
    using b Cons.prems(2)
    by (auto simp: peer_write_body_def Let_def disturb_def never_closed_def split: option.splits)
  with Cons b show ?case by (cases e) auto
qed

lemma writeFrame_never_closed:
  "writeFrame (peer_Write env) p c = (e, c') \<Longrightarrow> never_closed c \<Longrightarrow> never_closed c'"
  by (auto simp: writeFrame_def peer_Write_def chunk_loop_run [OF maxMsgSize_pos]
      split: if_splits prod.splits dest: run_never_closed)

lemma peer_net_simps [simp]:
  "cRead (peer_net pick env st t) = peer_Read pick" "cWrite (peer_net pick env st t) = peer_Write env"
  "cClose (peer_net pick env st t) = peer_Close None"
  "cSetDeadline (peer_net pick env st t) = peer_SetDeadline st st t"
  by (simp_all add: peer_net_def)

lemma hs_initiate_never_closed:
  "hs_initiate N (peer_net pick env st t) hs c = Some (r, c') \<Longrightarrow> never_closed c \<Longrightarrow> never_closed c'"
  by (auto simp: hs_initiate_def split: sum.splits prod.splits option.splits
      dest!: writeFrame_never_closed readFrame_never_closed)

lemma hs_respond_never_closed:
  "hs_respond N (peer_net pick env st t) pin hs c = Some (r, c') \<Longrightarrow> never_closed c \<Longrightarrow> never_closed c'"
  by (auto simp: hs_respond_def Let_def split: sum.splits prod.splits option.splits if_splits
      dest!: writeFrame_never_closed readFrame_never_closed)

lemma SetDeadline_never_closed [simp]:
  "never_closed (peer_SetDeadline a b now t c) = never_closed c"
  by (simp add: peer_SetDeadline_def peer_SetReadDeadline_def peer_SetWriteDeadline_def never_closed_def)

lemma handshake_never_closed:
  assumes "doHandshake N C (peer_net pick env st t) now myPriv peerPub ini c = Some (r, c')"
    and "never_closed c"
  shows "never_closed c'"
proof -
  let ?c = "peer_SetDeadline st st t (Some (now + handshakeTimeout)) c"
  have "\<exists>q c1. hs_run N C (peer_net pick env st t) myPriv peerPub ini ?c = Some (q, c1)
      \<and> c' = peer_SetDeadline st st t None c1"
    using assms(1) by (rule doHandshake_cases) auto
  then obtain q c1 where r: "hs_run N C (peer_net pick env st t) myPriv peerPub ini ?c = Some (q, c1)"
      and c': "c' = peer_SetDeadline st st t None c1" by blast
  have "never_closed c1"
    using r assms(2) hs_initiate_never_closed [of N pick env st t _ ?c]
      hs_respond_never_closed [of N pick env st t _ _ ?c]
    by (auto simp: hs_run_def split: sum.splits prod.splits if_splits)
  with c' show ?thesis by simp
qed

lemma handshake_raw:
  "doHandshake N C net now myPriv peerPub ini c = Some (Inr s, c') \<Longrightarrow> raw s = c'"
  by (erule doHandshake_cases) auto

text \<open>What both ends do with the result \<open>hr\<close> of the handshake.\<close>

definition tunnel_rest :: "string \<Rightarrow> string \<Rightarrow> (('c, 'cs) sconn \<Rightarrow> yamux_config \<Rightarrow> error + 'y) \<Rightarrow> yamux_config
    \<Rightarrow> 'c NetConn \<Rightarrow> (error + ('c, 'cs) sconn) \<Rightarrow> 'c \<Rightarrow> (error + 'y) \<times> 'c" where
  "tunnel_rest n w y cfg net hr c1 =
     (case hr of
        Inl e \<Rightarrow> (Inl (WrapError n e []), snd (cClose net c1))
      | Inr sec \<Rightarrow> (case y sec (yamuxConfig cfg) of
           Inl e \<Rightarrow> (Inl (WrapError w e []), raw (snd (secure_Close net sec)))
         | Inr sess \<Rightarrow> (Inr sess, c1)))"

lemma tunnel_Dial_rest:
  "tunnel_Dial N C net y cfg now myPriv peerPub c =
     map_option (\<lambda>(hr, c1). tunnel_rest ''noise client: '' ''yamux client: '' y cfg net hr c1)
       (doHandshake N C net now myPriv peerPub True c)"
  by (auto simp: tunnel_Dial_def tunnel_rest_def secure_Client_def split: option.splits sum.splits)

lemma tunnel_Serve_rest:
  "tunnel_Serve N C net y cfg now myPriv peerPub c =
     map_option (\<lambda>(hr, c1). tunnel_rest ''noise server: '' ''yamux server: '' y cfg net hr c1)
       (doHandshake N C net now myPriv peerPub False c)"
  by (auto simp: tunnel_Serve_def tunnel_rest_def secure_Server_def split: option.splits sum.splits)

lemma Close_fresh:
  "never_closed c \<Longrightarrow> dc_closes (snd (peer_Close None c)) = 1 \<and> ctx_done (snd (peer_Close None c))"
  by (simp add: peer_Close_def never_closed_def)

text \<open>
  The error of a tunnel: that of the handshake with the prefix \<open>n\<close>, or that of yamux on the connection
  that the handshake has returned, with the prefix \<open>w\<close>.
\<close>

definition layer_error :: "string \<Rightarrow> string \<Rightarrow> (('c, 'cs) sconn \<Rightarrow> yamux_config \<Rightarrow> error + 'y) \<Rightarrow> yamux_config
    \<Rightarrow> (error + ('c, 'cs) sconn) \<Rightarrow> error \<Rightarrow> bool" where
  "layer_error n w y cfg hr e \<longleftrightarrow>
     (case hr of
        Inl cause \<Rightarrow> err_is cause ErrHandshakeFailed \<and> e = WrapError n cause []
      | Inr sec \<Rightarrow> \<exists>cause. y sec (yamuxConfig cfg) = Inl cause \<and> e = WrapError w cause [])"

text \<open>What has become of the data channel at the end.\<close>

definition tunnel_outcome :: "string \<Rightarrow> string \<Rightarrow> ((pconn, 'cs) sconn \<Rightarrow> yamux_config \<Rightarrow> error + 'y) \<Rightarrow> yamux_config
    \<Rightarrow> (error + (pconn, 'cs) sconn) \<Rightarrow> (error + 'y) \<Rightarrow> pconn \<Rightarrow> bool" where
  "tunnel_outcome n w y cfg hr r c' \<longleftrightarrow>
     (case r of
        Inl e \<Rightarrow> layer_error n w y cfg hr e \<and> dc_closes c' = 1 \<and> ctx_done c'
      | Inr sess \<Rightarrow> (\<exists>sec. hr = Inr sec \<and> y sec (yamuxConfig cfg) = Inr sess) \<and> dc_closes c' = 0 \<and> \<not> close_once c')"

lemma tunnel_rest_closes:
  assumes h: "doHandshake N C (peer_net pick env st t) now myPriv peerPub ini NewConn = Some (hr, c1)"
    and r: "tunnel_rest n w y cfg (peer_net pick env st t) hr c1 = (r, c')"
  shows "tunnel_outcome n w y cfg hr r c'"
proof -
  have c1: "never_closed c1"
    by (rule handshake_never_closed [OF h]) (simp add: never_closed_def NewConn_def)
  show ?thesis
  proof (cases hr)
    case (Inl e)
    with h have "err_is e ErrHandshakeFailed"
      by (auto elim!: doHandshake_cases dest: hs_run_fails)
    with r Inl Close_fresh [OF c1] show ?thesis by (auto simp: tunnel_rest_def tunnel_outcome_def layer_error_def)
  next
    case (Inr sec)
    have "raw sec = c1" by (rule handshake_raw) (use h Inr in simp)
    with r Inr c1 Close_fresh [OF c1] show ?thesis
      by (auto simp: tunnel_rest_def tunnel_outcome_def layer_error_def secure_Close_def never_closed_def
          split: sum.splits prod.splits)
  qed
qed

lemma tunnel_run:
  assumes run: "map_option (\<lambda>(hr, c1). tunnel_rest n w y cfg (peer_net pick env st t) hr c1)
      (doHandshake N C (peer_net pick env st t) now myPriv peerPub ini NewConn) = Some (r, c')"
  shows "\<exists>hr c1. doHandshake N C (peer_net pick env st t) now myPriv peerPub ini NewConn = Some (hr, c1)
    \<and> tunnel_outcome n w y cfg hr r c'"
  using run tunnel_rest_closes by fastforce

text \<open>
  Property C29: no half-built tunnel survives. For both ends, on a fresh data channel: if the Noise
  handshake fails, the error is its error (a failed handshake) behind the name of that layer and end;
  if yamux refuses the secured connection, it is the error of yamux behind that name; in both cases
  the data channel has been closed, exactly once, and reads on it end. A tunnel that is returned is
  the session that yamux made of the secured connection, its data channel is open and nothing has
  closed it.
\<close>
theorem tunnel_failure_closes:
  "(tunnel_Dial N C (peer_net pick env st t) y cfg now myPriv peerPub NewConn = Some (r, c') \<longrightarrow>
     (\<exists>hr c1. secure_Client N C (peer_net pick env st t) now myPriv peerPub NewConn = Some (hr, c1)
        \<and> tunnel_outcome ''noise client: '' ''yamux client: '' y cfg hr r c'))
   \<and> (tunnel_Serve N C (peer_net pick env st t) y cfg now myPriv peerPub NewConn = Some (r, c') \<longrightarrow>
     (\<exists>hr c1. secure_Server N C (peer_net pick env st t) now myPriv peerPub NewConn = Some (hr, c1)
        \<and> tunnel_outcome ''noise server: '' ''yamux server: '' y cfg hr r c'))"
  unfolding tunnel_Dial_rest tunnel_Serve_rest secure_Client_def secure_Server_def
  by (intro conjI impI) (erule tunnel_run)+

definition demo_yamux :: yamux_config where
  "demo_yamux = \<lparr>LogOutput = [], KeepAliveInterval = 0, MaxStreamWindowSize = 0\<rparr>"

theorem tunnel_failure_closes_witness:
  "\<exists>r c' e. tunnel_Dial demo_noise demo_curve (peer_net 0 (\<lambda>_. calm) True 5) (\<lambda>_ _. Inr (0 :: nat)) demo_yamux 5 [] []
     NewConn = Some (r, c') \<and> r = Inl e \<and> dc_closes c' = 1"
proof -
  obtain e c' where d: "tunnel_Dial demo_noise demo_curve (peer_net 0 (\<lambda>_. calm) True 5) (\<lambda>_ _. Inr (0 :: nat))
      demo_yamux 5 [] [] NewConn = Some (Inl e, c')"
    by (auto simp: tunnel_Dial_def secure_Client_def doHandshake_def hs_run_def ed25519PrivToX25519_def Let_def)
  from tunnel_failure_closes [THEN conjunct1, THEN mp, OF d] have "dc_closes c' = 1"
    by (auto simp: tunnel_outcome_def)
  with d show ?thesis by blast
qed

end
