(* ===== verification/Proxy_Copy.thy ===== *)
theory Proxy_Copy
  imports Prelude
begin

text \<open>
  The second half of \<open>proxy\<close> in \<open>cmd/dav-client/main.go\<close>: two goroutines copy between the local
  connection and the stream, and the function returns with the first of them. Bytes arrive from
  both ends at any time. Closing a yamux stream ends its write side only; closing the local
  connection ends both sides. The fields of the second group record what has arrived in all.
\<close>

text \<open>\<open>io.Copy\<close>: about to read, holding a chunk that it has read, or returned, after the end of
  the input (\<open>True\<close>) or an error.\<close>

datatype copier = Reading | Holding bytes | Finished bool

record shuttle =
  px_req :: bytes
  px_req_eof :: bool
  px_resp :: bytes
  px_resp_eof :: bool
  px_up :: copier
  px_down :: copier
  to_stream :: bytes
  to_local :: bytes
  stream_fin :: bool
  local_shut :: bool
  px_done :: nat
  px_returned :: bool
  all_req :: bytes
  all_resp :: bytes

definition shuttle_start :: shuttle where
  "shuttle_start = \<lparr>px_req = [], px_req_eof = False, px_resp = [], px_resp_eof = False, px_up = Reading,
     px_down = Reading, to_stream = [], to_local = [], stream_fin = False, local_shut = False, px_done = 0,
     px_returned = False, all_req = [], all_resp = []\<rparr>"

subsection \<open>The actions\<close>

text \<open>The first goroutine: after its copy it closes the stream and reports.\<close>

definition up_finish :: "bool \<Rightarrow> shuttle \<Rightarrow> shuttle" where
  "up_finish clean s = s\<lparr>px_up := Finished clean, stream_fin := True, px_done := Suc (px_done s)\<rparr>"

definition up_read :: "nat \<Rightarrow> shuttle \<Rightarrow> shuttle" where
  "up_read n s =
     (if local_shut s then up_finish False s
      else if px_req s \<noteq> [] then
        s\<lparr>px_up := Holding (take (Suc n) (px_req s)), px_req := drop (Suc n) (px_req s)\<rparr>
      else if px_req_eof s then up_finish True s
      else s)"

text \<open>\<open>fault\<close>: the stream takes that many bytes of the chunk and then fails.\<close>

definition up_write :: "nat option \<Rightarrow> bytes \<Rightarrow> shuttle \<Rightarrow> shuttle" where
  "up_write fault b s =
     (if stream_fin s then up_finish False s
      else
        (case fault of
           None \<Rightarrow> s\<lparr>to_stream := to_stream s @ b, px_up := Reading\<rparr>
         | Some n \<Rightarrow> up_finish False (s\<lparr>to_stream := to_stream s @ take n b\<rparr>)))"

text \<open>The second goroutine only reports.\<close>

definition down_finish :: "bool \<Rightarrow> shuttle \<Rightarrow> shuttle" where
  "down_finish clean s = s\<lparr>px_down := Finished clean, px_done := Suc (px_done s)\<rparr>"

definition down_read :: "nat \<Rightarrow> shuttle \<Rightarrow> shuttle" where
  "down_read n s =
     (if px_resp s \<noteq> [] then
        s\<lparr>px_down := Holding (take (Suc n) (px_resp s)), px_resp := drop (Suc n) (px_resp s)\<rparr>
      else if px_resp_eof s then down_finish True s
      else s)"

definition down_write :: "nat option \<Rightarrow> bytes \<Rightarrow> shuttle \<Rightarrow> shuttle" where
  "down_write fault b s =
     (if local_shut s then down_finish False s
      else
        (case fault of
           None \<Rightarrow> s\<lparr>to_local := to_local s @ b, px_down := Reading\<rparr>
         | Some n \<Rightarrow> down_finish False (s\<lparr>to_local := to_local s @ take n b\<rparr>)))"

text \<open>The first report lets \<open>proxy\<close> return, which runs the deferred closes.\<close>

definition proxy_return :: "shuttle \<Rightarrow> shuttle" where
  "proxy_return s = s\<lparr>px_done := px_done s - 1, px_returned := True, stream_fin := True, local_shut := True\<rparr>"

inductive copy_step :: "shuttle \<Rightarrow> shuttle \<Rightarrow> bool" where
  req_arrives: "\<not> px_req_eof s \<Longrightarrow> copy_step s (s\<lparr>px_req := px_req s @ bs, all_req := all_req s @ bs\<rparr>)"
| req_ends: "copy_step s (s\<lparr>px_req_eof := True\<rparr>)"
| resp_arrives: "\<not> px_resp_eof s \<Longrightarrow> copy_step s (s\<lparr>px_resp := px_resp s @ bs, all_resp := all_resp s @ bs\<rparr>)"
| resp_ends: "copy_step s (s\<lparr>px_resp_eof := True\<rparr>)"
| up_reads: "px_up s = Reading \<Longrightarrow> copy_step s (up_read n s)"
| up_read_fails: "px_up s = Reading \<Longrightarrow> copy_step s (up_finish False s)"
| up_writes: "px_up s = Holding b \<Longrightarrow> copy_step s (up_write fault b s)"
| down_reads: "px_down s = Reading \<Longrightarrow> copy_step s (down_read n s)"
| down_read_fails: "px_down s = Reading \<Longrightarrow> copy_step s (down_finish False s)"
| down_writes: "px_down s = Holding b \<Longrightarrow> copy_step s (down_write fault b s)"
| returns: "0 < px_done s \<Longrightarrow> \<not> px_returned s \<Longrightarrow> copy_step s (proxy_return s)"

inductive copy_steps :: "shuttle \<Rightarrow> shuttle \<Rightarrow> bool" where
  none: "copy_steps s s"
| more: "copy_steps s t \<Longrightarrow> copy_step t u \<Longrightarrow> copy_steps s u"

subsection \<open>What has been passed on\<close>

fun in_hand :: "copier \<Rightarrow> bytes" where
  "in_hand (Holding b) = b"
| "in_hand _ = []"

text \<open>Input \<open>all\<close>, of which \<open>rest\<close> is unread, against the output of the copier.\<close>

definition passes :: "copier \<Rightarrow> bytes \<Rightarrow> bytes \<Rightarrow> bytes \<Rightarrow> bool \<Rightarrow> bool" where
  "passes c out rest inp eof \<longleftrightarrow>
     (case c of
        Finished clean \<Rightarrow> prefix out inp \<and> (clean \<longrightarrow> out = inp \<and> eof)
      | _ \<Rightarrow> inp = out @ in_hand c @ rest)"

definition copy_inv :: "shuttle \<Rightarrow> bool" where
  "copy_inv s \<longleftrightarrow> passes (px_up s) (to_stream s) (px_req s) (all_req s) (px_req_eof s)
     \<and> passes (px_down s) (to_local s) (px_resp s) (all_resp s) (px_resp_eof s)
     \<and> (0 < px_done s \<or> px_returned s \<longrightarrow> (\<exists>c. px_up s = Finished c) \<or> (\<exists>c. px_down s = Finished c))"

lemma prefix_take_append [simp]: "prefix (take n b) (b @ xs)"
  by (metis append.assoc append_take_drop_id prefixI)

lemmas copy_defs = up_finish_def up_read_def up_write_def down_finish_def down_read_def down_write_def proxy_return_def

lemma copy_inv_step:
  assumes "copy_step s t" and "copy_inv s"
  shows "copy_inv t"
  using assms
  by (cases rule: copy_step.cases)
     (auto simp: copy_inv_def passes_def copy_defs append_take_drop_id split: copier.splits option.splits if_splits)

lemma copy_inv_steps: "copy_steps s t \<Longrightarrow> copy_inv s \<Longrightarrow> copy_inv t"
  by (induction rule: copy_steps.induct) (auto intro: copy_inv_step)

lemma copy_inv_start: "copy_inv shuttle_start"
  by (simp add: copy_inv_def passes_def shuttle_start_def)

text \<open>
  Property C22: nothing is invented, reordered or skipped in either direction: whatever the
  interleaving, what the proxy has written to one end is a prefix of what arrived from the other.
  If the proxy has returned while the local client had not ended its side, then it is because the
  response ended or a copy failed; and a copy that ended without an error has passed on everything.
\<close>
theorem proxy_copies_in_order:
  assumes "copy_steps shuttle_start s"
  shows "prefix (to_stream s) (all_req s) \<and> prefix (to_local s) (all_resp s)
    \<and> (px_down s = Finished True \<longrightarrow> to_local s = all_resp s \<and> px_resp_eof s)
    \<and> (px_up s = Finished True \<longrightarrow> to_stream s = all_req s \<and> px_req_eof s)
    \<and> (px_returned s \<longrightarrow> px_up s \<in> {Finished True, Finished False} \<or> px_down s \<in> {Finished True, Finished False})"
proof -
  have i: "copy_inv s" using copy_inv_steps [OF assms copy_inv_start] .
  have p: "prefix out inp" if "passes c out rest inp eof" for c out rest inp eof
    using that by (auto simp: passes_def split: copier.splits)
  have f: "c \<in> {Finished True, Finished False}" if "c = Finished x" for c x using that by (cases x) auto
  show ?thesis
    using i p f unfolding copy_inv_def by (auto simp: passes_def)
qed

lemma copy_steps_one: "copy_step s t \<Longrightarrow> copy_steps s t"
  using copy_steps.more [OF copy_steps.none] .

lemma copy_steps_trans: "copy_steps t u \<Longrightarrow> copy_steps s t \<Longrightarrow> copy_steps s u"
  by (induction rule: copy_steps.induct) (auto intro: copy_steps.more)

lemma shut_local_step: "copy_step s t \<Longrightarrow> local_shut s \<Longrightarrow> local_shut t \<and> to_local t = to_local s"
  by (cases rule: copy_step.cases) (auto simp: copy_defs split: option.splits)

lemma shut_local_steps: "copy_steps s t \<Longrightarrow> local_shut s \<Longrightarrow> local_shut t \<and> to_local t = to_local s"
  by (induction rule: copy_steps.induct) (auto dest: shut_local_step)

text \<open>A copy that has ended has reported, and only \<open>proxy\<close> takes the reports.\<close>

fun ended :: "copier \<Rightarrow> nat" where
  "ended (Finished clean) = 1"
| "ended _ = 0"

definition reported :: "shuttle \<Rightarrow> bool" where
  "reported s \<longleftrightarrow> px_done s + (if px_returned s then 1 else 0) = ended (px_up s) + ended (px_down s)"

lemma reported_step: "copy_step s t \<Longrightarrow> reported s \<Longrightarrow> reported t"
  by (cases rule: copy_step.cases) (auto simp: reported_def copy_defs split: option.splits if_splits)

lemma reported_steps: "copy_steps s t \<Longrightarrow> reported s \<Longrightarrow> reported t"
  by (induction rule: copy_steps.induct) (auto intro: reported_step)

lemma reported_start: "reported shuttle_start"
  by (simp add: reported_def shuttle_start_def)

text \<open>
  The run in which the client sends its request and ends its side, while the response arrives and the
  second goroutine passes on its first \<open>k\<close> bytes before \<open>proxy\<close> returns.
\<close>

definition half_closed :: "bytes \<Rightarrow> bytes \<Rightarrow> nat \<Rightarrow> shuttle" where
  "half_closed req resp k = \<lparr>px_req = [], px_req_eof = True, px_resp = drop k resp, px_resp_eof = True,
     px_up = Finished True, px_down = Reading, to_stream = req, to_local = take k resp, stream_fin = True,
     local_shut = True, px_done = 0, px_returned = True, all_req = req, all_resp = resp\<rparr>"

lemma half_close_run:
  assumes "req \<noteq> []" and "k \<le> length resp"
  shows "copy_steps shuttle_start (half_closed req resp k)"
proof -
  let ?s1 = "shuttle_start\<lparr>px_req := req, all_req := req\<rparr>"
  let ?s2 = "?s1\<lparr>px_req_eof := True\<rparr>"
  let ?s3 = "?s2\<lparr>px_req := [], px_up := Holding req\<rparr>"
  let ?s4 = "?s3\<lparr>px_up := Reading, to_stream := req\<rparr>"
  let ?s5 = "?s4\<lparr>px_resp := resp, all_resp := resp\<rparr>"
  let ?s6 = "?s5\<lparr>px_resp_eof := True\<rparr>"
  let ?s7 = "?s6\<lparr>px_resp := drop k resp, to_local := take k resp\<rparr>"
  let ?s8 = "up_finish True ?s7"
  note step = copy_steps.more [rotated]
  have "copy_step shuttle_start ?s1" using req_arrives [of shuttle_start req] by (simp add: shuttle_start_def)
  then have "copy_steps shuttle_start ?s1" by (rule copy_steps_one)
  then have "copy_steps shuttle_start ?s2" by (rule step [OF req_ends])
  moreover have "copy_step ?s2 ?s3"
    using up_reads [of ?s2 "length req"] assms(1) by (simp add: shuttle_start_def up_read_def)
  ultimately have "copy_steps shuttle_start ?s3" by (rule copy_steps.more)
  moreover have "copy_step ?s3 ?s4"
    using up_writes [of ?s3 req None] by (simp add: shuttle_start_def up_write_def)
  ultimately have "copy_steps shuttle_start ?s4" by (rule copy_steps.more)
  moreover have "copy_step ?s4 ?s5"
    using resp_arrives [of ?s4 resp] by (simp add: shuttle_start_def)
  ultimately have "copy_steps shuttle_start ?s5" by (rule copy_steps.more)
  then have s6: "copy_steps shuttle_start ?s6" by (rule step [OF resp_ends])
  have s7: "copy_steps shuttle_start ?s7"
  proof (cases k)
    case 0
    with s6 show ?thesis by (simp add: shuttle_start_def)
  next
    case (Suc n)
    let ?h = "?s6\<lparr>px_resp := drop k resp, px_down := Holding (take k resp)\<rparr>"
    have ne: "resp \<noteq> []" using Suc assms(2) by auto
    have "copy_step ?s6 ?h"
      using down_reads [of ?s6 n] Suc ne by (simp add: shuttle_start_def down_read_def)
    with s6 have "copy_steps shuttle_start ?h" by (rule copy_steps.more)
    moreover have "copy_step ?h ?s7"
      using down_writes [of ?h "take k resp" None] by (simp add: shuttle_start_def down_write_def)
    ultimately show ?thesis by (rule copy_steps.more)
  qed
  moreover have "copy_step ?s7 ?s8" using up_reads [of ?s7 0] by (simp add: shuttle_start_def up_read_def)
  ultimately have "copy_steps shuttle_start ?s8" by (rule copy_steps.more)
  moreover have "copy_step ?s8 (proxy_return ?s8)" by (rule returns) (simp_all add: shuttle_start_def up_finish_def)
  ultimately have "copy_steps shuttle_start (proxy_return ?s8)" by (rule copy_steps.more)
  moreover have "proxy_return ?s8 = half_closed req resp k"
    by (simp add: half_closed_def shuttle_start_def up_finish_def proxy_return_def)
  ultimately show ?thesis by simp
qed

text \<open>
  Property C23: a client that half-closes after its request can lose the response. As soon as the end
  of its side has been passed on, in whatever state of the response, \<open>proxy\<close> may return; it closes
  the local connection, and after that not one more byte of the response is delivered, however the run
  goes on. So how much of the response the client gets is up to the scheduler: for every prefix of the
  response, the empty one included, there is a run in which the request was passed on whole, the whole
  response arrived at the proxy, and the client got that prefix and never more.
\<close>
theorem half_close_loses_response:
  assumes "req \<noteq> []" and "k \<le> length resp"
  shows "(copy_steps shuttle_start s \<and> px_up s = Finished clean \<and> \<not> px_returned s \<longrightarrow>
         copy_step s (proxy_return s) \<and> (\<forall>t. copy_steps (proxy_return s) t \<longrightarrow> to_local t = to_local s))
    \<and> (\<exists>r. copy_steps shuttle_start r \<and> to_stream r = req \<and> stream_fin r \<and> all_resp r = resp \<and> px_resp_eof r
         \<and> (\<forall>t. copy_steps r t \<longrightarrow> to_local t = take k resp))"
proof (intro conjI impI)
  assume s: "copy_steps shuttle_start s \<and> px_up s = Finished clean \<and> \<not> px_returned s"
  then have "reported s" using reported_steps [OF _ reported_start] by blast
  with s have "0 < px_done s" by (simp add: reported_def)
  with s show "copy_step s (proxy_return s)" using returns by blast
  show "\<forall>t. copy_steps (proxy_return s) t \<longrightarrow> to_local t = to_local s"
    using shut_local_steps [of "proxy_return s"] by (simp add: proxy_return_def)
next
  have "to_local t = take k resp" if "copy_steps (half_closed req resp k) t" for t
    using shut_local_steps [OF that] by (simp add: half_closed_def)
  with half_close_run [OF assms]
  show "\<exists>r. copy_steps shuttle_start r \<and> to_stream r = req \<and> stream_fin r \<and> all_resp r = resp \<and> px_resp_eof r
      \<and> (\<forall>t. copy_steps r t \<longrightarrow> to_local t = take k resp)"
    by (intro exI [of _ "half_closed req resp k"]) (simp add: half_closed_def)
qed

theorem half_close_loses_response_witness:
  "\<exists>s. copy_steps shuttle_start s \<and> to_stream s = [71, 69, 84] \<and> all_resp s = [50, 48, 48] \<and> to_local s = []"
proof -
  have "[71, 69, 84 :: byte] \<noteq> []" "0 \<le> length [50, 48, 48 :: byte]" by simp_all
  from half_close_loses_response [OF this, of shuttle_start True]
  obtain r where r: "copy_steps shuttle_start r" "to_stream r = [71, 69, 84]" "all_resp r = [50, 48, 48]"
    and "\<forall>t. copy_steps r t \<longrightarrow> to_local t = take 0 [50, 48, 48]" by blast
  with copy_steps.none [of r] have "to_local r = []" by simp
  with r show ?thesis by blast
qed

theorem proxy_copies_in_order_witness:
  "prefix (to_stream (half_closed [1, 2] [3] 0)) [1, 2] \<and> to_stream (half_closed [1, 2] [3] 0) = [1, 2]"
  using proxy_copies_in_order [OF half_close_run, of "[1, 2]" 0 "[3]"] by (simp add: half_closed_def)

end
