(* ===== verification/Tofu_Store.thy ===== *)
theory Tofu_Store
  imports Go_Error
begin

text \<open>
  Trust on first use, as an interface: what the commands rely on in whatever verifies a peer.
  \<open>pins\<close> is the abstract state of the store, a map from aliases to the form \<open>repr\<close> of a key that
  the store keeps; \<open>good\<close> says which keys are well formed, and \<open>off\<close> for which aliases the check is
  disabled.
\<close>

definition tofu_spec :: "string \<Rightarrow> 'p \<Rightarrow> (string \<Rightarrow> 'p option) \<Rightarrow> (string \<Rightarrow> 'p option)" where
  "tofu_spec alias key m = (case m alias of None \<Rightarrow> m(alias \<mapsto> key) | Some _ \<Rightarrow> m)"

lemma tofu_spec_keeps: "m a = Some p \<Longrightarrow> tofu_spec b q m a = Some p"
  by (auto simp: tofu_spec_def split: option.splits)

locale tofu_store =
  fixes check :: "'env \<Rightarrow> string \<Rightarrow> 'k \<Rightarrow> 's \<Rightarrow> error option \<times> 's"
    and pins :: "'s \<Rightarrow> string \<Rightarrow> 'p option"
    and repr :: "'k \<Rightarrow> 'p"
    and inv :: "'s \<Rightarrow> bool"
    and good :: "string \<Rightarrow> 'k \<Rightarrow> bool"
    and off :: "string \<Rightarrow> bool"
    and mismatch :: error
  assumes check_inv: "inv s \<Longrightarrow> good a k \<Longrightarrow> check env a k s = (e, s') \<Longrightarrow> inv s'"
    and check_pins: "inv s \<Longrightarrow> good a k \<Longrightarrow> check env a k s = (e, s') \<Longrightarrow>
      pins s' = tofu_spec a (repr k) (pins s)"
    and check_differs: "inv s \<Longrightarrow> good a k \<Longrightarrow> check env a k s = (e, s') \<Longrightarrow>
      pins s a = Some p \<Longrightarrow> p \<noteq> repr k \<Longrightarrow> \<exists>err. e = Some err \<and> err_is err mismatch"
    and check_bad: "inv s \<Longrightarrow> \<not> good a k \<Longrightarrow> check env a k s = (e, s') \<Longrightarrow>
      s' = s \<and> (off a \<or> e \<noteq> None)"
begin

text \<open>A history of checks, with the outcome of each: accepted or not.\<close>

fun checks :: "('env \<times> string \<times> 'k) list \<Rightarrow> 's \<Rightarrow> bool list \<times> 's" where
  "checks [] s = ([], s)"
| "checks ((env, a, k) # cs) s =
     (case check env a k s of
        (e, s1) \<Rightarrow> (case checks cs s1 of (oks, s2) \<Rightarrow> ((e = None) # oks, s2)))"

lemma step_inv: "inv s \<Longrightarrow> check env a k s = (e, s') \<Longrightarrow> inv s'"
  using check_inv check_bad by blast

lemma step_keeps_pin: "inv s \<Longrightarrow> check env a k s = (e, s') \<Longrightarrow> pins s b = Some p \<Longrightarrow> pins s' b = Some p"
  using check_pins check_bad tofu_spec_keeps by metis

text \<open>An accepted key is the pinned one afterwards.\<close>

lemma step_accepts:
  assumes "inv s" and "check env a k s = (None, s')" and "\<not> off a"
  shows "pins s' a = Some (repr k) \<and> (\<forall>p. pins s a = Some p \<longrightarrow> p = repr k)"
proof -
  have g: "good a k" using check_bad assms by blast
  have d: "p = repr k" if "pins s a = Some p" for p
    using check_differs [OF assms(1) g assms(2) that] by auto
  show ?thesis
    using d check_pins [OF assms(1) g assms(2)] by (auto simp: tofu_spec_def split: option.splits)
qed

lemma checks_keep_pin:
  "inv s \<Longrightarrow> checks cs s = (oks, s') \<Longrightarrow> pins s a = Some p \<Longrightarrow> inv s' \<and> pins s' a = Some p"
proof (induction cs arbitrary: s oks)
  case Nil
  then show ?case by simp
next
  case (Cons c cs)
  obtain env b kb where c: "c = (env, b, kb)" by (metis prod.exhaust)
  obtain e s1 where ch: "check env b kb s = (e, s1)" by (metis prod.exhaust)
  obtain oks2 where rest: "checks cs s1 = (oks2, s')"
    using Cons.prems(2) c ch by (auto split: prod.splits)
  show ?case
    using Cons.IH [OF step_inv [OF Cons.prems(1) ch] rest step_keeps_pin [OF Cons.prems(1) ch Cons.prems(3)]] .
qed

text \<open>The keys that are accepted for a pinned alias are the pinned one.\<close>

lemma accepted_is_pinned:
  "inv s \<Longrightarrow> \<not> off a \<Longrightarrow> checks cs s = (oks, s') \<Longrightarrow> pins s a = Some p \<Longrightarrow>
     i < length cs \<Longrightarrow> oks ! i \<Longrightarrow> cs ! i = (env, a, k) \<Longrightarrow> repr k = p"
proof (induction cs arbitrary: s oks i)
  case Nil
  then show ?case by simp
next
  case (Cons c cs)
  obtain env' b kb where c: "c = (env', b, kb)" by (metis prod.exhaust)
  obtain e s1 where ch: "check env' b kb s = (e, s1)" by (metis prod.exhaust)
  obtain oks2 where rest: "checks cs s1 = (oks2, s')"
    using Cons.prems(3) c ch by (auto split: prod.splits)
  have oks: "oks = (e = None) # oks2" using Cons.prems(3) c ch rest by simp
  show ?case
  proof (cases i)
    case 0
    with Cons.prems(6,7) oks c have "e = None" "b = a" "kb = k" by auto
    with step_accepts Cons.prems(1,2,4) ch show ?thesis by metis
  next
    case (Suc j)
    note inv1 = step_inv [OF Cons.prems(1) ch] and pin1 = step_keeps_pin [OF Cons.prems(1) ch Cons.prems(4)]
    from Cons.IH [OF inv1 Cons.prems(2) rest pin1, of j] Cons.prems(5-7) Suc oks show ?thesis by simp
  qed
qed

text \<open>Two keys accepted for one alias in one history are the same key.\<close>

lemma accepted_keys_agree:
  "inv s \<Longrightarrow> \<not> off a \<Longrightarrow> checks cs s = (oks, s') \<Longrightarrow> i < j \<Longrightarrow> j < length cs \<Longrightarrow>
     oks ! i \<Longrightarrow> oks ! j \<Longrightarrow> cs ! i = (env, a, k) \<Longrightarrow> cs ! j = (env', a, k') \<Longrightarrow> repr k = repr k'"
proof (induction cs arbitrary: s oks i j)
  case Nil
  then show ?case by simp
next
  case (Cons c cs)
  obtain env1 b kb where c: "c = (env1, b, kb)" by (metis prod.exhaust)
  obtain e s1 where ch: "check env1 b kb s = (e, s1)" by (metis prod.exhaust)
  obtain oks2 where rest: "checks cs s1 = (oks2, s')"
    using Cons.prems(3) c ch by (auto split: prod.splits)
  have oks: "oks = (e = None) # oks2" using Cons.prems(3) c ch rest by simp
  note inv1 = step_inv [OF Cons.prems(1) ch]
  obtain j' where j': "j = Suc j'" using Cons.prems(4) by (cases j) auto
  show ?case
  proof (cases i)
    case 0
    with Cons.prems(6,8) oks c have e: "e = None" "b = a" "kb = k" by auto
    with step_accepts Cons.prems(1,2) ch have pin: "pins s1 a = Some (repr k)" by metis
    from accepted_is_pinned [OF inv1 Cons.prems(2) rest pin, of j'] Cons.prems(5,7,9) j' oks
    show ?thesis by simp
  next
    case (Suc i')
    from Cons.IH [OF inv1 Cons.prems(2) rest, of i' j'] Cons.prems(4-9) Suc j' oks show ?thesis by simp
  qed
qed

end

end
