(* ===== verification/Go_Disk.thy ===== *)
theory Go_Disk
  imports Go_Error
begin

text \<open>
  The file system as the identity store uses it: a map from paths to contents. A call either
  does its work or fails with an error that the environment chooses; a failed or interrupted
  \<open>os.WriteFile\<close> leaves an arbitrary prefix of the data behind, while \<open>os.Rename\<close> is atomic.
\<close>

type_synonym disk = "string \<Rightarrow> string option"

definition MkdirAll :: "error option \<Rightarrow> disk \<Rightarrow> error option \<times> disk" where
  "MkdirAll fault d = (fault, d)"

definition ReadFile :: "error option \<Rightarrow> string \<Rightarrow> disk \<Rightarrow> error + string" where
  "ReadFile fault p d =
     (case fault of Some e \<Rightarrow> Inl e
      | None \<Rightarrow> (case d p of None \<Rightarrow> Inl fs_ErrNotExist | Some s \<Rightarrow> Inr s))"

text \<open>A fault comes with the number of bytes that reach the disk.\<close>

definition WriteFile :: "(error \<times> nat) option \<Rightarrow> string \<Rightarrow> string \<Rightarrow> disk \<Rightarrow> error option \<times> disk" where
  "WriteFile fault p s d =
     (case fault of Some (e, n) \<Rightarrow> (Some e, d(p \<mapsto> take n s)) | None \<Rightarrow> (None, d(p \<mapsto> s)))"

definition Rename :: "error option \<Rightarrow> string \<Rightarrow> string \<Rightarrow> disk \<Rightarrow> error option \<times> disk" where
  "Rename fault src dst d =
     (case fault of Some e \<Rightarrow> (Some e, d)
      | None \<Rightarrow>
          (case d src of None \<Rightarrow> (Some fs_ErrNotExist, d)
           | Some s \<Rightarrow> (None, (d(src := None))(dst \<mapsto> s))))"

text \<open>\<open>filepath.Join\<close> of a clean directory name and a base name.\<close>

definition path_join :: "string \<Rightarrow> string \<Rightarrow> string" where
  "path_join dir base = dir @ ''/'' @ base"

end
