(* ===== verification/Go_Base64.thy ===== *)
theory Go_Base64
  imports Go_Error
begin

text \<open>
  \<open>base64.RawStdEncoding\<close> of the Go library, bit by bit as RFC 4648 has it: the standard
  alphabet, no padding, the last group filled with zero bits. Like Go's decoder, the decoder
  skips line breaks and does not check the filling bits. The offset in the error text of a
  corrupt input is not modelled.
\<close>

definition bits_of :: "nat \<Rightarrow> nat \<Rightarrow> bool list" where
  "bits_of k n = map (bit n) (rev [0..<k])"

fun nat_of_bits :: "bool list \<Rightarrow> nat" where
  "nat_of_bits [] = 0"
| "nat_of_bits (b # bs) = (if b then 2 ^ length bs else 0) + nat_of_bits bs"

lemma length_bits_of [simp]: "length (bits_of k n) = k"
  by (simp add: bits_of_def)

lemma bits_of_Suc: "bits_of (Suc k) n = bit n k # bits_of k n"
  by (simp add: bits_of_def)

lemma nat_of_bits_of: "nat_of_bits (bits_of k n) = take_bit k n"
proof (induction k)
  case 0
  then show ?case by (simp add: bits_of_def)
next
  case (Suc k)
  then show ?case by (simp add: bits_of_Suc take_bit_Suc_from_most)
qed

lemma bits_of_take_bit: "bits_of k (take_bit k n) = bits_of k n"
  by (auto simp: bits_of_def bit_take_bit_iff)

lemma nat_of_bits_bound: "nat_of_bits bs < 2 ^ length bs"
  by (induction bs) auto

lemma bits_of_nat_of_bits: "bits_of (length bs) (nat_of_bits bs) = bs"
proof (induction bs)
  case Nil
  then show ?case by (simp add: bits_of_def)
next
  case (Cons b bs)
  let ?n = "nat_of_bits (b # bs)" and ?k = "length bs"
  have lt: "nat_of_bits bs < 2 ^ ?k" by (rule nat_of_bits_bound)
  then have "?n div 2 ^ ?k = (if b then 1 else 0)"
    by (auto simp: div_add_self1 div_eq_0_iff)
  then have top: "bit ?n ?k = b" by (simp add: bit_iff_odd)
  have "take_bit ?k ?n = nat_of_bits bs" using lt by (auto simp: take_bit_eq_mod)
  then have "bits_of ?k ?n = bs" using Cons bits_of_take_bit [of ?k ?n] by simp
  with top show ?case by (simp add: bits_of_Suc)
qed

subsection \<open>Bytes and their bits\<close>

definition byte_bits :: "byte \<Rightarrow> bool list" where
  "byte_bits b = bits_of 8 (unat b)"

definition byte_of_bits :: "bool list \<Rightarrow> byte" where
  "byte_of_bits bs = word_of_nat (nat_of_bits bs)"

lemma byte_of_byte_bits [simp]: "byte_of_bits (byte_bits b) = b"
proof -
  have "unat b < 2 ^ 8" using unsigned_less [of b, where ?'a = nat] by simp
  then have "take_bit 8 (unat b) = unat b" by (rule take_bit_nat_eq_self)
  then show ?thesis by (simp add: byte_of_bits_def byte_bits_def nat_of_bits_of)
qed

lemma length_byte_bits [simp]: "length (byte_bits b) = 8"
  by (simp add: byte_bits_def)

lemma length_bits_of_bytes [simp]: "length (concat (map byte_bits bs)) = 8 * length bs"
  by (induction bs) simp_all

lemma chunks_byte_bits: "chunks 8 (concat (map byte_bits bs)) = map byte_bits bs"
proof (induction bs)
  case (Cons b bs)
  have "byte_bits b @ concat (map byte_bits bs) \<noteq> []"
    by (metis append_is_Nil_conv length_byte_bits list.size(3) zero_neq_numeral)
  with Cons show ?case by (simp add: chunks_step)
qed simp

subsection \<open>Encoding and decoding\<close>

definition alphabet :: string where
  "alphabet = ''ABCDEFGHIJKLMNOPQRSTUVWXYZabcdefghijklmnopqrstuvwxyz0123456789+/''"

definition pad6 :: "bool list \<Rightarrow> bool list" where
  "pad6 g = g @ replicate (6 - length g) False"

definition EncodeToString :: "bytes \<Rightarrow> string" where
  "EncodeToString bs =
     map (\<lambda>g. alphabet ! nat_of_bits (pad6 g)) (chunks 6 (concat (map byte_bits bs)))"

fun index_of :: "char \<Rightarrow> string \<Rightarrow> nat option" where
  "index_of c [] = None"
| "index_of c (d # ds) = (if c = d then Some 0 else map_option Suc (index_of c ds))"

definition corrupt_input :: error where
  "corrupt_input = ErrorString ''illegal base64 data''"

definition DecodeString :: "string \<Rightarrow> error + bytes" where
  "DecodeString s =
     (let t = filter (\<lambda>c. c \<noteq> CHR 0x0D \<and> c \<noteq> CHR 0x0A) s
      in if list_ex (\<lambda>c. c \<notin> set alphabet) t \<or> length t mod 4 = 1 then Inl corrupt_input
         else
           (let bits = concat (map (\<lambda>c. bits_of 6 (the (index_of c alphabet))) t)
            in Inr (map byte_of_bits (chunks 8 (take (8 * (length bits div 8)) bits)))))"

lemma alphabet_length: "length alphabet = 64"
  by (simp add: alphabet_def)

lemma alphabet_distinct: "distinct alphabet"
  by (simp add: alphabet_def)

lemma index_of_nth: "distinct xs \<Longrightarrow> i < length xs \<Longrightarrow> index_of (xs ! i) xs = Some i"
proof (induction xs arbitrary: i)
  case (Cons x xs)
  then show ?case by (cases i) auto
qed simp

lemma index_of_alphabet: "i < 64 \<Longrightarrow> index_of (alphabet ! i) alphabet = Some i"
  by (rule index_of_nth [OF alphabet_distinct]) (simp add: alphabet_length)

lemma alphabet_no_newline: "c \<in> set alphabet \<Longrightarrow> c \<noteq> CHR 0x0D \<and> c \<noteq> CHR 0x0A"
  by (auto simp: alphabet_def)

lemma length_pad6: "length g \<le> 6 \<Longrightarrow> length (pad6 g) = 6"
  by (simp add: pad6_def)

text \<open>The groups, filled up, are the bits followed by fewer than six zeros.\<close>

lemma concat_pad6:
  "\<exists>r. concat (map pad6 (chunks 6 xs)) = xs @ replicate r False \<and> r < 6
     \<and> (length xs + r) = 6 * length (chunks 6 xs)"
proof (induction "6 :: nat" xs rule: chunks.induct)
  case (1 xs)
  show ?case
  proof (cases "length xs \<le> 6")
    case True
    show ?thesis
    proof (cases "xs = []")
      case False
      with True have "chunks 6 xs = [xs]" using chunks_step [of xs 6] by simp
      with True False show ?thesis
        by (intro exI [of _ "6 - length xs"]) (cases xs; simp add: pad6_def)
    qed simp
  next
    case False
    then have ne: "xs \<noteq> []" by auto
    with 1 obtain r where r: "concat (map pad6 (chunks 6 (drop 6 xs))) = drop 6 xs @ replicate r False"
        "r < 6" "length (drop 6 xs) + r = 6 * length (chunks 6 (drop 6 xs))" by auto
    have c: "chunks 6 xs = take 6 xs # chunks 6 (drop 6 xs)" using ne by (simp add: chunks_step)
    have "pad6 (take 6 xs) = take 6 xs" using False by (simp add: pad6_def)
    with r c False show ?thesis by (intro exI [of _ r]) simp
  qed
qed

lemma encode_chars:
  assumes "g \<in> set (chunks 6 xs)"
  shows "alphabet ! nat_of_bits (pad6 g) \<in> set alphabet
    \<and> bits_of 6 (the (index_of (alphabet ! nat_of_bits (pad6 g)) alphabet)) = pad6 g"
proof -
  have len: "length (pad6 g) = 6" using chunks_bound [OF assms] by (simp add: length_pad6)
  have lt: "nat_of_bits (pad6 g) < 64" using nat_of_bits_bound [of "pad6 g"] len by simp
  with bits_of_nat_of_bits [of "pad6 g"] len show ?thesis
    by (simp add: index_of_alphabet alphabet_length)
qed

lemma groups_not_one: "r < 6 \<Longrightarrow> 8 * n + r = 6 * m \<Longrightarrow> m mod 4 \<noteq> (1 :: nat)"
  by presburger

text \<open>What \<open>EncodeToString\<close> produces, \<open>DecodeString\<close> reads back.\<close>

lemma base64_roundtrip: "DecodeString (EncodeToString bs) = Inr bs"
proof -
  let ?B = "concat (map byte_bits bs)"
  let ?s = "EncodeToString bs"
  obtain r where r: "concat (map pad6 (chunks 6 ?B)) = ?B @ replicate r False" "r < 6"
      "length ?B + r = 6 * length (chunks 6 ?B)"
    using concat_pad6 by blast
  have chars: "set ?s \<subseteq> set alphabet" using encode_chars by (auto simp: EncodeToString_def)
  have t: "filter (\<lambda>c. c \<noteq> CHR 0x0D \<and> c \<noteq> CHR 0x0A) ?s = ?s"
    using chars alphabet_no_newline by (intro filter_True) blast
  have "length ?s = length (chunks 6 ?B)" by (simp add: EncodeToString_def)
  then have len: "length ?s mod 4 \<noteq> 1"
    using groups_not_one [OF r(2), of "length bs" "length ?s"] r(3) by simp
  have "map (\<lambda>c. bits_of 6 (the (index_of c alphabet))) ?s = map pad6 (chunks 6 ?B)"
    using encode_chars by (auto simp: EncodeToString_def)
  then have bits: "concat (map (\<lambda>c. bits_of 6 (the (index_of c alphabet))) ?s) = ?B @ replicate r False"
    using r(1) by simp
  have "8 * (length (?B @ replicate r False) div 8) = length ?B" using r(2) by simp
  then have "take (8 * (length (?B @ replicate r False) div 8)) (?B @ replicate r False) = ?B" by simp
  moreover have "\<not> list_ex (\<lambda>c. c \<notin> set alphabet) ?s" using chars by (auto simp: list_ex_iff)
  ultimately show ?thesis
    unfolding DecodeString_def Let_def t bits using len by (simp add: chunks_byte_bits comp_def)
qed

end
