(* ===== verification/Identity.thy ===== *)
theory Identity
  imports Go_Disk Go_Base64 Go_Format
begin

text \<open>
  The long-term identity of \<open>internal/identity/identity.go\<close>. \<open>NewKeyFromSeed\<close> is the library's
  key derivation; a private key is the seed followed by the public key. Files hold bytes;
  here they are strings, and \<open>bytes_of\<close> and \<open>string_of\<close> go back and forth.
\<close>

definition string_of :: "bytes \<Rightarrow> string" where
  "string_of = map (\<lambda>b. char_of (unat b))"

definition bytes_of :: "string \<Rightarrow> bytes" where
  "bytes_of = map (\<lambda>c. word_of_nat (of_char c))"

lemma bytes_of_string_of [simp]: "bytes_of (string_of bs) = bs"
proof -
  have "(word_of_nat (of_char (char_of (unat b) :: char)) :: byte) = b" for b :: byte
  proof -
    have "unat b mod 256 = unat b" using unsigned_less [of b, where ?'a = nat] by simp
    then show ?thesis by (simp add: of_char_of)
  qed
  then show ?thesis by (simp add: bytes_of_def string_of_def comp_def)
qed

lemma length_string_of [simp]: "length (string_of bs) = length bs"
  by (simp add: string_of_def)

lemma length_bytes_of [simp]: "length (bytes_of s) = length s"
  by (simp add: bytes_of_def)

definition seedFile :: string where "seedFile = ''identity.key''"

record Identity =
  Private :: bytes
  Public :: bytes

definition PublicBase64 :: "Identity \<Rightarrow> string" where
  "PublicBase64 idn = EncodeToString (Public idn)"

text \<open>What can go wrong around a load, and the random bytes that the system hands out.\<close>

record id_env =
  ie_mkdir :: "error option"
  ie_read :: "error option"
  ie_rand :: "error + bytes"
  ie_write :: "(error \<times> nat) option"

definition LoadOrCreate :: "(bytes \<Rightarrow> bytes) \<Rightarrow> id_env \<Rightarrow> string \<Rightarrow> disk \<Rightarrow> (error + Identity) \<times> disk" where
  "LoadOrCreate NewKeyFromSeed env dir d =
     (case MkdirAll (ie_mkdir env) d of
        (Some e, d1) \<Rightarrow> (Inl (WrapError ''mkdir identity dir: '' e []), d1)
      | (None, d1) \<Rightarrow>
          (let path = path_join dir seedFile;
               load = (\<lambda>seed. let priv = NewKeyFromSeed seed
                              in Inr \<lparr>Private = priv, Public = drop 32 priv\<rparr>)
           in (case ReadFile (ie_read env) path d1 of
                 Inl err \<Rightarrow>
                   if err_is err fs_ErrNotExist
                   then
                     (case ie_rand env of
                        Inl e \<Rightarrow> (Inl (WrapError ''generate seed: '' e []), d1)
                      | Inr seed \<Rightarrow>
                          (case WriteFile (ie_write env) path (string_of seed) d1 of
                             (Some e, d2) \<Rightarrow> (Inl (WrapError ''write seed: '' e []), d2)
                           | (None, d2) \<Rightarrow> (load seed, d2)))
                   else (Inl (WrapError ''read seed: '' err []), d1)
               | Inr s \<Rightarrow>
                   if length s \<noteq> 32
                   then (Inl (ErrorString (''seed file '' @ path @ '': want 32 bytes, got ''
                                @ dec_string (length s))), d1)
                   else (load (bytes_of s), d1))))"

definition ParsePublic :: "string \<Rightarrow> error + bytes" where
  "ParsePublic s =
     (case DecodeString s of
        Inl e \<Rightarrow> Inl (WrapError ''decode pubkey: '' e [])
      | Inr raw \<Rightarrow>
          if length raw \<noteq> 32
          then Inl (ErrorString (''pubkey size: want 32, got '' @ dec_string (length raw)))
          else Inr raw)"

subsection \<open>Properties\<close>

lemma ParsePublic_length: "ParsePublic s = Inr pub \<Longrightarrow> length pub = 32"
  by (auto simp: ParsePublic_def split: sum.splits if_splits)

lemma ParsePublic_encode: "length pub = 32 \<Longrightarrow> ParsePublic (EncodeToString pub) = Inr pub"
  by (simp add: ParsePublic_def base64_roundtrip)

text \<open>An environment without faults.\<close>

definition calm_id :: "bytes \<Rightarrow> id_env" where
  "calm_id rnd = \<lparr>ie_mkdir = None, ie_read = None, ie_rand = Inr rnd, ie_write = None\<rparr>"

lemma LoadOrCreate_calm:
  "LoadOrCreate K (calm_id rnd) dir d =
     (let path = path_join dir seedFile in
      case d path of
        None \<Rightarrow> (Inr \<lparr>Private = K rnd, Public = drop 32 (K rnd)\<rparr>, d(path \<mapsto> string_of rnd))
      | Some s \<Rightarrow>
          if length s \<noteq> 32
          then (Inl (ErrorString (''seed file '' @ path @ '': want 32 bytes, got '' @ dec_string (length s))), d)
          else (Inr \<lparr>Private = K (bytes_of s), Public = drop 32 (K (bytes_of s))\<rparr>, d))"
  by (simp add: LoadOrCreate_def calm_id_def MkdirAll_def ReadFile_def WriteFile_def Let_def
      split: option.splits)

text \<open>
  Property C33: the identity is stable. If a load succeeds, every later load from the disk it
  leaves returns the same key pair and leaves the disk alone, whatever the random source
  would hand out then, and the public key it announces over signaling is parsed back by the
  peer. The hypotheses say that seeds have 32 bytes and that keys have 64.
\<close>
theorem identity_stable:
  assumes "LoadOrCreate K env dir d = (Inr idn, d')"
    and "\<And>rnd. ie_rand env = Inr rnd \<Longrightarrow> length rnd = 32"
    and "\<And>seed. length seed = 32 \<Longrightarrow> length (K seed) = 64"
  shows "LoadOrCreate K (calm_id rnd') dir d' = (Inr idn, d') \<and> ParsePublic (PublicBase64 idn) = Inr (Public idn)"
proof -
  let ?path = "path_join dir seedFile"
  have "\<exists>seed. idn = \<lparr>Private = K seed, Public = drop 32 (K seed)\<rparr> \<and> length seed = 32
      \<and> (\<exists>t. d' ?path = Some t \<and> length t = 32 \<and> bytes_of t = seed)"
    using assms(1,2)
    by (auto simp: LoadOrCreate_def MkdirAll_def ReadFile_def WriteFile_def Let_def
        split: option.splits sum.splits if_splits)
  then obtain seed where s: "idn = \<lparr>Private = K seed, Public = drop 32 (K seed)\<rparr>" "length seed = 32"
      "\<exists>t. d' ?path = Some t \<and> length t = 32 \<and> bytes_of t = seed" by blast
  then have "LoadOrCreate K (calm_id rnd') dir d' = (Inr idn, d')"
    by (auto simp: LoadOrCreate_calm Let_def)
  moreover have "length (Public idn) = 32" using s(1,2) assms(3) by simp
  ultimately show ?thesis by (simp add: PublicBase64_def ParsePublic_encode)
qed

theorem identity_stable_witness:
  "\<exists>idn d'. LoadOrCreate (\<lambda>s. s @ s) (calm_id (replicate 32 7)) ''.claudy'' (\<lambda>_. None) = (Inr idn, d')
     \<and> LoadOrCreate (\<lambda>s. s @ s) (calm_id (replicate 32 9)) ''.claudy'' d' = (Inr idn, d')"
proof -
  obtain idn d' where l: "LoadOrCreate (\<lambda>s. s @ s) (calm_id (replicate 32 7)) ''.claudy'' (\<lambda>_. None) = (Inr idn, d')"
    by (simp add: LoadOrCreate_calm Let_def)
  have "length rnd = 32" if "ie_rand (calm_id (replicate 32 7)) = Inr rnd" for rnd
    using that by (auto simp: calm_id_def)
  from identity_stable [OF l this] l show ?thesis by auto
qed

text \<open>
  A fault while the first seed is written leaves a truncated file, which every later load
  refuses: the node has no identity until the file is removed by hand.
\<close>

lemma truncated_seed_is_final:
  assumes "d (path_join dir seedFile) = None" and "length seed = 32" and "n < 32"
    and "env = (calm_id seed)\<lparr>ie_write := Some (e, n)\<rparr>"
  shows "\<exists>err1 err2 d'. LoadOrCreate K env dir d = (Inl err1, d')
    \<and> LoadOrCreate K (calm_id rnd) dir d' = (Inl err2, d')"
  using assms by (simp add: LoadOrCreate_def MkdirAll_def ReadFile_def WriteFile_def Let_def calm_id_def
      string_of_def fs_ErrNotExist_def)

end
