(* ===== verification/Keyring.thy ===== *)
theory Keyring
  imports Tofu_Store Identity "HOL-Library.AList" "HOL-Library.List_Lexorder" "HOL-Library.Char_ord"
begin

text \<open>
  The keyring of \<open>internal/identity/keyring.go\<close>: a map from aliases to entries, kept in a JSON
  file. A Go map is an association list whose order stands for its arbitrary iteration
  order; times are numbers. The JSON codec is the library's: \<open>codec\<close> is the pair of its two
  directions, and \<open>quote\<close> is the verb \<open>%q\<close>.
\<close>

definition keyringFile :: string where "keyringFile = ''known_peers.json''"

definition ErrUntrusted :: error where
  "ErrUntrusted = Sentinel ''identity.ErrUntrusted'' ''peer pubkey does not match pinned entry''"

record KnownPeer =
  Alias :: string
  PubkeyB64 :: string
  FirstSeen :: int
  LastSeen :: int

record Keyring =
  kr_path :: string
  peers :: "(string \<times> KnownPeer) list"

type_synonym codec = "(KnownPeer list \<Rightarrow> error + string) \<times> (string \<Rightarrow> error + KnownPeer list)"

record kr_env =
  ke_write :: "(error \<times> nat) option"
  ke_rename :: "error option"

text \<open>The entries sorted by alias, as both \<open>List\<close> and \<open>saveLocked\<close> produce them.\<close>

definition sorted_entries :: "Keyring \<Rightarrow> KnownPeer list" where
  "sorted_entries k = sort_key Alias (map snd (peers k))"

definition OpenKeyring :: "codec \<Rightarrow> error option \<Rightarrow> error option \<Rightarrow> string \<Rightarrow> disk \<Rightarrow> (error + Keyring) \<times> disk" where
  "OpenKeyring codec mkfault rdfault dir d =
     (case MkdirAll mkfault d of
        (Some e, d1) \<Rightarrow> (Inl (WrapError ''mkdir keyring dir: '' e []), d1)
      | (None, d1) \<Rightarrow>
          (let path = path_join dir keyringFile;
               kr = \<lparr>kr_path = path, peers = []\<rparr>
           in (case ReadFile rdfault path d1 of
                 Inl err \<Rightarrow>
                   if err_is err fs_ErrNotExist then (Inr kr, d1)
                   else (Inl (WrapError ''read keyring: '' err []), d1)
               | Inr raw \<Rightarrow>
                   (case snd codec raw of
                      Inl e \<Rightarrow> (Inl (WrapError ''parse keyring: '' e []), d1)
                    | Inr entries \<Rightarrow>
                        (Inr (kr\<lparr>peers := fold (\<lambda>e. AList.update (Alias e) e) entries []\<rparr>), d1)))))"

definition saveLocked :: "codec \<Rightarrow> kr_env \<Rightarrow> Keyring \<Rightarrow> disk \<Rightarrow> error option \<times> disk" where
  "saveLocked codec env k d =
     (case fst codec (sorted_entries k) of
        Inl e \<Rightarrow> (Some (WrapError ''marshal keyring: '' e []), d)
      | Inr raw \<Rightarrow>
          (let tmp = kr_path k @ ''.tmp''
           in (case WriteFile (ke_write env) tmp raw d of
                 (Some e, d1) \<Rightarrow> (Some (WrapError ''write tmp keyring: '' e []), d1)
               | (None, d1) \<Rightarrow>
                   (case Rename (ke_rename env) tmp (kr_path k) d1 of
                      (Some e, d2) \<Rightarrow> (Some (WrapError ''rename keyring: '' e []), d2)
                    | (None, d2) \<Rightarrow> (None, d2)))))"

definition untrusted_error :: "(string \<Rightarrow> string) \<Rightarrow> string \<Rightarrow> string \<Rightarrow> string \<Rightarrow> error" where
  "untrusted_error quote alias pinned got =
     WrapError [] ErrUntrusted ('': alias='' @ quote alias @ '' pinned='' @ pinned @ '' got='' @ got)"

definition Check :: "codec \<Rightarrow> (string \<Rightarrow> string) \<Rightarrow> kr_env \<Rightarrow> int \<Rightarrow> string \<Rightarrow> bytes \<Rightarrow> Keyring \<times> disk
    \<Rightarrow> (bool \<times> error option) \<times> Keyring \<times> disk" where
  "Check codec quote env now alias pub kd =
     (let (k, d) = kd in
      if length pub \<noteq> 32
      then ((False, Some (ErrorString (''pubkey size: got '' @ dec_string (length pub)))), k, d)
      else
        let pubB64 = EncodeToString pub
        in (case map_of (peers k) alias of
              None \<Rightarrow>
                let k1 = k\<lparr>peers := AList.update alias
                       \<lparr>Alias = alias, PubkeyB64 = pubB64, FirstSeen = now, LastSeen = now\<rparr> (peers k)\<rparr>
                in (case saveLocked codec env k1 d of (e, d1) \<Rightarrow> ((True, e), k1, d1))
            | Some entry \<Rightarrow>
                if PubkeyB64 entry \<noteq> pubB64
                then ((False, Some (untrusted_error quote alias (PubkeyB64 entry) pubB64)), k, d)
                else
                  let k1 = k\<lparr>peers := AList.update alias (entry\<lparr>LastSeen := now\<rparr>) (peers k)\<rparr>
                  in (case saveLocked codec env k1 d of (e, d1) \<Rightarrow> ((False, e), k1, d1))))"

definition Forget :: "codec \<Rightarrow> kr_env \<Rightarrow> string \<Rightarrow> Keyring \<times> disk \<Rightarrow> error option \<times> Keyring \<times> disk" where
  "Forget codec env alias kd =
     (let (k, d) = kd in
      (case map_of (peers k) alias of
         None \<Rightarrow> (None, k, d)
       | Some entry \<Rightarrow>
           let k1 = k\<lparr>peers := AList.delete alias (peers k)\<rparr>
           in (case saveLocked codec env k1 d of (e, d1) \<Rightarrow> (e, k1, d1))))"

definition List :: "Keyring \<Rightarrow> KnownPeer list" where
  "List k = sorted_entries k"

subsection \<open>Invariant\<close>

text \<open>Every entry is stored under its own alias, once.\<close>

definition kr_ok :: "Keyring \<Rightarrow> bool" where
  "kr_ok k \<longleftrightarrow> distinct (map fst (peers k)) \<and> (\<forall>(a, e) \<in> set (peers k). Alias e = a)"

text \<open>The abstract state: the pinned keys in their base64 form.\<close>

definition pinned :: "Keyring \<Rightarrow> string \<Rightarrow> string option" where
  "pinned k a = map_option PubkeyB64 (map_of (peers k) a)"

lemma kr_ok_update:
  assumes "kr_ok k" and "Alias e = a"
  shows "kr_ok (k\<lparr>peers := AList.update a e (peers k)\<rparr>)"
proof -
  have "distinct (map fst (AList.update a e (peers k)))"
    using assms(1) by (simp add: kr_ok_def distinct_update)
  moreover have "set (AList.update a e (peers k)) \<subseteq> insert (a, e) (set (peers k))"
  proof -
    have "set (AList.update a e xs) \<subseteq> insert (a, e) (set xs)" for xs :: "(string \<times> KnownPeer) list"
      by (induction xs) auto
    then show ?thesis .
  qed
  ultimately show ?thesis using assms by (auto simp: kr_ok_def)
qed

lemma kr_ok_delete: "kr_ok k \<Longrightarrow> kr_ok (k\<lparr>peers := AList.delete a (peers k)\<rparr>)"
  by (auto simp: kr_ok_def AList.delete_eq distinct_map_filter split_beta)

lemma kr_ok_lookup: "kr_ok k \<Longrightarrow> map_of (peers k) a = Some e \<Longrightarrow> Alias e = a"
  by (auto simp: kr_ok_def dest!: map_of_SomeD)

lemma EncodeToString_inj: "EncodeToString a = EncodeToString b \<Longrightarrow> a = b"
  by (metis base64_roundtrip sum.inject(2))

lemma saveLocked_cases:
  "saveLocked codec env k d = (e, d') \<Longrightarrow>
     (e = None \<and> (\<exists>raw. fst codec (sorted_entries k) = Inr raw \<and> d' (kr_path k) = Some raw))
     \<or> (e \<noteq> None \<and> d' (kr_path k) = d (kr_path k))"
  by (auto simp: saveLocked_def WriteFile_def Rename_def Let_def split: sum.splits option.splits if_splits)

subsection \<open>The keyring is a store of pins\<close>

text \<open>\<open>Check\<close> without its flag, which the callers only log.\<close>

definition check_only :: "codec \<Rightarrow> (string \<Rightarrow> string) \<Rightarrow> kr_env \<times> int \<Rightarrow> string \<Rightarrow> bytes \<Rightarrow> Keyring \<times> disk
    \<Rightarrow> error option \<times> Keyring \<times> disk" where
  "check_only codec quote env alias pub kd =
     (case Check codec quote (fst env) (snd env) alias pub kd of ((first, e), kd') \<Rightarrow> (e, kd'))"

interpretation keyring: tofu_store "check_only codec quote"
  "\<lambda>kd. pinned (fst kd)" EncodeToString "\<lambda>kd. kr_ok (fst kd)" "\<lambda>a pub. length pub = 32"
  "\<lambda>_. False" ErrUntrusted
  for codec :: codec and quote :: "string \<Rightarrow> string"
proof (unfold_locales, goal_cases)
  case (1 s a k env e s')
  then show ?case
    by (auto simp: check_only_def Check_def Let_def split_beta split: option.splits if_splits prod.splits
        intro!: kr_ok_update) (rule kr_ok_lookup)
next
  case (2 s a k env e s')
  then show ?case
    by (auto simp: check_only_def Check_def Let_def split_beta pinned_def tofu_spec_def update_conv' fun_eq_iff
        split: option.splits if_splits prod.splits)
next
  case (3 s a k env e s' p)
  then show ?case
    by (auto simp: check_only_def Check_def Let_def split_beta pinned_def untrusted_error_def
        split: option.splits if_splits prod.splits)
next
  case (4 s a k env e s')
  then show ?case by (auto simp: check_only_def Check_def split_beta)
qed

text \<open>
  Property C9: the keyring refines trust on first use. On the pins, a check with a well-formed
  key is the abstract operation, whatever fails on the disk: it says first contact exactly
  for an unknown alias, pins the key then and only then, and for another key than the pinned
  one it returns ErrUntrusted and changes neither the keyring nor the disk. Every entry stays
  stored under its own alias.
\<close>
theorem keyring_refines_tofu:
  assumes "kr_ok k" and "length pub = 32"
    and "Check codec quote env now alias pub (k, d) = ((first, e), k', d')"
  shows "kr_ok k' \<and> pinned k' = tofu_spec alias (EncodeToString pub) (pinned k)
    \<and> first = (pinned k alias = None)
    \<and> (\<forall>p. pinned k alias = Some p \<and> p \<noteq> EncodeToString pub
         \<longrightarrow> k' = k \<and> d' = d \<and> (\<exists>err. e = Some err \<and> err_is err ErrUntrusted))"
proof -
  have same: "k' = k \<and> d' = d" if "pinned k alias = Some p" "p \<noteq> EncodeToString pub" for p
    using that assms by (auto simp: Check_def Let_def pinned_def)
  have first: "first = (pinned k alias = None)"
    using assms(2,3) by (auto simp: Check_def Let_def pinned_def split: option.splits if_splits prod.splits)
  have env: "check_only codec quote (env, now) alias pub (k, d) = (e, k', d')"
    using assms(3) by (simp add: check_only_def)
  from assms(1,2) keyring.check_inv [OF _ _ env] keyring.check_pins [OF _ _ env]
    keyring.check_differs [OF _ _ env] same first
  show ?thesis by simp
qed

text \<open>A codec that writes one line per entry of the alias alone, for the witnesses.\<close>

definition toy_entry :: "string \<Rightarrow> KnownPeer" where
  "toy_entry a = \<lparr>Alias = a, PubkeyB64 = EncodeToString (replicate 32 7), FirstSeen = 0, LastSeen = 0\<rparr>"

definition toy_codec :: codec where
  "toy_codec = (\<lambda>es. Inr (concat (map Alias es)),
     \<lambda>raw. Inr (if raw = [] then [] else [toy_entry raw]))"

definition calm_kr :: kr_env where
  "calm_kr = \<lparr>ke_write = None, ke_rename = None\<rparr>"

theorem keyring_refines_tofu_witness:
  "\<exists>err. snd (fst (Check toy_codec (\<lambda>s. s) calm_kr 1 ''pc'' (replicate 32 9)
       (\<lparr>kr_path = ''k'', peers = [(''pc'', toy_entry ''pc'')]\<rparr>, (\<lambda>_. None)))) = Some err
     \<and> err_is err ErrUntrusted"
proof -
  let ?k = "\<lparr>kr_path = ''k'', peers = [(''pc'', toy_entry ''pc'')]\<rparr>"
  obtain first e k' d' where c: "Check toy_codec (\<lambda>s. s) calm_kr 1 ''pc'' (replicate 32 9) (?k, (\<lambda>_. None))
      = ((first, e), k', d')" by (metis prod.exhaust)
  have "kr_ok ?k" by (simp add: kr_ok_def toy_entry_def)
  moreover have "length (replicate 32 (9 :: byte)) = 32" by simp
  moreover have "pinned ?k ''pc'' = Some (EncodeToString (replicate 32 7))"
    by (simp add: pinned_def toy_entry_def)
  moreover have "EncodeToString (replicate 32 7) \<noteq> EncodeToString (replicate 32 9)"
    by (auto dest!: EncodeToString_inj simp: replicate_eq_replicate)
  ultimately show ?thesis using keyring_refines_tofu [OF _ _ c] c by auto
qed

lemma map_of_fold_update:
  "map_of (fold (\<lambda>e. AList.update (f e) e) es xs) = map_of xs ++ map_of (map (\<lambda>e. (f e, e)) (rev es))"
proof (induction es arbitrary: xs)
  case Nil
  then show ?case by simp
next
  case (Cons e es)
  then show ?case by (simp add: update_conv' map_add_def fun_eq_iff split: option.splits)
qed

lemma kr_ok_aliases: "kr_ok k \<Longrightarrow> map (\<lambda>e. (Alias e, e)) (map snd (peers k)) = peers k"
  by (force simp: kr_ok_def intro: map_idI)

lemma pinned_reopen:
  assumes "kr_ok k"
  shows "map_of (fold (\<lambda>e. AList.update (Alias e) e) (sorted_entries k) []) = map_of (peers k)"
proof -
  let ?f = "\<lambda>e. (Alias e, e)"
  have "set (map ?f (rev (sorted_entries k))) = set (map ?f (map snd (peers k)))"
    by (simp add: sorted_entries_def image_image)
  then have s: "set (map ?f (rev (sorted_entries k))) = set (peers k)"
    by (simp only: kr_ok_aliases [OF assms])
  have "distinct (map Alias (map snd (peers k)))"
    using assms kr_ok_aliases [OF assms, THEN arg_cong, of "map fst"]
    by (simp only: kr_ok_def map_map comp_def fst_conv)
  then have "distinct (map Alias (sorted_entries k))"
    by (auto simp: sorted_entries_def distinct_map inj_on_def)
  then have "distinct (map fst (map ?f (rev (sorted_entries k))))"
    by (simp add: comp_def rev_map [symmetric])
  with s assms have "map_of (map ?f (rev (sorted_entries k))) = map_of (peers k)"
    using map_of_inject_set by (metis kr_ok_def)
  then show ?thesis by (simp add: map_of_fold_update)
qed

text \<open>
  Property C32: a save is atomic for the next process. Reopening the keyring after a save
  yields the saved pins if the save succeeded; if any of its calls failed, wherever the write
  of the temporary file stopped, reopening gives exactly what it gave before. The hypothesis
  on the codec is that reading undoes writing on the entries of this keyring.
\<close>
theorem keyring_save_atomic:
  assumes "kr_ok k" and "kr_path k = path_join dir keyringFile"
    and "\<And>raw. fst codec (sorted_entries k) = Inr raw \<Longrightarrow> snd codec raw = Inr (sorted_entries k)"
    and "saveLocked codec env k d = (e, d')"
  shows "if e = None
         then \<exists>k'. OpenKeyring codec None None dir d' = (Inr k', d') \<and> pinned k' = pinned k
         else fst (OpenKeyring codec None None dir d') = fst (OpenKeyring codec None None dir d)"
proof (cases e)
  case None
  with saveLocked_cases [OF assms(4)] assms(2) obtain raw
    where raw: "fst codec (sorted_entries k) = Inr raw" "d' (path_join dir keyringFile) = Some raw"
    by auto
  from None raw assms(3) [OF raw(1)] pinned_reopen [OF assms(1)] show ?thesis
    by (auto simp: OpenKeyring_def MkdirAll_def ReadFile_def Let_def pinned_def fun_eq_iff)
next
  case (Some err)
  with saveLocked_cases [OF assms(4)] assms(2)
  have "d' (path_join dir keyringFile) = d (path_join dir keyringFile)" by simp
  with Some show ?thesis
    by (simp add: OpenKeyring_def MkdirAll_def ReadFile_def Let_def split: option.splits sum.splits)
qed

theorem keyring_save_atomic_witness:
  "\<exists>k'. OpenKeyring toy_codec None None ''d''
       (snd (saveLocked toy_codec calm_kr \<lparr>kr_path = ''d/known_peers.json'', peers = [(''pc'', toy_entry ''pc'')]\<rparr>
          (\<lambda>_. None)))
     = (Inr k', snd (saveLocked toy_codec calm_kr \<lparr>kr_path = ''d/known_peers.json'', peers = [(''pc'', toy_entry ''pc'')]\<rparr>
          (\<lambda>_. None)))
     \<and> pinned k' ''pc'' = Some (EncodeToString (replicate 32 7))"
proof -
  let ?k = "\<lparr>kr_path = ''d/known_peers.json'', peers = [(''pc'', toy_entry ''pc'')]\<rparr>"
  have a: "kr_ok ?k" and b: "kr_path ?k = path_join ''d'' keyringFile"
    by (simp_all add: kr_ok_def toy_entry_def path_join_def keyringFile_def)
  have c: "snd toy_codec raw = Inr (sorted_entries ?k)" if "fst toy_codec (sorted_entries ?k) = Inr raw" for raw
    using that by (auto simp: toy_codec_def sorted_entries_def toy_entry_def)
  have pin: "pinned ?k ''pc'' = Some (EncodeToString (replicate 32 7))"
    by (simp add: pinned_def toy_entry_def)
  obtain e d' where s: "saveLocked toy_codec calm_kr ?k (\<lambda>_. None) = (e, d')" by fastforce
  moreover have "e = None"
    using s by (simp add: saveLocked_def toy_codec_def calm_kr_def WriteFile_def Rename_def Let_def)
  ultimately show ?thesis
    using keyring_save_atomic [OF a b c s] pin by auto
qed

text \<open>\<open>Forget\<close> removes the pin, in memory also when the save fails.\<close>

lemma Forget_pins:
  "Forget codec env a (k, d) = (e, k', d') \<Longrightarrow> pinned k' = (pinned k)(a := None)"
  by (auto simp: Forget_def pinned_def fun_eq_iff delete_conv' Let_def split: option.splits prod.splits)

end
