(* ===== verification/Verify_Peer.thy ===== *)
theory Verify_Peer
  imports Keyring
begin

text \<open>
  \<open>verifyPeer\<close> of \<open>cmd/dav-owner/main.go\<close> and \<open>cmd/dav-client/main.go\<close>, which differ in the word
  for the other side only: the gate between the signaling server, which is not trusted, and
  the Noise transport, which trusts the key it is given. The log lines are not modelled.
\<close>

definition verifyPeer :: "string \<Rightarrow> codec \<Rightarrow> (string \<Rightarrow> string) \<Rightarrow> kr_env \<times> int \<Rightarrow> string \<Rightarrow> string
    \<Rightarrow> Keyring \<times> disk \<Rightarrow> error option \<times> Keyring \<times> disk" where
  "verifyPeer who codec quote env alias peerPubkey kd =
     (if alias = [] then (None, kd)
      else if peerPubkey = []
      then (Some (ErrorString (who @ '' joined without a pubkey; refusing because TOFU is enabled'')), kd)
      else
        (case ParsePublic peerPubkey of
           Inl e \<Rightarrow> (Some (WrapError (''parse '' @ who @ '' pubkey: '') e []), kd)
         | Inr pub \<Rightarrow>
             (case Check codec quote (fst env) (snd env) alias pub kd of ((first, e), kd') \<Rightarrow> (e, kd'))))"

definition viewer_verifyPeer :: "codec \<Rightarrow> (string \<Rightarrow> string) \<Rightarrow> kr_env \<times> int \<Rightarrow> string \<Rightarrow> string
    \<Rightarrow> Keyring \<times> disk \<Rightarrow> error option \<times> Keyring \<times> disk" where
  "viewer_verifyPeer = verifyPeer ''owner''"

definition owner_verifyPeer :: "codec \<Rightarrow> (string \<Rightarrow> string) \<Rightarrow> kr_env \<times> int \<Rightarrow> string \<Rightarrow> string
    \<Rightarrow> Keyring \<times> disk \<Rightarrow> error option \<times> Keyring \<times> disk" where
  "owner_verifyPeer = verifyPeer ''viewer''"

subsection \<open>Properties\<close>

text \<open>The canonical form of an announced key.\<close>

definition canonical :: "string \<Rightarrow> string" where
  "canonical s = (case ParsePublic s of Inl _ \<Rightarrow> [] | Inr pub \<Rightarrow> EncodeToString pub)"

definition well_formed :: "string \<Rightarrow> string \<Rightarrow> bool" where
  "well_formed alias s \<longleftrightarrow> alias \<noteq> [] \<and> s \<noteq> [] \<and> (\<exists>pub. ParsePublic s = Inr pub)"

lemma verifyPeer_well_formed:
  "well_formed a s \<Longrightarrow> ParsePublic s = Inr pub \<Longrightarrow>
     verifyPeer who codec quote env a s kd = check_only codec quote env a pub kd"
  by (simp add: well_formed_def verifyPeer_def check_only_def)

interpretation verified: tofu_store "verifyPeer who codec quote"
  "\<lambda>kd. pinned (fst kd)" canonical "\<lambda>kd. kr_ok (fst kd)" well_formed "(=) []" ErrUntrusted
  for who :: string and codec :: codec and quote :: "string \<Rightarrow> string"
proof (unfold_locales, goal_cases)
  case (1 s a k env e s')
  then obtain pub where "ParsePublic k = Inr pub" by (auto simp: well_formed_def)
  with 1 keyring.check_inv [of s pub] show ?case by (simp add: verifyPeer_well_formed ParsePublic_length)
next
  case (2 s a k env e s')
  then obtain pub where "ParsePublic k = Inr pub" by (auto simp: well_formed_def)
  with 2 keyring.check_pins [of s pub]
  show ?case by (simp add: verifyPeer_well_formed ParsePublic_length canonical_def)
next
  case (3 s a k env e s' p)
  then obtain pub where "ParsePublic k = Inr pub" by (auto simp: well_formed_def)
  with 3 keyring.check_differs [of s pub]
  show ?case by (simp add: verifyPeer_well_formed ParsePublic_length canonical_def)
next
  case (4 s a k env e s')
  then show ?case
    by (cases "ParsePublic k") (auto simp: verifyPeer_def well_formed_def split: if_splits)
qed

text \<open>One contact after the other, each with its faults and time, on one keyring.\<close>

fun contacts :: "string \<Rightarrow> codec \<Rightarrow> (string \<Rightarrow> string) \<Rightarrow> ((kr_env \<times> int) \<times> string \<times> string) list
    \<Rightarrow> Keyring \<times> disk \<Rightarrow> bool list \<times> Keyring \<times> disk" where
  "contacts who codec quote [] kd = ([], kd)"
| "contacts who codec quote ((env, alias, key) # cs) kd =
     (case verifyPeer who codec quote env alias key kd of
        (e, kd1) \<Rightarrow> (case contacts who codec quote cs kd1 of (oks, kd2) \<Rightarrow> ((e = None) # oks, kd2)))"

lemma contacts_checks: "contacts who codec quote cs kd = verified.checks who codec quote cs kd"
  by (induction cs arbitrary: kd) (auto split: prod.splits)

lemma verifyPeer_accepts_key:
  "verifyPeer who codec quote env a k kd = (None, kd') \<Longrightarrow> a \<noteq> [] \<Longrightarrow>
     \<exists>pub. ParsePublic k = Inr pub \<and> canonical k = EncodeToString pub"
  by (auto simp: verifyPeer_def canonical_def split: if_splits sum.splits)

lemma contacts_accepts:
  "contacts who codec quote cs kd = (oks, kd') \<Longrightarrow> i < length cs \<Longrightarrow> oks ! i \<Longrightarrow>
     cs ! i = (env, a, k) \<Longrightarrow> a \<noteq> [] \<Longrightarrow> \<exists>pub. ParsePublic k = Inr pub \<and> canonical k = EncodeToString pub"
proof (induction cs arbitrary: kd oks i)
  case Nil
  then show ?case by simp
next
  case (Cons c cs)
  obtain env1 b kb where c: "c = (env1, b, kb)" by (metis prod.exhaust)
  obtain e s1 where ch: "verifyPeer who codec quote env1 b kb kd = (e, s1)" by (metis prod.exhaust)
  obtain oks2 where rest: "contacts who codec quote cs s1 = (oks2, kd')"
    using Cons.prems(1) c ch by (auto split: prod.splits)
  have oks: "oks = (e = None) # oks2" using Cons.prems(1) c ch rest by simp
  show ?case
  proof (cases i)
    case 0
    with Cons.prems(3-5) oks c ch verifyPeer_accepts_key show ?thesis by simp
  next
    case (Suc j)
    with Cons.IH [OF rest, of j] Cons.prems(2-5) oks c show ?thesis by simp
  qed
qed

text \<open>
  Property C4: trust on first use holds over any history of contacts, with whatever peers,
  malformed keys and disk faults between: two announced keys that were accepted under one
  alias decode to the same Ed25519 public key, so a signaling server that swaps the key of a
  known peer is refused.
\<close>
theorem trust_on_first_use:
  assumes "kr_ok (fst kd)" and "contacts who codec quote cs kd = (oks, kd')"
    and "i < j" and "j < length cs" and "oks ! i" and "oks ! j"
    and "cs ! i = (env, alias, key)" and "cs ! j = (env', alias, key')" and "alias \<noteq> []"
  shows "\<exists>pub. ParsePublic key = Inr pub \<and> ParsePublic key' = Inr pub"
proof -
  have "canonical key = canonical key'"
    using verified.accepted_keys_agree [where s = kd and a = "alias" and cs = cs and oks = oks and s' = "kd'" and i = i and j = j] assms
    by (simp add: contacts_checks)
  moreover obtain pub where "ParsePublic key = Inr pub" and "canonical key = EncodeToString pub"
    using contacts_accepts [OF assms(2) _ assms(5,7,9)] assms(3,4) by auto
  moreover obtain pub' where "ParsePublic key' = Inr pub'" "canonical key' = EncodeToString pub'"
    using contacts_accepts [OF assms(2,4,6,8,9)] by auto
  ultimately show ?thesis using EncodeToString_inj by metis
qed

text \<open>A peer that is met twice, and an impostor between the two contacts.\<close>

definition three_contacts :: "((kr_env \<times> int) \<times> string \<times> string) list" where
  "three_contacts =
     [((calm_kr, 1), ''pc'', EncodeToString (replicate 32 7)),
      ((calm_kr, 2), ''pc'', EncodeToString (replicate 32 9)),
      ((calm_kr, 3), ''pc'', EncodeToString (replicate 32 7))]"

theorem trust_on_first_use_witness:
  "\<exists>pub. ParsePublic (EncodeToString (replicate 32 7)) = Inr pub
     \<and> fst (contacts ''owner'' toy_codec (\<lambda>s. s) three_contacts (\<lparr>kr_path = ''k'', peers = []\<rparr>, \<lambda>_. None))
       = [True, False, True]"
proof -
  let ?kd = "(\<lparr>kr_path = ''k'', peers = []\<rparr>, (\<lambda>_. None) :: disk)"
  have neq: "EncodeToString (replicate 32 7) \<noteq> EncodeToString (replicate 32 9)"
    by (auto dest!: EncodeToString_inj simp: replicate_eq_replicate)
  have nonempty: "EncodeToString (replicate 32 w) \<noteq> []" for w
    using EncodeToString_inj [of "replicate 32 w" "[]"] by (auto simp: EncodeToString_def)
  obtain oks kd' where c: "contacts ''owner'' toy_codec (\<lambda>s. s) three_contacts ?kd = (oks, kd')"
    by (metis prod.exhaust)
  have oks: "oks = [True, False, True]"
    using c neq
    by (simp add: three_contacts_def verifyPeer_def ParsePublic_encode nonempty Check_def saveLocked_def
        toy_codec_def calm_kr_def WriteFile_def Rename_def Let_def split_beta)
  have "kr_ok (fst ?kd)" by (simp add: kr_ok_def)
  from trust_on_first_use [OF this c, of 0 2] show ?thesis
    using oks c by (auto simp: three_contacts_def)
qed

end
