(* ===== verification/Session_Trust.thy ===== *)
theory Session_Trust
  imports Verify_Peer Tunnel
begin

text \<open>
  Where trust and transport meet, in \<open>main\<close> of \<open>cmd/dav-owner\<close> and \<open>cmd/dav-client\<close>: the key that the
  \<open>ready\<close> message announced is verified, must not be empty, and is parsed into the key that every
  tunnel of the session is given. An error stands for the exit of the command.
\<close>

definition admit_peer :: "string \<Rightarrow> codec \<Rightarrow> (string \<Rightarrow> string) \<Rightarrow> kr_env \<times> int \<Rightarrow> string \<Rightarrow> error + string
    \<Rightarrow> Keyring \<times> disk \<Rightarrow> (error + bytes) \<times> Keyring \<times> disk" where
  "admit_peer who codec quote env alias ready kd =
     (case ready of
        Inl err \<Rightarrow> (Inl err, kd)
      | Inr peerPubkeyB64 \<Rightarrow>
          (case verifyPeer who codec quote env alias peerPubkeyB64 kd of
             (Some err, kd1) \<Rightarrow> (Inl err, kd1)
           | (None, kd1) \<Rightarrow>
               if peerPubkeyB64 = []
               then (Inl (ErrorString (who @ '' did not announce a pubkey; cannot establish Noise session'')), kd1)
               else
                 (case ParsePublic peerPubkeyB64 of
                    Inl err \<Rightarrow> (Inl err, kd1)
                  | Inr peerPub \<Rightarrow> (Inr peerPub, kd1))))"

definition owner_admit :: "codec \<Rightarrow> (string \<Rightarrow> string) \<Rightarrow> kr_env \<times> int \<Rightarrow> string \<Rightarrow> error + string
    \<Rightarrow> Keyring \<times> disk \<Rightarrow> (error + bytes) \<times> Keyring \<times> disk" where
  "owner_admit = admit_peer ''viewer''"

definition viewer_admit :: "codec \<Rightarrow> (string \<Rightarrow> string) \<Rightarrow> kr_env \<times> int \<Rightarrow> string \<Rightarrow> error + string
    \<Rightarrow> Keyring \<times> disk \<Rightarrow> (error + bytes) \<times> Keyring \<times> disk" where
  "viewer_admit = admit_peer ''owner''"

text \<open>What is admitted under an alias is the key that was pinned, and stays pinned.\<close>

lemma admit_peer_pinned:
  assumes "kr_ok (fst kd)" and "alias \<noteq> []"
    and "admit_peer who codec quote env alias ready kd = (Inr peerPub, kd')"
  shows "pinned (fst kd') alias = Some (EncodeToString peerPub) \<and> length peerPub = 32
    \<and> (\<forall>p. pinned (fst kd) alias = Some p \<longrightarrow> p = EncodeToString peerPub)"
proof -
  obtain key where r: "ready = Inr key" using assms(3) by (auto simp: admit_peer_def split: sum.splits)
  with assms(3) have v: "verifyPeer who codec quote env alias key kd = (None, kd')" and p: "ParsePublic key = Inr peerPub"
    by (auto simp: admit_peer_def split: prod.splits option.splits if_splits sum.splits)
  from p have "canonical key = EncodeToString peerPub" by (simp add: canonical_def)
  with verified.step_accepts [OF assms(1) v] assms(2) p ParsePublic_length show ?thesis by auto
qed

text \<open>A tunnel that was served, or answered at all, is one of a handshake that ran.\<close>

lemma tunnel_Serve_server:
  assumes "tunnel_Serve N C net y cfg now myPriv peerPub c = Some (Inr sess, c')"
  shows "\<exists>sec c1. secure_Server N C net now myPriv peerPub c = Some (Inr sec, c1)"
  using assms by (auto simp: tunnel_Serve_def split: option.splits sum.splits prod.splits)

end
