(* ===== verification/Powerlock.thy ===== *)
theory Powerlock
  imports Go_Error
begin

text \<open>
  The sleep lock of \<open>internal/powerlock\<close>. The world is what the operating system knows: the
  helper processes that are alive, the threads that hold the request of Windows, and the commands
  that were run. The fault of an acquisition comes from the environment.
\<close>

datatype platform = pl_darwin | pl_linux | pl_windows | pl_other

record pl_world =
  pl_helpers :: "nat set"
  pl_threads :: "nat set"
  pl_next :: nat
  pl_cmds :: "(string \<times> string list) list"

datatype releaser = darwinLock nat | linuxLock nat | windowsLock nat

record Lock =
  lk_cancelled :: bool
  lk_impl :: "releaser option"

definition fmtErr :: "string \<Rightarrow> error \<Rightarrow> error" where
  "fmtErr msg err = WrapError (msg @ '': '') err []"

definition start_helper :: "string \<Rightarrow> string list \<Rightarrow> error option \<Rightarrow> string \<Rightarrow> (nat \<Rightarrow> releaser) \<Rightarrow> pl_world
    \<Rightarrow> (error + releaser) \<times> pl_world" where
  "start_helper bin args fault msg mk w =
     (case fault of
        Some e \<Rightarrow> (Inl (fmtErr msg e), w)
      | None \<Rightarrow>
          (Inr (mk (pl_next w)),
           w\<lparr>pl_helpers := insert (pl_next w) (pl_helpers w), pl_next := Suc (pl_next w),
             pl_cmds := pl_cmds w @ [(bin, args)]\<rparr>))"

definition acquire_darwin :: "string \<Rightarrow> error option \<Rightarrow> pl_world \<Rightarrow> (error + releaser) \<times> pl_world" where
  "acquire_darwin pid fault w =
     start_helper ''/usr/bin/caffeinate'' [''-i'', ''-w'', pid] fault ''start caffeinate'' darwinLock w"

definition acquire_linux :: "error option \<Rightarrow> error option \<Rightarrow> pl_world \<Rightarrow> (error + releaser) \<times> pl_world" where
  "acquire_linux lookPath fault w =
     (case lookPath of
        Some e \<Rightarrow> (Inl (ErrorString ''systemd-inhibit not found; sleep prevention disabled''), w)
      | None \<Rightarrow>
          start_helper ''systemd-inhibit''
            [''--what=sleep:idle'', ''--who=claudy'', ''--why=active share'', ''--mode=block'', ''sleep'', ''infinity'']
            fault ''start systemd-inhibit'' linuxLock w)"

definition acquire_windows :: "error option \<Rightarrow> pl_world \<Rightarrow> (error + releaser) \<times> pl_world" where
  "acquire_windows fault w =
     (case fault of
        Some e \<Rightarrow> (Inl (fmtErr ''SetThreadExecutionState(SYSTEM_REQUIRED)'' e), w)
      | None \<Rightarrow>
          (Inr (windowsLock (pl_next w)),
           w\<lparr>pl_threads := insert (pl_next w) (pl_threads w), pl_next := Suc (pl_next w)\<rparr>))"

definition acquire_other :: "pl_world \<Rightarrow> (error + releaser) \<times> pl_world" where
  "acquire_other w = (Inl (ErrorString ''prevent-sleep not implemented on this platform''), w)"

fun acquirePlatform :: "platform \<Rightarrow> string \<Rightarrow> error option \<Rightarrow> error option \<Rightarrow> pl_world \<Rightarrow> (error + releaser) \<times> pl_world" where
  "acquirePlatform pl_darwin pid lookPath fault w = acquire_darwin pid fault w"
| "acquirePlatform pl_linux pid lookPath fault w = acquire_linux lookPath fault w"
| "acquirePlatform pl_windows pid lookPath fault w = acquire_windows fault w"
| "acquirePlatform pl_other pid lookPath fault w = acquire_other w"

text \<open>Tearing down a helper kills it and reaps it; on Windows the pinned thread is told to stop.\<close>

fun release_impl :: "releaser \<Rightarrow> pl_world \<Rightarrow> pl_world" where
  "release_impl (darwinLock p) w = w\<lparr>pl_helpers := pl_helpers w - {p}\<rparr>"
| "release_impl (linuxLock p) w = w\<lparr>pl_helpers := pl_helpers w - {p}\<rparr>"
| "release_impl (windowsLock t) w = w\<lparr>pl_threads := pl_threads w - {t}\<rparr>"

definition Acquire :: "platform \<Rightarrow> string \<Rightarrow> error option \<Rightarrow> error option \<Rightarrow> pl_world \<Rightarrow> Lock \<times> pl_world" where
  "Acquire os pid lookPath fault w =
     (case acquirePlatform os pid lookPath fault w of
        (Inl err, w1) \<Rightarrow> (\<lparr>lk_cancelled = True, lk_impl = None\<rparr>, w1)
      | (Inr impl, w1) \<Rightarrow> (\<lparr>lk_cancelled = False, lk_impl = Some impl\<rparr>, w1))"

text \<open>A nil handle is \<open>None\<close>.\<close>

definition Release :: "Lock option \<Rightarrow> pl_world \<Rightarrow> Lock option \<times> pl_world" where
  "Release l w =
     (case l of
        None \<Rightarrow> (None, w)
      | Some k \<Rightarrow>
          (Some (k\<lparr>lk_cancelled := True\<rparr>),
           case lk_impl k of None \<Rightarrow> w | Some impl \<Rightarrow> release_impl impl w))"

subsection \<open>Properties\<close>

definition held :: "pl_world \<Rightarrow> nat set" where
  "held w = pl_helpers w \<union> pl_threads w"

definition pl_ok :: "pl_world \<Rightarrow> bool" where
  "pl_ok w \<longleftrightarrow> (\<forall>p \<in> held w. p < pl_next w)"

text \<open>
  A lock is taken exactly if the platform reports no fault, and releasing it, once or twice, gives
  back what was held before; other locks are not touched.
\<close>

lemma acquire_cases:
  assumes "acquirePlatform os pid lookPath fault w = (r, w1)"
  shows "(\<exists>e. r = Inl e \<and> w1 = w)
    \<or> (r \<in> {Inr (darwinLock (pl_next w)), Inr (linuxLock (pl_next w))}
       \<and> pl_helpers w1 = insert (pl_next w) (pl_helpers w) \<and> pl_threads w1 = pl_threads w)
    \<or> (r = Inr (windowsLock (pl_next w))
       \<and> pl_threads w1 = insert (pl_next w) (pl_threads w) \<and> pl_helpers w1 = pl_helpers w)"
proof (cases os)
  case pl_darwin
  with assms show ?thesis by (cases fault) (auto simp: acquire_darwin_def start_helper_def)
next
  case pl_linux
  with assms show ?thesis by (cases lookPath; cases fault) (auto simp: acquire_linux_def start_helper_def)
next
  case pl_windows
  with assms show ?thesis by (cases fault) (auto simp: acquire_windows_def)
next
  case pl_other
  with assms show ?thesis by (auto simp: acquire_other_def)
qed

lemma powerlock_balanced:
  assumes "pl_ok w" and "Acquire os pid lookPath fault w = (k, w1)"
  shows "(lk_impl k \<noteq> None \<longleftrightarrow> held w1 \<noteq> held w) \<and> held (snd (Release (Some k) w1)) = held w
    \<and> snd (Release (fst (Release (Some k) w1)) (snd (Release (Some k) w1))) = snd (Release (Some k) w1)"
proof -
  have fresh: "pl_next w \<notin> pl_helpers w" "pl_next w \<notin> pl_threads w"
    using assms(1) by (auto simp: pl_ok_def held_def)
  obtain r where p: "acquirePlatform os pid lookPath fault w = (r, w1)"
    using assms(2) by (auto simp: Acquire_def split: prod.splits sum.splits)
  have nh: "pl_next w \<notin> held w" using fresh by (simp add: held_def)
  from acquire_cases [OF p] show ?thesis
  proof (elim disjE conjE exE)
    fix e assume "r = Inl e" "w1 = w"
    with assms(2) p show ?thesis by (auto simp: Acquire_def Release_def)
  next
    assume r: "r \<in> {Inr (darwinLock (pl_next w)), Inr (linuxLock (pl_next w))}"
      and w1: "pl_helpers w1 = insert (pl_next w) (pl_helpers w)" "pl_threads w1 = pl_threads w"
    then obtain impl where impl: "r = Inr impl" "\<And>v. release_impl impl v = v\<lparr>pl_helpers := pl_helpers v - {pl_next w}\<rparr>"
      by auto
    have k: "k = \<lparr>lk_cancelled = False, lk_impl = Some impl\<rparr>" using assms(2) p impl(1) by (simp add: Acquire_def)
    have "held w1 = insert (pl_next w) (held w)" using w1 by (simp add: held_def)
    with nh have "held w1 \<noteq> held w" by blast
    with k w1 fresh show ?thesis by (simp add: Release_def held_def impl(2))
  next
    assume r: "r = Inr (windowsLock (pl_next w))"
      and w1: "pl_threads w1 = insert (pl_next w) (pl_threads w)" "pl_helpers w1 = pl_helpers w"
    have k: "k = \<lparr>lk_cancelled = False, lk_impl = Some (windowsLock (pl_next w))\<rparr>"
      using assms(2) p r by (simp add: Acquire_def)
    have "held w1 = insert (pl_next w) (held w)" using w1 by (simp add: held_def)
    with nh have "held w1 \<noteq> held w" by blast
    with k w1 fresh show ?thesis by (simp add: Release_def held_def)
  qed
qed

text \<open>
  The package comment names other arguments than the code passes: \<open>-is\<close> for caffeinate and
  \<open>--what=sleep\<close> for systemd-inhibit.
\<close>

lemma caffeinate_args: "fst (Acquire pl_darwin pid lp None w) = k \<Longrightarrow>
    pl_cmds (snd (Acquire pl_darwin pid lp None w)) = pl_cmds w @ [(''/usr/bin/caffeinate'', [''-i'', ''-w'', pid])]"
  by (simp add: Acquire_def acquire_darwin_def start_helper_def)

end
