(* ===== verification/Failover.thy ===== *)
theory Failover
  imports Go_Error
begin

text \<open>
  The contract of the failure classifier that the viewer and the owner session each have a
  copy of: \<open>Failed\<close> transitions of the peer connection, unless they follow an SDP race too
  closely, count towards a switch to relay-only, and a \<open>Connected\<close> starts the count again.
  Times are nanoseconds; a race time of 0 means that there was none.
\<close>

datatype fo_event = FoFailed int | FoConnected | FoRace int

text \<open>The time of the last race in a history that starts with \<open>r0\<close>.\<close>

fun last_race :: "int \<Rightarrow> fo_event list \<Rightarrow> int" where
  "last_race r [] = r"
| "last_race r (FoRace t # es) = last_race t es"
| "last_race r (e # es) = last_race r es"

lemma last_race_append [simp]: "last_race r (xs @ ys) = last_race (last_race r xs) ys"
proof (induction xs arbitrary: r)
  case (Cons e xs)
  then show ?case by (cases e) simp_all
qed simp

text \<open>A failure at time \<open>t\<close> after the history \<open>h\<close> counts unless it is within the window of a race.\<close>

definition counted :: "int \<Rightarrow> int \<Rightarrow> fo_event list \<Rightarrow> int \<Rightarrow> bool" where
  "counted window r0 h t \<longleftrightarrow> \<not> (0 < last_race r0 h \<and> t - last_race r0 h < window)"

text \<open>There is a counted failure with no success after it.\<close>

definition failing :: "int \<Rightarrow> int \<Rightarrow> fo_event list \<Rightarrow> bool" where
  "failing window r0 es \<longleftrightarrow>
     (\<exists>xs t ys. es = xs @ FoFailed t # ys \<and> counted window r0 xs t \<and> FoConnected \<notin> set ys)"

text \<open>The specification of the switch: two counted failures with no success between them.\<close>

definition escalates :: "int \<Rightarrow> int \<Rightarrow> fo_event list \<Rightarrow> bool" where
  "escalates window r0 es \<longleftrightarrow>
     (\<exists>xs t ys. es = xs @ FoFailed t # ys \<and> counted window r0 xs t \<and> failing window r0 xs)"

lemma failing_Nil [simp]: "\<not> failing w r []"
  by (simp add: failing_def)

lemma escalates_Nil [simp]: "\<not> escalates w r []"
  by (simp add: escalates_def)

lemma split_snoc:
  "(\<exists>xs t ys. es @ [e] = xs @ FoFailed t # ys \<and> P xs t ys) \<longleftrightarrow>
     (\<exists>t. e = FoFailed t \<and> P es t []) \<or> (\<exists>xs t ys. es = xs @ FoFailed t # ys \<and> P xs t (ys @ [e]))"
  (is "?L \<longleftrightarrow> ?A \<or> ?B")
proof
  assume ?L
  then obtain xs t ys where x: "es @ [e] = xs @ FoFailed t # ys" "P xs t ys" by blast
  show "?A \<or> ?B"
  proof (cases ys rule: rev_cases)
    case Nil
    with x show ?thesis by simp
  next
    case (snoc ys' y)
    with x have "es = xs @ FoFailed t # ys'" "P xs t (ys' @ [e])" by auto
    then show ?thesis by blast
  qed
next
  assume "?A \<or> ?B"
  then show ?L
  proof
    assume ?A
    then show ?L by auto
  next
    assume ?B
    then obtain xs t ys where "es = xs @ FoFailed t # ys" "P xs t (ys @ [e])" by blast
    then show ?L by (intro exI [of _ xs] exI [of _ t] exI [of _ "ys @ [e]"]) simp
  qed
qed

lemma failing_snoc:
  "failing w r (es @ [e]) \<longleftrightarrow>
     (case e of FoConnected \<Rightarrow> False | FoRace t \<Rightarrow> failing w r es
      | FoFailed t \<Rightarrow> counted w r es t \<or> failing w r es)"
  unfolding failing_def split_snoc by (cases e) simp_all

lemma escalates_snoc:
  "escalates w r (es @ [e]) \<longleftrightarrow>
     escalates w r es \<or> (case e of FoFailed t \<Rightarrow> counted w r es t \<and> failing w r es | _ \<Rightarrow> False)"
  unfolding escalates_def split_snoc by (cases e) auto

locale failover =
  fixes classify :: "int \<Rightarrow> 's \<Rightarrow> 's" and connected :: "'s \<Rightarrow> 's" and mark_race :: "int \<Rightarrow> 's \<Rightarrow> 's"
    and fails :: "'s \<Rightarrow> nat" and relay :: "'s \<Rightarrow> bool" and race :: "'s \<Rightarrow> int" and window :: int
  assumes classify_race: "0 < race s \<Longrightarrow> now - race s < window \<Longrightarrow> classify now s = s"
    and classify_counts: "\<not> (0 < race s \<and> now - race s < window) \<Longrightarrow>
      fails (classify now s) = Suc (fails s) \<and> race (classify now s) = race s
      \<and> relay (classify now s) = (relay s \<or> 2 \<le> Suc (fails s))"
    and connected_resets: "fails (connected s) = 0 \<and> race (connected s) = race s
      \<and> relay (connected s) = relay s"
    and mark_race_marks: "race (mark_race t s) = t \<and> fails (mark_race t s) = fails s
      \<and> relay (mark_race t s) = relay s"
begin

fun react :: "fo_event \<Rightarrow> 's \<Rightarrow> 's" where
  "react (FoFailed t) s = classify t s"
| "react FoConnected s = connected s"
| "react (FoRace t) s = mark_race t s"

lemma react_race: "race (fold react es s) = last_race (race s) es"
proof (induction es arbitrary: s)
  case Nil
  then show ?case by simp
next
  case (Cons e es)
  have "race (classify t s) = race s" for t
    using classify_race [of s t] classify_counts [of s t] by (cases "0 < race s \<and> t - race s < window") auto
  then have "race (react e s) = (case e of FoRace t \<Rightarrow> t | _ \<Rightarrow> race s)"
    using connected_resets [of s] mark_race_marks [of _ s] by (cases e) auto
  with Cons show ?case by (cases e) auto
qed

lemma react_counts:
  assumes "fails s = 0" and "\<not> relay s"
  shows "(0 < fails (fold react es s) \<longleftrightarrow> failing window (race s) es)
    \<and> (relay (fold react es s) \<longleftrightarrow> escalates window (race s) es)"
proof (induction es rule: rev_induct)
  case Nil
  from assms show ?case by simp
next
  case (snoc e es)
  let ?s = "fold react es s"
  show ?case
  proof (cases e)
    case (FoFailed t)
    show ?thesis
    proof (cases "counted window (race s) es t")
      case True
      then have "fails (classify t ?s) = Suc (fails ?s)
          \<and> relay (classify t ?s) = (relay ?s \<or> 2 \<le> Suc (fails ?s))"
        using classify_counts [of ?s t] by (simp add: counted_def react_race)
      with FoFailed True snoc show ?thesis by (auto simp: failing_snoc escalates_snoc)
    next
      case False
      then have "classify t ?s = ?s"
        using classify_race [of ?s t] by (simp add: counted_def react_race)
      with FoFailed False snoc show ?thesis by (simp add: failing_snoc escalates_snoc)
    qed
  next
    case FoConnected
    with connected_resets [of ?s] snoc show ?thesis by (simp add: failing_snoc escalates_snoc)
  next
    case (FoRace t)
    with mark_race_marks [of t ?s] snoc show ?thesis by (simp add: failing_snoc escalates_snoc)
  qed
qed

text \<open>The switch is made exactly when the specification says so.\<close>

lemma relay_iff_escalates:
  "fails s = 0 \<Longrightarrow> \<not> relay s \<Longrightarrow> relay (fold react es s) \<longleftrightarrow> escalates window (race s) es"
  using react_counts by blast

text \<open>It is never taken back.\<close>

lemma relay_latched: "relay s \<Longrightarrow> relay (fold react es s)"
proof (induction es arbitrary: s)
  case Nil
  then show ?case by simp
next
  case (Cons e es)
  have "relay (classify t s)" for t
    using Cons.prems classify_race [of s t] classify_counts [of s t]
    by (cases "0 < race s \<and> t - race s < window") auto
  then have "relay (react e s)"
    using Cons.prems connected_resets [of s] mark_race_marks [of _ s] by (cases e) auto
  with Cons.IH show ?case by simp
qed

end

end
