(* ===== verification/Viewer_Session.thy ===== *)
theory Viewer_Session
  imports Failover Signal_Message Go_Strings
begin

text \<open>
  The viewer's supervisor, \<open>viewerSession\<close> of \<open>cmd/dav-client/main.go\<close>. A peer connection is
  its identity, a tunnel (yamux session) is the epoch whose data channel it was dialled on
  and a serial number, a ready channel is a number. The last fields of the record are the
  parts of the heap the code acts on: which ready channels, tunnels and peer connections
  have been closed and whether a channel was closed twice, which panics. The epoch is a
  \<open>uint64\<close> that counts rebuilds; its wrap-around after 2^64 of them is not modelled.
\<close>

record vsess =
  v_relayOnly :: bool
  v_fails :: nat
  v_race :: int
  v_pc :: "nat option"
  v_mux :: "(nat \<times> nat) option"
  v_ready :: nat
  v_epoch :: nat
  v_rebuild :: bool
  next_ready :: nat
  ready_shut :: "nat \<Rightarrow> bool"
  panicked :: bool
  mux_shut :: "(nat \<times> nat) list"
  pc_shut :: "nat list"

definition newViewerSession :: vsess where
  "newViewerSession = \<lparr>v_relayOnly = False, v_fails = 0, v_race = 0, v_pc = None, v_mux = None,
     v_ready = 0, v_epoch = 0, v_rebuild = False, next_ready = 1, ready_shut = (\<lambda>_. False),
     panicked = False, mux_shut = [], pc_shut = []\<rparr>"

definition snapshotMux :: "vsess \<Rightarrow> (nat \<times> nat) option \<times> nat" where
  "snapshotMux s = (v_mux s, v_ready s)"

definition v_requestRebuild :: "vsess \<Rightarrow> vsess" where
  "v_requestRebuild s = (if v_rebuild s then s else s\<lparr>v_rebuild := True\<rparr>)"

text \<open>Thirty seconds, in nanoseconds.\<close>

definition sdpRaceWindow :: int where "sdpRaceWindow = 30 * 1000000000"
definition tunnelReadyTimeout :: int where "tunnelReadyTimeout = 20 * 1000000000"

definition v_classifyAndMaybeEscalate :: "int \<Rightarrow> vsess \<Rightarrow> vsess" where
  "v_classifyAndMaybeEscalate now s =
     (if 0 < v_race s \<and> now - v_race s < sdpRaceWindow then s
      else
        let s1 = s\<lparr>v_fails := Suc (v_fails s)\<rparr>
        in if v_fails s1 < 2 then s1
           else if \<not> v_relayOnly s1 then s1\<lparr>v_relayOnly := True\<rparr> else s1)"

subsection \<open>Rebuilding\<close>

definition close_mux :: "nat \<times> nat \<Rightarrow> vsess \<Rightarrow> vsess" where
  "close_mux m s = s\<lparr>mux_shut := m # mux_shut s\<rparr>"

definition v_teardown :: "vsess \<Rightarrow> vsess" where
  "v_teardown s =
     (let s1 = (case v_mux s of None \<Rightarrow> s | Some m \<Rightarrow> (close_mux m s)\<lparr>v_mux := None\<rparr>)
      in (case v_pc s1 of None \<Rightarrow> s1 | Some p \<Rightarrow> s1\<lparr>pc_shut := p # pc_shut s1, v_pc := None\<rparr>))"

text \<open>
  The critical section of \<open>rebuild\<close>. \<open>new\<close> is what \<open>peer.NewWithPolicy\<close> returns; the result
  is the new epoch and the ready channel its \<open>OnOpen\<close> will close.
\<close>

definition rebuild_locked :: "error + nat \<Rightarrow> vsess \<Rightarrow> (error + nat \<times> nat) \<times> vsess" where
  "rebuild_locked new s =
     (let s1 = v_teardown s
      in (case new of
            Inl e \<Rightarrow> (Inl (WrapError ''new peer: '' e []), s1)
          | Inr pc \<Rightarrow>
              let s2 = s1\<lparr>v_epoch := Suc (v_epoch s1)\<rparr>;
                  s3 = (if ready_shut s2 (v_ready s2)
                        then s2\<lparr>v_ready := next_ready s2, next_ready := Suc (next_ready s2)\<rparr> else s2)
              in (Inr (v_epoch s3, v_ready s3), s3\<lparr>v_pc := Some pc\<rparr>)))"

text \<open>
  The rest of \<open>rebuild\<close>: the steps that can fail are \<open>CreateDataChannel\<close>, before the \<open>OnOpen\<close>
  callback is registered, then \<open>CreateOffer\<close>, \<open>SetLocalDescription\<close> and \<open>Send\<close>. The
  result is the registered callback and the error.
\<close>

definition rebuild_wire :: "nat \<times> nat \<Rightarrow> error option \<Rightarrow> error option \<Rightarrow> error option \<Rightarrow> error option
    \<Rightarrow> (nat \<times> nat) option \<times> error option" where
  "rebuild_wire cb dcErr offerErr localErr sendErr =
     (case dcErr of Some e \<Rightarrow> (None, Some (WrapError ''create tunnel DC: '' e []))
      | None \<Rightarrow>
          (Some cb,
           case offerErr of Some e \<Rightarrow> Some (WrapError ''create offer: '' e [])
           | None \<Rightarrow>
               (case localErr of Some e \<Rightarrow> Some (WrapError ''set local: '' e [])
                | None \<Rightarrow>
                    (case sendErr of Some e \<Rightarrow> Some (WrapError ''send offer: '' e []) | None \<Rightarrow> None))))"

subsection \<open>Callbacks\<close>

datatype pc_state = PCNew | PCConnecting | PCConnected | PCDisconnected | PCFailed | PCClosed

definition close_ready :: "nat \<Rightarrow> vsess \<Rightarrow> vsess" where
  "close_ready ch s =
     (if ready_shut s ch then s\<lparr>panicked := True\<rparr> else s\<lparr>ready_shut := (ready_shut s)(ch := True)\<rparr>)"

definition v_connected :: "vsess \<Rightarrow> vsess" where
  "v_connected s = s\<lparr>v_fails := 0\<rparr>"

text \<open>
  The callbacks run on goroutines of the library and take the lock several times; each
  constructor is a callback that waits to perform its next atomic action.
\<close>

datatype vtask =
    StateCheck nat pc_state
  | StateAct pc_state
  | ReqRebuild
  | OpenGuard nat nat
  | OpenDial nat nat
  | OpenInstall nat nat "nat \<times> nat"
  | OpenClose nat "nat \<times> nat"
  | Watchdog "nat \<times> nat"

definition state_check :: "nat \<Rightarrow> pc_state \<Rightarrow> vsess \<Rightarrow> vtask list" where
  "state_check e st s = (if v_epoch s = e then [StateAct st] else [])"

definition state_act :: "pc_state \<Rightarrow> int \<Rightarrow> vsess \<Rightarrow> vtask list \<times> vsess" where
  "state_act st now s =
     (case st of
        PCConnected \<Rightarrow> ([], v_connected s)
      | PCDisconnected \<Rightarrow> ([], s)
      | PCFailed \<Rightarrow> ([ReqRebuild], v_classifyAndMaybeEscalate now s)
      | PCClosed \<Rightarrow> ([ReqRebuild], s)
      | _ \<Rightarrow> ([], s))"

definition open_guard :: "nat \<Rightarrow> nat \<Rightarrow> vsess \<Rightarrow> vtask list" where
  "open_guard e ch s = (if v_epoch s \<noteq> e then [] else [OpenDial e ch])"

definition open_dial :: "nat \<Rightarrow> nat \<Rightarrow> error + nat \<Rightarrow> vtask list" where
  "open_dial e ch dial =
     (case dial of Inl err \<Rightarrow> [ReqRebuild] | Inr k \<Rightarrow> [OpenInstall e ch (e, k)])"

definition open_install :: "nat \<Rightarrow> nat \<Rightarrow> nat \<times> nat \<Rightarrow> vsess \<Rightarrow> vtask list \<times> vsess" where
  "open_install e ch m s =
     (if v_epoch s \<noteq> e then ([], close_mux m s) else ([OpenClose ch m], s\<lparr>v_mux := Some m\<rparr>))"

fun run_task :: "vtask \<Rightarrow> error + nat \<Rightarrow> int \<Rightarrow> vsess \<Rightarrow> vtask list \<times> vsess" where
  "run_task (StateCheck e st) dial now s = (state_check e st s, s)"
| "run_task (StateAct st) dial now s = state_act st now s"
| "run_task ReqRebuild dial now s = ([], v_requestRebuild s)"
| "run_task (OpenGuard e ch) dial now s = (open_guard e ch s, s)"
| "run_task (OpenDial e ch) dial now s = (open_dial e ch dial, s)"
| "run_task (OpenInstall e ch m) dial now s = open_install e ch m s"
| "run_task (OpenClose ch m) dial now s = ([Watchdog m], close_ready ch s)"
| "run_task (Watchdog m) dial now s = ([ReqRebuild], s)"

subsection \<open>Signaling\<close>

definition is_sdp_race :: "error \<Rightarrow> bool" where
  "is_sdp_race err \<longleftrightarrow>
     Contains (err_text err) ''InvalidModification'' \<or> Contains (err_text err) ''stable->SetRemote''"

definition v_mark_race :: "int \<Rightarrow> vsess \<Rightarrow> vsess" where
  "v_mark_race now s = s\<lparr>v_race := now\<rparr>"

text \<open>\<open>apply\<close> is the error that \<open>peer.ApplyRemote\<close> returns on the given peer connection.\<close>

definition v_handleSignal :: "(nat \<Rightarrow> Envelope \<Rightarrow> error option) \<Rightarrow> int \<Rightarrow> Envelope \<Rightarrow> vsess \<Rightarrow> vsess" where
  "v_handleSignal apply_remote now env s =
     (if Kind env = ''ready'' then v_requestRebuild s
      else
        (case v_pc s of None \<Rightarrow> s
         | Some pc \<Rightarrow>
             (case apply_remote pc env of
                None \<Rightarrow> s
              | Some err \<Rightarrow> if is_sdp_race err then v_mark_race now s else s)))"

subsection \<open>The supervisor and the whole system\<close>

datatype sup = Waiting | Backoff | Stopped

record vsys =
  ses :: vsess
  tasks :: "vtask list"
  opens :: "(nat \<times> nat) list"
  sup :: sup

datatype vevent =
    EvRebuild "error + nat" "error option" "error option" "error option" "error option"
  | EvWake
  | EvStop
  | EvState nat pc_state
  | EvOpen nat
  | EvTask nat "error + nat" int
  | EvSignal "nat \<Rightarrow> Envelope \<Rightarrow> error option" int Envelope

definition remove_nth :: "nat \<Rightarrow> 'a list \<Rightarrow> 'a list" where
  "remove_nth i xs = take i xs @ drop (Suc i) xs"

text \<open>\<open>run\<close>: its initial request is in \<open>start\<close>; the other cases of its \<open>select\<close> are events.\<close>

definition start :: vsys where
  "start = \<lparr>ses = v_requestRebuild newViewerSession, tasks = [], opens = [], sup = Waiting\<rparr>"

definition run_rebuild :: "error + nat \<Rightarrow> error option \<Rightarrow> error option \<Rightarrow> error option \<Rightarrow> error option
    \<Rightarrow> vsys \<Rightarrow> vsys" where
  "run_rebuild new dcErr offerErr localErr sendErr S =
     (case rebuild_locked new ((ses S)\<lparr>v_rebuild := False\<rparr>) of
        (Inl e, s1) \<Rightarrow> S\<lparr>ses := s1, sup := Backoff\<rparr>
      | (Inr cb, s1) \<Rightarrow>
          (case rebuild_wire cb dcErr offerErr localErr sendErr of
             (reg, err) \<Rightarrow>
               S\<lparr>ses := s1, opens := (case reg of None \<Rightarrow> opens S | Some c \<Rightarrow> opens S @ [c]),
                 sup := (case err of None \<Rightarrow> Waiting | Some _ \<Rightarrow> Backoff)\<rparr>))"

definition run_stop :: "vsys \<Rightarrow> vsys" where
  "run_stop S =
     (case sup S of
        Waiting \<Rightarrow>
          (let s = ses S;
               s1 = (case v_mux s of None \<Rightarrow> s | Some m \<Rightarrow> close_mux m s);
               s2 = (case v_pc s1 of None \<Rightarrow> s1 | Some p \<Rightarrow> s1\<lparr>pc_shut := p # pc_shut s1\<rparr>)
           in S\<lparr>ses := s2, sup := Stopped\<rparr>)
      | _ \<Rightarrow> S\<lparr>sup := Stopped\<rparr>)"

fun vstep :: "vevent \<Rightarrow> vsys \<Rightarrow> vsys" where
  "vstep (EvRebuild new dcErr offerErr localErr sendErr) S =
     (if sup S = Waiting \<and> v_rebuild (ses S)
      then run_rebuild new dcErr offerErr localErr sendErr S else S)"
| "vstep EvWake S =
     (if sup S = Backoff then S\<lparr>ses := v_requestRebuild (ses S), sup := Waiting\<rparr> else S)"
| "vstep EvStop S = (if sup S = Stopped then S else run_stop S)"
| "vstep (EvState e st) S = S\<lparr>tasks := tasks S @ [StateCheck e st]\<rparr>"
| "vstep (EvOpen i) S =
     (if i < length (opens S)
      then S\<lparr>opens := remove_nth i (opens S),
             tasks := tasks S @ [OpenGuard (fst (opens S ! i)) (snd (opens S ! i))]\<rparr>
      else S)"
| "vstep (EvTask i dial now) S =
     (if i < length (tasks S)
      then (let (new, s) = run_task (tasks S ! i) dial now (ses S)
            in S\<lparr>ses := s, tasks := remove_nth i (tasks S) @ new\<rparr>)
      else S)"
| "vstep (EvSignal apply_remote now env) S = S\<lparr>ses := v_handleSignal apply_remote now env (ses S)\<rparr>"

subsection \<open>The local proxy\<close>

datatype proxy_end = NotReady | NoMux | StreamFailed "nat \<times> nat" error | Shuttle "nat \<times> nat" nat

text \<open>
  \<open>proxy\<close> fetches the ready channel in state \<open>s1\<close>, waits for it or the timeout (\<open>late\<close>:
  the timeout case is taken), and fetches the tunnel in state \<open>s2\<close>; \<open>OpenStream\<close> is the
  library's.
\<close>

definition proxy :: "(nat \<times> nat \<Rightarrow> error + nat) \<Rightarrow> bool \<Rightarrow> vsess \<Rightarrow> vsess \<Rightarrow> proxy_end" where
  "proxy OpenStream late s1 s2 =
     (let (_, ready) = snapshotMux s1
      in if late \<or> \<not> ready_shut s2 ready then NotReady
         else
           (case snapshotMux s2 of
              (None, _) \<Rightarrow> NoMux
            | (Some m, _) \<Rightarrow>
                (case OpenStream m of Inl e \<Rightarrow> StreamFailed m e | Inr st \<Rightarrow> Shuttle m st)))"

end
