(* ===== verification/Viewer_Session_Run.thy ===== *)
theory Viewer_Session_Run
  imports Viewer_Session "HOL-Library.Multiset"
begin

text \<open>
  What holds in every run of the viewer's supervisor, over all interleavings of the
  supervisor loop, the library's callbacks, the watchdogs and the signaling loop.
\<close>

subsection \<open>The failure classifier\<close>

interpretation viewer_failover: failover v_classifyAndMaybeEscalate v_connected v_mark_race
  v_fails v_relayOnly v_race sdpRaceWindow
  by unfold_locales
    (auto simp: v_classifyAndMaybeEscalate_def v_connected_def v_mark_race_def Let_def)

subsection \<open>Pending OnOpen callbacks\<close>

text \<open>The epochs for which an \<open>OnOpen\<close> callback is registered or is still on its way.\<close>

fun task_token :: "vtask \<Rightarrow> (nat \<times> nat) list" where
  "task_token (OpenGuard e ch) = [(e, ch)]"
| "task_token (OpenDial e ch) = [(e, ch)]"
| "task_token (OpenInstall e ch m) = [(e, ch)]"
| "task_token t = []"

definition tokens :: "vsys \<Rightarrow> (nat \<times> nat) multiset" where
  "tokens S = mset (opens S) + mset (concat (map task_token (tasks S)))"

lemma mset_remove_nth:
  "i < length xs \<Longrightarrow> add_mset (xs ! i) (mset (remove_nth i xs)) = mset xs"
  unfolding remove_nth_def using id_take_nth_drop [of i xs]
  by (metis add.commute mset.simps(2) mset_append union_mset_add_mset_right)

lemma mset_concat_remove_nth:
  "i < length xs \<Longrightarrow> mset (f (xs ! i)) + mset (concat (map f (remove_nth i xs))) = mset (concat (map f xs))"
proof -
  assume "i < length xs"
  then have "concat (map f xs) = concat (map f (take i xs)) @ f (xs ! i) @ concat (map f (drop (Suc i) xs))"
    using id_take_nth_drop [of i xs] by (metis concat.simps(2) concat_append list.map(2) map_append)
  then show ?thesis by (simp add: remove_nth_def)
qed

lemma set_remove_nth: "set (remove_nth i xs) \<subseteq> set xs"
  by (auto simp: remove_nth_def dest: in_set_takeD in_set_dropD)

lemma run_task_token:
  "run_task t dial now s = (new, s') \<Longrightarrow> mset (concat (map task_token new)) \<subseteq># mset (task_token t)"
  by (cases t) (auto simp: state_check_def state_act_def open_guard_def open_dial_def open_install_def
      split: if_splits sum.splits pc_state.splits)

lemma run_task_epoch [simp]:
  "run_task t dial now s = (new, s') \<Longrightarrow> v_epoch s' = v_epoch s \<and> v_ready s' = v_ready s
     \<and> next_ready s' = next_ready s \<and> v_pc s' = v_pc s"
  by (cases t) (auto simp: state_act_def open_install_def v_classifyAndMaybeEscalate_def Let_def
      v_connected_def v_requestRebuild_def close_ready_def close_mux_def
      split: if_splits pc_state.splits)

lemma tokens_task:
  assumes "i < length (tasks S)" and "run_task (tasks S ! i) dial now (ses S) = (new, s')"
  shows "tokens (vstep (EvTask i dial now) S) \<subseteq># tokens S"
proof -
  let ?M = "mset (concat (map task_token (remove_nth i (tasks S))))"
  have "?M + mset (concat (map task_token new)) \<subseteq># ?M + mset (task_token (tasks S ! i))"
    using run_task_token [OF assms(2)] by (rule subset_mset.add_left_mono)
  also have "\<dots> = mset (concat (map task_token (tasks S)))"
    using mset_concat_remove_nth [OF assms(1), of task_token] by (simp add: add.commute)
  finally show ?thesis using assms by (simp add: tokens_def subset_mset.add_left_mono)
qed

lemma tokens_open:
  assumes "i < length (opens S)"
  shows "tokens (vstep (EvOpen i) S) = tokens S"
  using assms mset_remove_nth [OF assms] by (simp add: tokens_def)

text \<open>
  The invariant: at most one such callback per epoch, none for an epoch to come, and none for
  the epoch of an installed tunnel, which is the current one.
\<close>

fun install_ok :: "vtask \<Rightarrow> bool" where
  "install_ok (OpenInstall e ch m) = (fst m = e)"
| "install_ok t = True"

lemma run_task_install:
  "run_task t dial now s = (new, s') \<Longrightarrow> \<forall>x \<in> set new. install_ok x"
  by (cases t) (auto simp: state_check_def state_act_def open_guard_def open_dial_def open_install_def
      split: if_splits sum.splits pc_state.splits)

definition vinv :: "vsys \<Rightarrow> bool" where
  "vinv S \<longleftrightarrow>
     (\<forall>e. count (image_mset fst (tokens S)) e \<le> 1)
   \<and> (\<forall>t \<in># tokens S. fst t \<le> v_epoch (ses S))
   \<and> (\<forall>m. v_mux (ses S) = Some m \<longrightarrow> fst m = v_epoch (ses S) \<and> fst m \<notin># image_mset fst (tokens S))
   \<and> (\<forall>t \<in> set (tasks S). install_ok t)"

lemma vinv_start: "vinv start"
  by (simp add: vinv_def start_def tokens_def newViewerSession_def v_requestRebuild_def)

text \<open>Steps that only drop callbacks and leave the tunnel and the epoch alone.\<close>

lemma vinv_shrink:
  assumes "vinv S" and "tokens S' \<subseteq># tokens S" and "v_epoch (ses S') = v_epoch (ses S)"
    and "v_mux (ses S') = v_mux (ses S) \<or> v_mux (ses S') = None"
    and "\<forall>t \<in> set (tasks S'). install_ok t"
  shows "vinv S'"
proof -
  have sub: "image_mset fst (tokens S') \<subseteq># image_mset fst (tokens S)"
    using assms(2) by (rule image_mset_subseteq_mono)
  have "count (image_mset fst (tokens S')) e \<le> 1" for e
    using mset_subset_eq_count [OF sub, of e] assms(1) by (meson le_trans vinv_def)
  moreover have "\<forall>t \<in># tokens S'. fst t \<le> v_epoch (ses S')"
    using assms(1-3) by (metis mset_subset_eqD vinv_def)
  moreover have "fst m = v_epoch (ses S') \<and> fst m \<notin># image_mset fst (tokens S')"
    if "v_mux (ses S') = Some m" for m
    using that assms(1,3,4) mset_subset_eqD [OF sub] unfolding vinv_def by (metis option.distinct(1))
  ultimately show ?thesis using assms(5) unfolding vinv_def by blast
qed

lemma vinv_task:
  assumes inv: "vinv S" and i: "i < length (tasks S)"
  shows "vinv (vstep (EvTask i dial now) S)"
proof -
  obtain new s' where r: "run_task (tasks S ! i) dial now (ses S) = (new, s')" by fastforce
  obtain S1 where S1: "vstep (EvTask i dial now) S = S1" by blast
  have S': "ses S1 = s'" "tasks S1 = remove_nth i (tasks S) @ new" "opens S1 = opens S"
    using i r S1 by auto
  have sub: "tokens S1 \<subseteq># tokens S" using tokens_task [OF i r] S1 by simp
  have ep: "v_epoch (ses S1) = v_epoch (ses S)" using S'(1) run_task_epoch [OF r] by simp
  have "\<forall>t \<in> set (remove_nth i (tasks S)). install_ok t"
    using inv set_remove_nth [of i "tasks S"] unfolding vinv_def by blast
  with run_task_install [OF r] have inst: "\<forall>t \<in> set (tasks S1). install_ok t"
    unfolding S' by auto
  have "vinv S1"
  proof (cases "v_mux s' = v_mux (ses S)")
    case True
    then have "v_mux (ses S1) = v_mux (ses S) \<or> v_mux (ses S1) = None" using S' by simp
    with vinv_shrink [OF inv sub ep _ inst] show ?thesis by blast
  next
    case False
    then obtain e ch m where t: "tasks S ! i = OpenInstall e ch m" and e: "e = v_epoch (ses S)"
        and new: "new = [OpenClose ch m]" and mux: "v_mux s' = Some m"
      using r by (cases "tasks S ! i") (auto simp: state_act_def open_install_def
          v_classifyAndMaybeEscalate_def Let_def v_connected_def v_requestRebuild_def close_ready_def
          close_mux_def split: if_splits pc_state.splits)
    have tok: "add_mset (e, ch) (tokens S1) = tokens S"
      using mset_concat_remove_nth [OF i, of task_token] S' t new by (simp add: tokens_def)
    then have "count (image_mset fst (tokens S)) e = Suc (count (image_mset fst (tokens S1)) e)"
      by (metis count_add_mset fst_conv image_mset_add_mset)
    moreover have "count (image_mset fst (tokens S)) e \<le> 1" using inv unfolding vinv_def by blast
    ultimately have "count (image_mset fst (tokens S1)) e = 0" by simp
    then have zero: "e \<notin># image_mset fst (tokens S1)" by (rule count_eq_zero_iff [THEN iffD1])
    have fst: "fst m = e" using inv t i unfolding vinv_def by (metis install_ok.simps(1) nth_mem)
    let ?S0 = "S1\<lparr>ses := (ses S1)\<lparr>v_mux := None\<rparr>\<rparr>"
    have t0: "tokens ?S0 = tokens S1" by (simp add: tokens_def)
    have "vinv ?S0"
      by (rule vinv_shrink [OF inv]) (use sub ep inst t0 in simp_all)
    then show ?thesis
      using zero fst e ep mux S'(1) t0 unfolding vinv_def by simp
  qed
  with S1 show ?thesis by simp
qed

lemma teardown_simps [simp]:
  "v_mux (v_teardown s) = None" "v_pc (v_teardown s) = None" "v_epoch (v_teardown s) = v_epoch s"
  "v_ready (v_teardown s) = v_ready s" "ready_shut (v_teardown s) = ready_shut s"
  "next_ready (v_teardown s) = next_ready s" "panicked (v_teardown s) = panicked s"
  "v_rebuild (v_teardown s) = v_rebuild s"
  by (auto simp: v_teardown_def close_mux_def Let_def split: option.splits)

lemma vinv_rebuild:
  assumes inv: "vinv S"
  shows "vinv (run_rebuild new dcErr offerErr localErr sendErr S)"
proof (cases new)
  case (Inl e)
  then have "run_rebuild new dcErr offerErr localErr sendErr S =
      S\<lparr>ses := v_teardown ((ses S)\<lparr>v_rebuild := False\<rparr>), sup := Backoff\<rparr>"
    by (simp add: run_rebuild_def rebuild_locked_def)
  then show ?thesis
    using inv by (auto simp: vinv_def tokens_def)
next
  case (Inr pc)
  let ?S = "run_rebuild new dcErr offerErr localErr sendErr S"
  obtain ch s1 where l: "rebuild_locked new ((ses S)\<lparr>v_rebuild := False\<rparr>) = (Inr (Suc (v_epoch (ses S)), ch), s1)"
      and s1: "v_epoch s1 = Suc (v_epoch (ses S))" "v_mux s1 = None"
    using Inr by (simp add: rebuild_locked_def Let_def)
  obtain reg err where w: "rebuild_wire (Suc (v_epoch (ses S)), ch) dcErr offerErr localErr sendErr = (reg, err)"
    by fastforce
  then have reg: "reg = None \<or> reg = Some (Suc (v_epoch (ses S)), ch)"
    by (auto simp: rebuild_wire_def split: option.splits)
  have S': "ses ?S = s1" "tasks ?S = tasks S"
    "opens ?S = (case reg of None \<Rightarrow> opens S | Some c \<Rightarrow> opens S @ [c])"
    using l w by (simp_all add: run_rebuild_def)
  have tok: "tokens ?S = tokens S \<or> tokens ?S = add_mset (Suc (v_epoch (ses S)), ch) (tokens S)"
    using reg S' by (auto simp: tokens_def)
  have fresh: "count (image_mset fst (tokens S)) (Suc (v_epoch (ses S))) = 0"
  proof -
    have "\<forall>t \<in># tokens S. fst t \<noteq> Suc (v_epoch (ses S))"
      using inv unfolding vinv_def by (metis Suc_n_not_le_n)
    then have "Suc (v_epoch (ses S)) \<notin># image_mset fst (tokens S)" by auto
    then show ?thesis by (rule count_eq_zero_iff [THEN iffD2])
  qed
  have "count (image_mset fst (tokens ?S)) e \<le> 1" for e
  proof -
    have "count (image_mset fst (tokens S)) e \<le> 1" using inv unfolding vinv_def by blast
    with tok fresh show ?thesis by (cases "e = Suc (v_epoch (ses S))") (elim disjE; simp)+
  qed
  moreover have "\<forall>t \<in># tokens ?S. fst t \<le> v_epoch (ses ?S)"
    using tok inv S' s1 unfolding vinv_def by (elim disjE) (auto intro: le_SucI)
  ultimately show ?thesis
    using inv S' s1 unfolding vinv_def by simp
qed

lemma vinv_step:
  assumes "vinv S"
  shows "vinv (vstep ev S)"
proof (cases ev)
  case (EvRebuild new dcErr offerErr localErr sendErr)
  with vinv_rebuild [OF assms] assms show ?thesis by simp
next
  case EvWake
  with assms show ?thesis by (auto simp: vinv_def tokens_def v_requestRebuild_def)
next
  case EvStop
  with assms show ?thesis
    by (auto simp: vinv_def tokens_def run_stop_def close_mux_def Let_def split: sup.splits option.splits)
next
  case (EvState e st)
  with assms show ?thesis by (auto simp: vinv_def tokens_def)
next
  case (EvOpen i)
  show ?thesis
  proof (cases "i < length (opens S)")
    case True
    with EvOpen assms tokens_open [OF True] show ?thesis
      by (intro vinv_shrink [OF assms]) (auto simp: vinv_def)
  next
    case False
    with EvOpen assms show ?thesis by simp
  qed
next
  case (EvTask i dial now)
  with vinv_task [OF assms] assms show ?thesis by (cases "i < length (tasks S)") simp_all
next
  case (EvSignal apply_remote now env)
  with assms show ?thesis
    by (auto simp: vinv_def tokens_def v_handleSignal_def v_requestRebuild_def v_mark_race_def
        split: option.splits)
qed

lemma vinv_run: "vinv S \<Longrightarrow> vinv (fold vstep evs S)"
  by (induction evs arbitrary: S) (simp_all add: vinv_step)

subsection \<open>Tunnels are accounted for\<close>

fun task_mux :: "vtask \<Rightarrow> (nat \<times> nat) list" where
  "task_mux (OpenInstall e ch m) = [m]"
| "task_mux t = []"

text \<open>
  The tunnels that the session or a callback on its way still has in hand, and those that
  have been closed.
\<close>

definition accounted :: "vsys \<Rightarrow> (nat \<times> nat) set" where
  "accounted S = set_option (v_mux (ses S)) \<union> set (concat (map task_mux (tasks S)))
     \<union> set (mux_shut (ses S))"

lemma set_concat_remove_nth:
  "i < length xs \<Longrightarrow> set (concat (map f xs)) = set (f (xs ! i)) \<union> set (concat (map f (remove_nth i xs)))"
  using mset_concat_remove_nth [of i xs f] by (metis set_mset_mset set_mset_union)

lemma install_mux_free:
  assumes "vinv S" and "OpenInstall e ch m \<in> set (tasks S)" and "e = v_epoch (ses S)"
  shows "v_mux (ses S) = None"
proof (rule ccontr)
  assume "v_mux (ses S) \<noteq> None"
  then obtain m' where m': "v_mux (ses S) = Some m'" by blast
  with assms(1) have "fst m' = v_epoch (ses S)" "fst m' \<notin># image_mset fst (tokens S)"
    unfolding vinv_def by blast+
  moreover have "(e, ch) \<in># tokens S"
    using assms(2) by (force simp: tokens_def)
  ultimately show False using assms(3) by force
qed

lemma run_task_mux:
  assumes "run_task t dial now s = (new, s')"
    and "\<And>e ch m. t = OpenInstall e ch m \<Longrightarrow> e = v_epoch s \<Longrightarrow> v_mux s = None"
  shows "set_option (v_mux s) \<union> set (mux_shut s) \<union> set (task_mux t)
      \<subseteq> set_option (v_mux s') \<union> set (mux_shut s') \<union> set (concat (map task_mux new))"
proof (cases t)
  case (OpenInstall e ch m)
  show ?thesis
  proof (cases "v_epoch s = e")
    case True
    then have "v_mux s = None" using assms(2) OpenInstall by blast
    with True assms(1) OpenInstall show ?thesis by (auto simp: open_install_def)
  next
    case False
    with assms(1) OpenInstall show ?thesis by (auto simp: open_install_def close_mux_def)
  qed
next
  case (StateAct st)
  with assms(1) show ?thesis
    by (cases st) (auto simp: state_act_def v_classifyAndMaybeEscalate_def Let_def v_connected_def)
qed (use assms(1) in \<open>auto simp: v_requestRebuild_def close_ready_def split: if_splits\<close>)

lemma accounted_task:
  assumes inv: "vinv S" and i: "i < length (tasks S)"
  shows "accounted S \<subseteq> accounted (vstep (EvTask i dial now) S)"
proof -
  obtain new s' where r: "run_task (tasks S ! i) dial now (ses S) = (new, s')" by fastforce
  obtain S1 where S1: "vstep (EvTask i dial now) S = S1" by blast
  have S': "ses S1 = s'" "tasks S1 = remove_nth i (tasks S) @ new"
    using i r S1 by auto
  have mem: "tasks S ! i \<in> set (tasks S)" using i by simp
  have keep: "set (concat (map task_mux (tasks S)))
      = set (task_mux (tasks S ! i)) \<union> set (concat (map task_mux (remove_nth i (tasks S))))"
    by (rule set_concat_remove_nth [OF i])
  have "set_option (v_mux (ses S)) \<union> set (mux_shut (ses S)) \<union> set (task_mux (tasks S ! i))
      \<subseteq> set_option (v_mux s') \<union> set (mux_shut s') \<union> set (concat (map task_mux new))"
    using install_mux_free [OF inv] mem by (intro run_task_mux [OF r]) metis
  then have "accounted S \<subseteq> accounted S1"
    unfolding accounted_def keep S' map_append concat_append set_append by blast
  with S1 show ?thesis by simp
qed

lemma teardown_mux_shut:
  "set (mux_shut (v_teardown s)) = set (mux_shut s) \<union> set_option (v_mux s)"
  by (auto simp: v_teardown_def close_mux_def Let_def split: option.splits)

lemma rebuild_locked_mux:
  "rebuild_locked new s = (r, s1) \<Longrightarrow> mux_shut s1 = mux_shut (v_teardown s) \<and> v_mux s1 = None"
  by (auto simp: rebuild_locked_def Let_def split: sum.splits)

lemma run_rebuild_ses:
  "\<exists>r s1. rebuild_locked new ((ses S)\<lparr>v_rebuild := False\<rparr>) = (r, s1)
     \<and> ses (run_rebuild new dcErr offerErr localErr sendErr S) = s1
     \<and> tasks (run_rebuild new dcErr offerErr localErr sendErr S) = tasks S"
  by (auto simp: run_rebuild_def split: sum.splits prod.splits)

lemma accounted_rebuild: "accounted S \<subseteq> accounted (run_rebuild new dcErr offerErr localErr sendErr S)"
proof -
  from run_rebuild_ses [of new S dcErr offerErr localErr sendErr] obtain r s1
    where l: "rebuild_locked new ((ses S)\<lparr>v_rebuild := False\<rparr>) = (r, s1)"
      and S': "ses (run_rebuild new dcErr offerErr localErr sendErr S) = s1"
        "tasks (run_rebuild new dcErr offerErr localErr sendErr S) = tasks S" by blast
  have "set (mux_shut s1) = set (mux_shut (ses S)) \<union> set_option (v_mux (ses S))"
    using rebuild_locked_mux [OF l] teardown_mux_shut [of "(ses S)\<lparr>v_rebuild := False\<rparr>"] by simp
  then show ?thesis unfolding accounted_def S' by blast
qed

lemma accounted_step:
  assumes "vinv S"
  shows "accounted S \<subseteq> accounted (vstep ev S)"
proof (cases ev)
  case (EvRebuild new dcErr offerErr localErr sendErr)
  with accounted_rebuild [of S new dcErr offerErr localErr sendErr] show ?thesis by simp
next
  case (EvTask i dial now)
  with accounted_task [OF assms] show ?thesis by (cases "i < length (tasks S)") simp_all
next
  case EvStop
  then show ?thesis
    by (auto simp: accounted_def run_stop_def close_mux_def Let_def split: sup.splits option.splits)
next
  case (EvSignal apply_remote now env)
  then show ?thesis
    by (auto simp: accounted_def v_handleSignal_def v_requestRebuild_def v_mark_race_def
        split: option.splits)
qed (auto simp: accounted_def v_requestRebuild_def)

lemma accounted_run: "vinv S \<Longrightarrow> accounted S \<subseteq> accounted (fold vstep evs S)"
proof (induction evs arbitrary: S)
  case Nil
  then show ?case by simp
next
  case (Cons ev evs)
  from accounted_step [OF Cons.prems, of ev] Cons.IH [OF vinv_step [OF Cons.prems, of ev]]
  show ?case by (auto dest: subsetD)
qed

lemma vinv_reachable: "vinv (fold vstep evs start)"
  by (rule vinv_run [OF vinv_start])

text \<open>
  Property C25: one tunnel at a time, and none is lost. In every state that any interleaving of
  rebuilds, callbacks, watchdogs and signals can reach, the installed tunnel was dialled on
  the data channel of the current epoch; and a tunnel that the session or a callback has in
  hand is, whatever happens next, still in hand or has been closed.
\<close>
theorem viewer_tunnel_current_and_accounted:
  "(\<forall>m. v_mux (ses (fold vstep evs start)) = Some m \<longrightarrow> fst m = v_epoch (ses (fold vstep evs start)))
   \<and> accounted (fold vstep evs start) \<subseteq> accounted (fold vstep (evs @ evs') start)"
  using vinv_reachable [of evs] accounted_run [OF vinv_reachable [of evs], of evs']
  by (simp add: vinv_def)

text \<open>A rebuild, its tunnel, and a failure of the peer connection.\<close>

definition demo_up :: "vevent list" where
  "demo_up = [EvRebuild (Inr 0) None None None None, EvOpen 0, EvTask 0 (Inr 7) 0, EvTask 0 (Inr 7) 0,
     EvTask 0 (Inr 7) 0, EvTask 0 (Inr 7) 0]"

lemmas demo_simps = start_def newViewerSession_def v_requestRebuild_def run_rebuild_def
  rebuild_locked_def rebuild_wire_def v_teardown_def close_mux_def open_guard_def open_dial_def
  open_install_def close_ready_def remove_nth_def state_check_def state_act_def
  v_classifyAndMaybeEscalate_def v_connected_def

theorem viewer_tunnel_current_and_accounted_witness:
  "v_mux (ses (fold vstep demo_up start)) = Some (1, 7)
   \<and> (1, 7) \<in> accounted (fold vstep (demo_up @ [EvTask 0 (Inr 0) 0, EvTask 0 (Inr 0) 0,
        EvRebuild (Inr 1) None None None None]) start)"
proof -
  have m: "v_mux (ses (fold vstep demo_up start)) = Some (1, 7)"
    by (simp add: demo_up_def demo_simps)
  then have "(1, 7) \<in> accounted (fold vstep demo_up start)"
    by (simp add: accounted_def)
  with m viewer_tunnel_current_and_accounted [of demo_up "[EvTask 0 (Inr 0) 0, EvTask 0 (Inr 0) 0,
        EvRebuild (Inr 1) None None None None]"] show ?thesis by blast
qed

subsection \<open>The ready channel\<close>

fun task_close :: "vtask \<Rightarrow> (nat \<times> (nat \<times> nat)) list" where
  "task_close (OpenClose ch m) = [(ch, m)]"
| "task_close t = []"

definition closers :: "vsys \<Rightarrow> (nat \<times> (nat \<times> nat)) multiset" where
  "closers S = mset (concat (map task_close (tasks S)))"

text \<open>
  Installing the tunnel and closing the ready channel are two steps. A history is undisturbed
  if the supervisor does not rebuild between the two.
\<close>

fun undisturbed :: "vevent list \<Rightarrow> vsys \<Rightarrow> bool" where
  "undisturbed [] S = True"
| "undisturbed (ev # evs) S =
     ((case ev of EvRebuild _ _ _ _ _ \<Rightarrow> closers S = {#} | _ \<Rightarrow> True) \<and> undisturbed evs (vstep ev S))"

definition rinv :: "vsys \<Rightarrow> bool" where
  "rinv S \<longleftrightarrow> (let s = ses S in
     \<not> panicked s
   \<and> v_ready s < next_ready s \<and> (\<forall>ch. next_ready s \<le> ch \<longrightarrow> \<not> ready_shut s ch)
   \<and> (\<forall>t \<in># tokens S. fst t = v_epoch s \<longrightarrow> snd t = v_ready s \<and> \<not> ready_shut s (v_ready s))
   \<and> size (closers S) \<le> 1
   \<and> (\<forall>c \<in># closers S. fst c = v_ready s \<and> \<not> ready_shut s (v_ready s) \<and> v_mux s = Some (snd c))
   \<and> (ready_shut s (v_ready s) \<longrightarrow> v_mux s \<noteq> None \<or> v_pc s = None))"

lemma rinv_start: "rinv start"
  by (simp add: rinv_def start_def tokens_def closers_def newViewerSession_def v_requestRebuild_def)

text \<open>Steps that keep the session's tunnel, epoch and channels.\<close>

lemma rinv_same:
  assumes "rinv S" and "tokens S' \<subseteq># tokens S" and "closers S' \<subseteq># closers S"
    and "v_mux (ses S') = v_mux (ses S)" "v_epoch (ses S') = v_epoch (ses S)"
    and "v_ready (ses S') = v_ready (ses S)" "next_ready (ses S') = next_ready (ses S)"
    and "ready_shut (ses S') = ready_shut (ses S)" "panicked (ses S') = panicked (ses S)"
    and "v_pc (ses S') = v_pc (ses S)"
  shows "rinv S'"
proof -
  have "size (closers S') \<le> size (closers S)" using assms(3) by (rule size_mset_mono)
  moreover have "set_mset (tokens S') \<subseteq> set_mset (tokens S)" using assms(2) by (rule set_mset_mono)
  moreover have "set_mset (closers S') \<subseteq> set_mset (closers S)" using assms(3) by (rule set_mset_mono)
  ultimately show ?thesis
    using assms(1) unfolding rinv_def Let_def assms(4-10) by (auto dest: subsetD)
qed

lemma classify_frame [simp]:
  "v_mux (v_classifyAndMaybeEscalate now s) = v_mux s"
  "ready_shut (v_classifyAndMaybeEscalate now s) = ready_shut s"
  "panicked (v_classifyAndMaybeEscalate now s) = panicked s"
  by (simp_all add: v_classifyAndMaybeEscalate_def Let_def)

lemma run_task_same:
  assumes "run_task t dial now s = (new, s')" and "\<And>e ch m. t \<noteq> OpenInstall e ch m"
    and "\<And>ch m. t \<noteq> OpenClose ch m"
  shows "v_mux s' = v_mux s \<and> ready_shut s' = ready_shut s \<and> panicked s' = panicked s
    \<and> concat (map task_close new) = []"
proof (cases t)
  case (StateAct st)
  with assms(1) show ?thesis
    by (cases st) (auto simp: state_act_def v_connected_def)
qed (use assms in \<open>auto simp: v_requestRebuild_def state_check_def open_guard_def open_dial_def
    split: if_splits sum.splits\<close>)

lemma closers_task:
  assumes "i < length (tasks S)" and "tasks S1 = remove_nth i (tasks S) @ new"
  shows "mset (task_close (tasks S ! i)) + closers S1 = closers S + mset (concat (map task_close new))"
  using mset_concat_remove_nth [OF assms(1), of task_close] assms(2)
  by (simp add: closers_def add.assoc [symmetric])

lemma tokens_task_mem:
  "i < length (tasks S) \<Longrightarrow> tasks S ! i = OpenInstall e ch m \<Longrightarrow> (e, ch) \<in># tokens S"
proof -
  assume "i < length (tasks S)" and t: "tasks S ! i = OpenInstall e ch m"
  then have "OpenInstall e ch m \<in> set (tasks S)" by (metis nth_mem)
  then have "(e, ch) \<in> set (concat (map task_token (tasks S)))"
    by (auto intro!: bexI [of _ "OpenInstall e ch m"])
  then show ?thesis by (simp add: tokens_def)
qed

lemma rinv_task:
  assumes v: "vinv S" and inv: "rinv S" and i: "i < length (tasks S)"
  shows "rinv (vstep (EvTask i dial now) S)"
proof -
  obtain new s' where r: "run_task (tasks S ! i) dial now (ses S) = (new, s')" by fastforce
  obtain S1 where S1: "vstep (EvTask i dial now) S = S1" by blast
  have S': "ses S1 = s'" "tasks S1 = remove_nth i (tasks S) @ new" "opens S1 = opens S"
    using i r S1 by auto
  have sub: "tokens S1 \<subseteq># tokens S" using tokens_task [OF i r] S1 by simp
  note cl = closers_task [OF i S'(2)]
  note fr = run_task_epoch [OF r]
  have "rinv S1"
  proof (cases "tasks S ! i")
    case (OpenInstall e ch m)
    show ?thesis
    proof (cases "v_epoch (ses S) = e")
      case False
      with OpenInstall r have "new = []" "s' = close_mux m (ses S)" by (auto simp: open_install_def)
      with cl OpenInstall S' sub show ?thesis
        by (intro rinv_same [OF inv]) (auto simp: close_mux_def)
    next
      case True
      with OpenInstall r have new: "new = [OpenClose ch m]" and s': "s' = (ses S)\<lparr>v_mux := Some m\<rparr>"
        by (auto simp: open_install_def)
      have none: "v_mux (ses S) = None"
        using install_mux_free [OF v, of e ch m] True OpenInstall i by (metis nth_mem)
      have "closers S = {#}"
        using inv none unfolding rinv_def Let_def by (metis multiset_nonemptyE option.distinct(1))
      with cl OpenInstall new have c1: "closers S1 = {#(ch, m)#}" by simp
      have "ch = v_ready (ses S)" "\<not> ready_shut (ses S) (v_ready (ses S))"
        using inv tokens_task_mem [OF i OpenInstall] True unfolding rinv_def Let_def by fastforce+
      with inv c1 S' s' mset_subset_eqD [OF sub] show ?thesis
        unfolding rinv_def Let_def by auto
    qed
  next
    case (OpenClose ch m)
    with r have new: "new = [Watchdog m]" and s': "s' = close_ready ch (ses S)" by auto
    from cl OpenClose new have "add_mset (ch, m) (closers S1) = closers S" by simp
    then have c1: "closers S1 = {#}" and mem: "(ch, m) \<in># closers S"
      using inv unfolding rinv_def Let_def
      by (metis One_nat_def Suc_le_mono le_zero_eq size_add_mset size_eq_0_iff_empty) (metis \<open>add_mset (ch, m) (closers S1) = closers S\<close> union_single_eq_member)
    then have ch: "ch = v_ready (ses S)" "\<not> ready_shut (ses S) ch" "v_mux (ses S) = Some m"
      using inv unfolding rinv_def Let_def by fastforce+
    have none: "fst t \<noteq> v_epoch (ses S)" if "t \<in># tokens S1" for t
      using v ch(3) mset_subset_eqD [OF sub that] unfolding vinv_def by force
    show ?thesis
      using inv c1 ch S' s' none mset_subset_eqD [OF sub] unfolding rinv_def Let_def close_ready_def by auto
  qed (rule rinv_same [OF inv sub], use cl S' fr run_task_same [OF r] in auto)+
  with S1 show ?thesis by simp
qed

lemma rinv_rebuild:
  assumes v: "vinv S" and inv: "rinv S" and calm: "closers S = {#}"
  shows "rinv (run_rebuild new dcErr offerErr localErr sendErr S)"
proof -
  obtain S1 where S1: "run_rebuild new dcErr offerErr localErr sendErr S = S1" by blast
  have cl: "closers S1 = {#}"
    using calm run_rebuild_ses [of new S dcErr offerErr localErr sendErr] S1 by (auto simp: closers_def)
  have parts: "\<not> panicked (ses S)" "v_ready (ses S) < next_ready (ses S)"
      "\<And>ch. next_ready (ses S) \<le> ch \<Longrightarrow> \<not> ready_shut (ses S) ch"
      "\<And>t. t \<in># tokens S \<Longrightarrow> fst t = v_epoch (ses S) \<Longrightarrow>
         snd t = v_ready (ses S) \<and> \<not> ready_shut (ses S) (v_ready (ses S))"
    using inv unfolding rinv_def Let_def by blast+
  have "rinv S1"
  proof (cases new)
    case (Inl e)
    with S1 have "S1 = S\<lparr>ses := v_teardown ((ses S)\<lparr>v_rebuild := False\<rparr>), sup := Backoff\<rparr>"
      by (simp add: run_rebuild_def rebuild_locked_def)
    moreover from this have "tokens S1 = tokens S" by (simp add: tokens_def)
    ultimately show ?thesis using parts cl unfolding rinv_def Let_def by simp
  next
    case (Inr pc)
    obtain ch s1 where l: "rebuild_locked new ((ses S)\<lparr>v_rebuild := False\<rparr>) = (Inr (Suc (v_epoch (ses S)), ch), s1)"
        and s1: "v_epoch s1 = Suc (v_epoch (ses S))" "v_mux s1 = None" "panicked s1 = panicked (ses S)"
          "ready_shut s1 = ready_shut (ses S)" "ch = v_ready s1"
        and rd: "v_ready s1 = (if ready_shut (ses S) (v_ready (ses S)) then next_ready (ses S) else v_ready (ses S))"
          "next_ready s1 = (if ready_shut (ses S) (v_ready (ses S)) then Suc (next_ready (ses S)) else next_ready (ses S))"
      using Inr by (simp add: rebuild_locked_def Let_def)
    obtain reg err where w: "rebuild_wire (Suc (v_epoch (ses S)), ch) dcErr offerErr localErr sendErr = (reg, err)"
      by fastforce
    then have reg: "reg = None \<or> reg = Some (Suc (v_epoch (ses S)), ch)"
      by (auto simp: rebuild_wire_def split: option.splits)
    have S': "ses S1 = s1" "tasks S1 = tasks S"
      "opens S1 = (case reg of None \<Rightarrow> opens S | Some c \<Rightarrow> opens S @ [c])"
      using l w S1 by (auto simp: run_rebuild_def)
    have tok: "t \<in># tokens S1 \<Longrightarrow> t \<in># tokens S \<or> t = (Suc (v_epoch (ses S)), ch)" for t
      using reg S' by (auto simp: tokens_def)
    have old: "t \<in># tokens S \<Longrightarrow> fst t \<noteq> Suc (v_epoch (ses S))" for t
      using v unfolding vinv_def by (metis Suc_n_not_le_n)
    have open_ch: "\<not> ready_shut (ses S) (v_ready s1)" using rd parts(3) by auto
    have "v_ready s1 < next_ready s1 \<and> (\<forall>c. next_ready s1 \<le> c \<longrightarrow> \<not> ready_shut (ses S) c)"
      using rd parts(2,3) by auto
    moreover have "snd t = v_ready s1" if "t \<in># tokens S1" "fst t = v_epoch s1" for t
      using tok [OF that(1)] old [of t] that(2) s1(1,5) by auto
    ultimately show ?thesis
      using cl parts(1) s1 S'(1) open_ch unfolding rinv_def Let_def by auto
  qed
  with S1 show ?thesis by simp
qed

lemma rinv_step:
  assumes v: "vinv S" and inv: "rinv S" and calm: "undisturbed [ev] S"
  shows "rinv (vstep ev S)"
proof (cases ev)
  case (EvRebuild new dcErr offerErr localErr sendErr)
  with rinv_rebuild [OF v inv] calm inv show ?thesis by simp
next
  case EvWake
  with inv show ?thesis
    by (auto simp: v_requestRebuild_def tokens_def closers_def intro!: rinv_same [OF inv])
next
  case EvStop
  with inv show ?thesis
    by (auto simp: tokens_def closers_def run_stop_def close_mux_def Let_def
        intro!: rinv_same [OF inv] split: sup.splits option.splits)
next
  case (EvState e st)
  then show ?thesis by (intro rinv_same [OF inv]) (simp_all add: tokens_def closers_def)
next
  case (EvOpen i)
  show ?thesis
  proof (cases "i < length (opens S)")
    case True
    have "closers (vstep (EvOpen i) S) = closers S" using True by (simp add: closers_def)
    with EvOpen True tokens_open [OF True] show ?thesis
      by (intro rinv_same [OF inv]) simp_all
  next
    case False
    with EvOpen inv show ?thesis by simp
  qed
next
  case (EvTask i dial now)
  with rinv_task [OF v inv] inv show ?thesis by (cases "i < length (tasks S)") simp_all
next
  case (EvSignal apply_remote now env)
  then show ?thesis
    by (intro rinv_same [OF inv]) (auto simp: tokens_def closers_def v_handleSignal_def
        v_requestRebuild_def v_mark_race_def split: option.splits)
qed

lemma rinv_run: "vinv S \<Longrightarrow> rinv S \<Longrightarrow> undisturbed evs S \<Longrightarrow> rinv (fold vstep evs S)"
proof (induction evs arbitrary: S)
  case (Cons ev evs)
  then show ?case using vinv_step [of S ev] rinv_step [of S ev] by simp
qed simp

text \<open>
  Property C26: the ready channel means what the proxies take it to mean. As long as no rebuild
  falls between the installation of a tunnel and the close of the ready channel, no ready
  channel is closed twice, the channel of the current epoch is open while its tunnel is
  still to come, and once it is closed a tunnel is installed, unless the library refused to
  make a peer connection, which leaves none.
\<close>
theorem viewer_ready_sound:
  assumes "undisturbed evs start"
  shows "\<not> panicked (ses (fold vstep evs start))
    \<and> (ready_shut (ses (fold vstep evs start)) (v_ready (ses (fold vstep evs start))) \<longrightarrow>
         v_mux (ses (fold vstep evs start)) \<noteq> None \<or> v_pc (ses (fold vstep evs start)) = None)
    \<and> (\<forall>t \<in># tokens (fold vstep evs start). fst t = v_epoch (ses (fold vstep evs start)) \<longrightarrow>
         \<not> ready_shut (ses (fold vstep evs start)) (snd t))"
  using rinv_run [OF vinv_start rinv_start assms] unfolding rinv_def Let_def by auto

theorem viewer_ready_sound_witness:
  "undisturbed (demo_up @ [EvTask 0 (Inr 0) 0]) start
   \<and> v_mux (ses (fold vstep (demo_up @ [EvTask 0 (Inr 0) 0]) start)) \<noteq> None"
proof -
  have u: "undisturbed (demo_up @ [EvTask 0 (Inr 0) 0]) start"
    and shut: "ready_shut (ses (fold vstep (demo_up @ [EvTask 0 (Inr 0) 0]) start))
        (v_ready (ses (fold vstep (demo_up @ [EvTask 0 (Inr 0) 0]) start)))"
    and pc: "v_pc (ses (fold vstep (demo_up @ [EvTask 0 (Inr 0) 0]) start)) \<noteq> None"
    by (simp_all add: demo_up_def demo_simps closers_def)
  from viewer_ready_sound [OF u] shut pc u show ?thesis by blast
qed

text \<open>The last task of a list runs: what it leaves takes its place.\<close>

lemma vstep_last_task:
  assumes "tasks S = ts @ [t]" and "run_task t dial now (ses S) = (new, s')"
  shows "vstep (EvTask (length ts) dial now) S = S\<lparr>ses := s', tasks := ts @ new\<rparr>"
  using assms by (simp add: remove_nth_def)

text \<open>A data channel that opens in its own epoch, with an open tunnel: the four actions of its callback.\<close>

lemma callback_runs:
  assumes "tasks S = ts @ [OpenGuard (v_epoch (ses S)) ch]"
  shows "fold vstep (replicate 4 (EvTask (length ts) (Inr k) now)) S =
    S\<lparr>ses := close_ready ch ((ses S)\<lparr>v_mux := Some (v_epoch (ses S), k)\<rparr>),
      tasks := ts @ [Watchdog (v_epoch (ses S), k)]\<rparr>"
proof -
  let ?e = "v_epoch (ses S)"
  let ?ev = "EvTask (length ts) (Inr k) now"
  have "vstep ?ev S = S\<lparr>tasks := ts @ [OpenDial ?e ch]\<rparr>"
    using vstep_last_task [OF assms, of "Inr k" now "[OpenDial ?e ch]" "ses S"] by (simp add: open_guard_def)
  moreover have "vstep ?ev (S\<lparr>tasks := ts @ [OpenDial ?e ch]\<rparr>) = S\<lparr>tasks := ts @ [OpenInstall ?e ch (?e, k)]\<rparr>"
    by (subst vstep_last_task) (auto simp: open_dial_def)
  moreover have "vstep ?ev (S\<lparr>tasks := ts @ [OpenInstall ?e ch (?e, k)]\<rparr>) =
      S\<lparr>ses := (ses S)\<lparr>v_mux := Some (?e, k)\<rparr>, tasks := ts @ [OpenClose ch (?e, k)]\<rparr>"
    by (subst vstep_last_task) (auto simp: open_install_def)
  moreover have "vstep ?ev (S\<lparr>ses := (ses S)\<lparr>v_mux := Some (?e, k)\<rparr>, tasks := ts @ [OpenClose ch (?e, k)]\<rparr>) =
      S\<lparr>ses := close_ready ch ((ses S)\<lparr>v_mux := Some (?e, k)\<rparr>), tasks := ts @ [Watchdog (?e, k)]\<rparr>"
    by (subst vstep_last_task) auto
  ultimately show ?thesis by (simp add: eval_nat_numeral del: vstep.simps)
qed

text \<open>
  Property C27: a rebuild in the window makes the program panic. Take any state in which a callback has
  installed its tunnel and not yet closed the ready channel, which is still open, and a rebuild is
  asked for. If the supervisor rebuilds now and the callback then goes on, the current ready channel is
  closed while no tunnel is installed and the new peer connection is still to come up: the proxies are
  let through for nothing. And when the data channel of the new epoch opens and its tunnel is
  installed, its callback closes the same channel again, which panics.
\<close>
theorem viewer_ready_double_close:
  assumes "i < length (tasks S)" and "tasks S ! i = OpenClose (v_ready (ses S)) m"
    and "\<not> ready_shut (ses S) (v_ready (ses S))" and "\<not> panicked (ses S)"
    and "sup S = Waiting" and "v_rebuild (ses S)"
  shows "\<exists>S1 S2. S1 = fold vstep [EvRebuild (Inr p) None None None None, EvTask i dial now] S
    \<and> ready_shut (ses S1) (v_ready (ses S1)) \<and> v_mux (ses S1) = None \<and> v_pc (ses S1) = Some p \<and> \<not> panicked (ses S1)
    \<and> S2 = fold vstep (EvOpen (length (opens S)) # replicate 4 (EvTask (length (tasks S)) (Inr k) now)) S1
    \<and> v_mux (ses S2) = Some (Suc (v_epoch (ses S)), k) \<and> panicked (ses S2)"
proof -
  let ?ch = "v_ready (ses S)" and ?e = "Suc (v_epoch (ses S))"
  obtain S0 where S0: "vstep (EvRebuild (Inr p) None None None None) S = S0" by blast
  have s0: "v_ready (ses S0) = ?ch" "v_epoch (ses S0) = ?e" "v_mux (ses S0) = None" "v_pc (ses S0) = Some p"
      "\<not> ready_shut (ses S0) ?ch" "\<not> panicked (ses S0)" "tasks S0 = tasks S" "opens S0 = opens S @ [(?e, ?ch)]"
    using S0 assms(3-6) by (auto simp: run_rebuild_def rebuild_locked_def rebuild_wire_def Let_def)
  obtain S1 where S1: "vstep (EvTask i dial now) S0 = S1" by blast
  have s1: "ses S1 = (ses S0)\<lparr>ready_shut := (ready_shut (ses S0))(?ch := True)\<rparr>"
      "tasks S1 = remove_nth i (tasks S) @ [Watchdog m]" "opens S1 = opens S @ [(?e, ?ch)]"
    using S1 s0 assms(1,2) by (auto simp: close_ready_def)
  have len: "length (tasks S1) = length (tasks S)" using s1(2) assms(1) by (simp add: remove_nth_def)
  let ?S1' = "S1\<lparr>opens := opens S, tasks := tasks S1 @ [OpenGuard ?e ?ch]\<rparr>"
  have open1: "vstep (EvOpen (length (opens S))) S1 = ?S1'"
    using s1(3) by (simp add: remove_nth_def)
  have "tasks ?S1' = tasks S1 @ [OpenGuard (v_epoch (ses ?S1')) ?ch]" using s1(1) s0(2) by simp
  from callback_runs [OF this, of k now] len s1(1) s0(2)
  have S2: "fold vstep (EvOpen (length (opens S)) # replicate 4 (EvTask (length (tasks S)) (Inr k) now)) S1 =
      ?S1'\<lparr>ses := close_ready ?ch ((ses S1)\<lparr>v_mux := Some (?e, k)\<rparr>), tasks := tasks S1 @ [Watchdog (?e, k)]\<rparr>"
    using open1 by simp
  have R1: "S1 = fold vstep [EvRebuild (Inr p) None None None None, EvTask i dial now] S"
    by (simp only: fold_simps S0 S1)
  have P1: "ready_shut (ses S1) (v_ready (ses S1))" "v_mux (ses S1) = None" "v_pc (ses S1) = Some p" "\<not> panicked (ses S1)"
    using s1(1) s0 by simp_all
  obtain S2' where R2: "S2' = fold vstep (EvOpen (length (opens S)) # replicate 4 (EvTask (length (tasks S)) (Inr k) now)) S1"
    by blast
  then have "ses S2' = close_ready ?ch ((ses S1)\<lparr>v_mux := Some (?e, k)\<rparr>)" using S2 by simp
  then have P2: "v_mux (ses S2') = Some (?e, k)" "panicked (ses S2')" using s1(1) by (simp_all add: close_ready_def)
  show ?thesis
    by (rule exI [of _ S1], rule exI [of _ S2'])
      (rule conjI [OF R1 conjI [OF P1(1) conjI [OF P1(2) conjI [OF P1(3) conjI [OF P1(4) conjI [OF R2 conjI [OF P2]]]]]]])
qed

text \<open>The window is reached from the start: the tunnel is installed, and the server reports the owner again.\<close>

theorem viewer_ready_double_close_witness:
  "\<exists>evs. panicked (ses (fold vstep (evs :: vevent list) start))"
proof -
  let ?evs = "[EvRebuild (Inr 0) None None None None, EvOpen 0, EvTask 0 (Inr 7) 0, EvTask 0 (Inr 7) 0,
    EvTask 0 (Inr 7) 0, EvSignal (\<lambda>_ _. None) 0 (zero_Envelope\<lparr>Kind := ''ready''\<rparr>)]"
  obtain S where S: "fold vstep ?evs start = S" by blast
  have s: "tasks S = [OpenClose (v_ready (ses S)) (1, 7)]" "\<not> ready_shut (ses S) (v_ready (ses S))" "\<not> panicked (ses S)"
      "sup S = Waiting" "v_rebuild (ses S)"
    unfolding S [symmetric] by (simp_all add: demo_simps v_handleSignal_def zero_Envelope_def)
  have "0 < length (tasks S)" "tasks S ! 0 = OpenClose (v_ready (ses S)) (1, 7)" using s(1) by simp_all
  from viewer_ready_double_close [OF this s(2-5), of 1 "Inr 0" 0 8] obtain evs :: "vevent list" and evs' :: "vevent list"
    where "panicked (ses (fold vstep evs' (fold vstep evs S)))" by blast
  then have "panicked (ses (fold vstep (?evs @ evs @ evs') start))" by (simp only: fold_append comp_apply S)
  then show ?thesis by (rule exI)
qed

text \<open>
  Property C28: a rebuild of an established tunnel is followed by a second one. Closing the old
  tunnel wakes its watchdog, which asks for a rebuild without looking at the epoch; so the
  peer connection that was just made, whose offer is on its way, is torn down again.
\<close>
theorem viewer_rebuilds_twice:
  assumes "i < length (tasks S)" and "tasks S ! i = Watchdog m" and "v_mux (ses S) = Some m"
    and "sup S = Waiting" and "v_rebuild (ses S)"
  shows "\<exists>S1 S2 S3. S1 = vstep (EvRebuild (Inr p) None None None None) S
    \<and> m \<in> set (mux_shut (ses S1)) \<and> v_pc (ses S1) = Some p \<and> v_epoch (ses S1) = Suc (v_epoch (ses S))
    \<and> S2 = fold vstep [EvTask i dial now, EvTask (length (tasks S) - 1) dial now] S1
    \<and> S3 = vstep (EvRebuild (Inr q) None None None None) S2
    \<and> p \<in> set (pc_shut (ses S3)) \<and> v_epoch (ses S3) = Suc (Suc (v_epoch (ses S)))"
proof -
  obtain S1 where S1: "vstep (EvRebuild (Inr p) None None None None) S = S1" by blast
  have s1: "m \<in> set (mux_shut (ses S1))" "v_pc (ses S1) = Some p" "v_epoch (ses S1) = Suc (v_epoch (ses S))"
      "tasks S1 = tasks S" "sup S1 = Waiting"
    using S1 assms(3-5) by (auto simp: run_rebuild_def rebuild_locked_def rebuild_wire_def Let_def
        v_teardown_def close_mux_def split: option.splits)
  obtain S2 where S2: "fold vstep [EvTask i dial now, EvTask (length (tasks S) - 1) dial now] S1 = S2" by blast
  have len: "length (remove_nth i (tasks S)) = length (tasks S) - 1"
    using assms(1) by (simp add: remove_nth_def)
  have s2: "ses S2 = v_requestRebuild (ses S1)" "sup S2 = Waiting"
    using S2 s1(4,5) assms(1,2) len by (auto simp: nth_append)
  have req: "v_rebuild (ses S2)" "v_pc (ses S2) = Some p" "v_epoch (ses S2) = Suc (v_epoch (ses S))"
    using s2(1) s1 by (simp_all add: v_requestRebuild_def)
  have "p \<in> set (pc_shut (ses (vstep (EvRebuild (Inr q) None None None None) S2)))
      \<and> v_epoch (ses (vstep (EvRebuild (Inr q) None None None None) S2)) = Suc (Suc (v_epoch (ses S)))"
    using s2(2) req by (auto simp: run_rebuild_def rebuild_locked_def rebuild_wire_def Let_def
        v_teardown_def close_mux_def split: option.splits)
  with S1 S2 s1 show ?thesis by blast
qed

theorem viewer_rebuilds_twice_witness:
  "\<exists>(S :: vsys) (S3 :: vsys). S = fold vstep (demo_up @ [EvSignal (\<lambda>_ _. None) 0 (zero_Envelope\<lparr>Kind := ''ready''\<rparr>)]) start
     \<and> v_mux (ses S) = Some (1, 7) \<and> 1 \<in> set (pc_shut (ses S3)) \<and> v_epoch (ses S3) = 3"
proof -
  obtain S where S: "S = fold vstep (demo_up @ [EvSignal (\<lambda>_ _. None) 0 (zero_Envelope\<lparr>Kind := ''ready''\<rparr>)]) start"
    by blast
  have t: "tasks S = [Watchdog (1, 7)]" "v_mux (ses S) = Some (1, 7)" "sup S = Waiting"
      "v_rebuild (ses S)" "v_epoch (ses S) = 1"
    unfolding S by (simp_all add: demo_up_def demo_simps v_handleSignal_def zero_Envelope_def)
  have "0 < length (tasks S)" "tasks S ! 0 = Watchdog (1, 7)" using t(1) by simp_all
  from viewer_rebuilds_twice [OF this t(2-4), of 1 "Inr 0" 0 2] obtain S3 :: vsys
    where "1 \<in> set (pc_shut (ses S3))" "v_epoch (ses S3) = Suc (Suc (v_epoch (ses S)))"
    by blast
  moreover from this t(5) have "v_epoch (ses S3) = 3" by simp
  ultimately show ?thesis using S t(2) by blast
qed

subsection \<open>The proxy\<close>

lemma epoch_step: "v_epoch (ses S) \<le> v_epoch (ses (vstep ev S))"
proof (cases ev)
  case (EvRebuild new dcErr offerErr localErr sendErr)
  then show ?thesis
    by (auto simp: run_rebuild_def rebuild_locked_def Let_def split: sum.splits prod.splits)
next
  case (EvTask i dial now)
  show ?thesis
  proof (cases "i < length (tasks S)")
    case True
    obtain new s' where "run_task (tasks S ! i) dial now (ses S) = (new, s')" by fastforce
    with True EvTask run_task_epoch [OF this] show ?thesis by simp
  next
    case False
    with EvTask show ?thesis by simp
  qed
next
  case EvStop
  then show ?thesis
    by (auto simp: run_stop_def close_mux_def Let_def split: sup.splits option.splits)
next
  case (EvSignal apply_remote now env)
  then show ?thesis
    by (auto simp: v_handleSignal_def v_requestRebuild_def v_mark_race_def split: option.splits)
qed (auto simp: v_requestRebuild_def)

lemma epoch_run: "v_epoch (ses S) \<le> v_epoch (ses (fold vstep evs S))"
proof (induction evs arbitrary: S)
  case (Cons ev evs)
  from epoch_step [of S ev] Cons [of "vstep ev S"] show ?case by simp
qed simp

text \<open>
  A local connection is carried over the tunnel of the moment. Whatever happens
  between the moment a proxy fetches the ready channel and the moment it goes on, if it
  opens a stream then on the tunnel that is installed then, of the epoch that is current
  then, which is not older than the one it waited for.
\<close>
theorem proxy_uses_current_tunnel:
  assumes "proxy OpenStream late (ses (fold vstep evs start)) (ses (fold vstep (evs @ evs') start))
      = Shuttle m st"
  shows "v_mux (ses (fold vstep (evs @ evs') start)) = Some m
    \<and> fst m = v_epoch (ses (fold vstep (evs @ evs') start))
    \<and> v_epoch (ses (fold vstep evs start)) \<le> fst m \<and> OpenStream m = Inr st \<and> \<not> late"
proof -
  let ?s2 = "ses (fold vstep (evs @ evs') start)"
  from assms have m: "v_mux ?s2 = Some m" "OpenStream m = Inr st" "\<not> late"
    by (auto simp: proxy_def snapshotMux_def Let_def split: if_splits option.splits sum.splits)
  moreover have "fst m = v_epoch ?s2"
    using m(1) vinv_reachable [of "evs @ evs'"] unfolding vinv_def by blast
  moreover have "v_epoch (ses (fold vstep evs start)) \<le> v_epoch ?s2"
    using epoch_run [of "fold vstep evs start" evs'] by simp
  ultimately show ?thesis by simp
qed

theorem proxy_uses_current_tunnel_witness:
  "v_mux (ses (fold vstep (demo_up @ []) start)) = Some (1, 7)"
proof -
  have "proxy (\<lambda>_. Inr 3) False (ses (fold vstep demo_up start)) (ses (fold vstep (demo_up @ []) start))
      = Shuttle (1, 7) 3"
    by (simp add: proxy_def snapshotMux_def demo_up_def demo_simps)
  from proxy_uses_current_tunnel [OF this] show ?thesis by blast
qed

end
