(* ===== verification/Conn_Listener.thy ===== *)
theory Conn_Listener
  imports Peer_Conn
begin

text \<open>
  The two listeners that turn a Go channel of connections into a \<open>net.Listener\<close>:
  \<open>peer.Listener\<close> (\<open>internal/peer/listener.go\<close>) and \<open>streamListener\<close>
  (\<open>cmd/dav-owner/main.go\<close>), and the contract \<open>conn_listener\<close> that the HTTP server
  relies on. A connection is its identity, a number; the queue of the incoming channel and
  whether its owner closed it are part of the state.
\<close>

record listener_state =
  incoming :: "nat list"
  incoming_closed :: bool
  closed_chan :: bool
  close_done :: bool
  addr_label :: string

subsection \<open>peer.Listener\<close>

definition ErrListenerClosed :: error where
  "ErrListenerClosed = Sentinel ''peer.ErrListenerClosed'' ''peer: listener closed''"

definition NewListener :: "nat list \<Rightarrow> string \<Rightarrow> listener_state" where
  "NewListener q label = \<lparr>incoming = q, incoming_closed = False, closed_chan = False,
     close_done = False, addr_label = ''listener:'' @ label\<rparr>"

datatype accept_case = AClosed | AIncoming

definition accept_ready :: "listener_state \<Rightarrow> accept_case list" where
  "accept_ready l =
     (if closed_chan l then [AClosed] else []) @
     (if incoming l \<noteq> [] \<or> incoming_closed l then [AIncoming] else [])"

definition listener_Accept :: "nat \<Rightarrow> listener_state \<Rightarrow> ((error + nat) \<times> listener_state) option" where
  "listener_Accept pick l =
     (case select pick (accept_ready l) of
        None \<Rightarrow> None
      | Some AClosed \<Rightarrow> Some (Inl ErrListenerClosed, l)
      | Some AIncoming \<Rightarrow>
          (case incoming l of
             [] \<Rightarrow> Some (Inl ErrListenerClosed, l)
           | c # cs \<Rightarrow> Some (Inr c, l\<lparr>incoming := cs\<rparr>)))"

definition listener_Close :: "listener_state \<Rightarrow> error option \<times> listener_state" where
  "listener_Close l =
     (None, if close_done l then l else l\<lparr>close_done := True, closed_chan := True\<rparr>)"

definition listener_Addr :: "listener_state \<Rightarrow> string" where
  "listener_Addr l = addr_label l"

subsection \<open>streamListener\<close>

definition stream_ErrListenerClosed :: error where
  "stream_ErrListenerClosed = Sentinel ''main.ErrListenerClosed'' ''stream listener closed''"

definition newStreamListener :: "nat list \<Rightarrow> string \<Rightarrow> listener_state" where
  "newStreamListener q label = \<lparr>incoming = q, incoming_closed = False, closed_chan = False,
     close_done = False, addr_label = ''stream-listener:'' @ label\<rparr>"

definition stream_Accept :: "nat \<Rightarrow> listener_state \<Rightarrow> ((error + nat) \<times> listener_state) option" where
  "stream_Accept pick l =
     (case select pick (accept_ready l) of
        None \<Rightarrow> None
      | Some AClosed \<Rightarrow> Some (Inl stream_ErrListenerClosed, l)
      | Some AIncoming \<Rightarrow>
          (case incoming l of
             [] \<Rightarrow> Some (Inl stream_ErrListenerClosed, l)
           | c # cs \<Rightarrow> Some (Inr c, l\<lparr>incoming := cs\<rparr>)))"

definition stream_Close :: "listener_state \<Rightarrow> error option \<times> listener_state" where
  "stream_Close l =
     (None, if close_done l then l else l\<lparr>close_done := True, closed_chan := True\<rparr>)"

text \<open>The producer's non-blocking send into the channel of capacity \<open>cap\<close>; refused streams are closed.\<close>

definition offer_stream :: "nat \<Rightarrow> nat \<Rightarrow> listener_state \<Rightarrow> bool \<times> listener_state" where
  "offer_stream cap c l =
     (if length (incoming l) < cap then (True, l\<lparr>incoming := incoming l @ [c]\<rparr>) else (False, l))"

subsection \<open>The contract\<close>

text \<open>
  What a server may rely on: a connection handed out is the oldest one of the queue and
  leaves it; an error leaves the listener as it is and needs a closed listener or channel;
  \<open>Close\<close> keeps the queue, and after it no \<open>Accept\<close> blocks.
\<close>

locale conn_listener =
  fixes accept :: "nat \<Rightarrow> 'l \<Rightarrow> ((error + nat) \<times> 'l) option"
    and close_l :: "'l \<Rightarrow> error option \<times> 'l"
    and queue :: "'l \<Rightarrow> nat list"
    and finished :: "'l \<Rightarrow> bool"
    and closed_error :: error
    and inv :: "'l \<Rightarrow> bool"
  assumes accept_conn: "inv l \<Longrightarrow> accept pick l = Some (Inr c, l') \<Longrightarrow>
      queue l = c # queue l' \<and> finished l' = finished l \<and> inv l'"
    and accept_error: "accept pick l = Some (Inl e, l') \<Longrightarrow> e = closed_error \<and> l' = l \<and> finished l"
    and accept_blocks: "accept pick l = None \<Longrightarrow> queue l = [] \<and> \<not> finished l"
    and close_queue: "inv l \<Longrightarrow> close_l l = (r, l') \<Longrightarrow>
      r = None \<and> queue l' = queue l \<and> finished l' \<and> inv l' \<and> close_l l' = (None, l')"
begin

text \<open>The results of consecutive calls of \<open>Accept\<close>, up to the first error or block.\<close>

fun serve :: "nat list \<Rightarrow> 'l \<Rightarrow> nat list \<times> 'l" where
  "serve [] l = ([], l)"
| "serve (p # ps) l =
     (case accept p l of
        Some (Inr c, l') \<Rightarrow> (let (cs, l'') = serve ps l' in (c # cs, l''))
      | _ \<Rightarrow> ([], l))"

lemma serve_fifo:
  "inv l \<Longrightarrow> serve ps l = (cs, l') \<Longrightarrow> queue l = cs @ queue l' \<and> inv l' \<and> finished l' = finished l"
proof (induction ps arbitrary: l cs)
  case Nil
  then show ?case by simp
next
  case (Cons p ps)
  show ?case
  proof (cases "\<exists>c l1. accept p l = Some (Inr c, l1)")
    case True
    then obtain c l1 where a: "accept p l = Some (Inr c, l1)" by blast
    obtain cs1 l2 where s: "serve ps l1 = (cs1, l2)" by fastforce
    with Cons.prems a have r: "cs = c # cs1" "l2 = l'" by auto
    from accept_conn [OF Cons.prems(1) a] have l1: "queue l = c # queue l1"
        "finished l1 = finished l" "inv l1" by auto
    from Cons.IH [OF l1(3)] s r have "queue l1 = cs1 @ queue l' \<and> inv l' \<and> finished l' = finished l1"
      by blast
    with l1 r show ?thesis by simp
  next
    case False
    then have "serve (p # ps) l = ([], l)" by (auto split: option.splits sum.splits)
    with Cons.prems show ?thesis by simp
  qed
qed

text \<open>
  Once closed, the listener keeps handing out what its channel still holds, never blocks and
  refuses at the latest when the channel is empty.
\<close>

lemma closed_drains:
  assumes "inv l" and "close_l l = (e, l0)" and "serve ps l0 = (cs, l')"
  shows "queue l = cs @ queue l' \<and> accept pick l' \<noteq> None
    \<and> (queue l' = [] \<longrightarrow> accept pick l' = Some (Inl closed_error, l'))"
proof -
  from close_queue [OF assms(1,2)] have l0: "queue l0 = queue l" "finished l0" "inv l0" by auto
  from serve_fifo [OF l0(3) assms(3)] l0 have q: "queue l = cs @ queue l'" "inv l'" "finished l'"
    by auto
  have live: "accept pick l' \<noteq> None" using accept_blocks q(3) by blast
  then obtain r l2 where r: "accept pick l' = Some (r, l2)" by auto
  have "accept pick l' = Some (Inl closed_error, l')" if "queue l' = []"
  proof (cases r)
    case (Inl x)
    with r accept_error [of pick l' x l2] show ?thesis by simp
  next
    case (Inr c)
    with r accept_conn [OF q(2), of pick c l2] that show ?thesis by simp
  qed
  with q live show ?thesis by blast
qed

end

definition listener_finished :: "listener_state \<Rightarrow> bool" where
  "listener_finished l \<longleftrightarrow> closed_chan l \<or> incoming_closed l"

text \<open>\<open>closed\<close> is closed whenever \<open>closeOnce\<close> has run.\<close>

definition listener_wf :: "listener_state \<Rightarrow> bool" where
  "listener_wf l \<longleftrightarrow> (close_done l \<longrightarrow> closed_chan l)"

lemmas listener_defs = listener_finished_def listener_wf_def accept_ready_def

lemma accept_ready_cases:
  "select pick (accept_ready l) = None \<Longrightarrow> incoming l = [] \<and> \<not> listener_finished l"
  "select pick (accept_ready l) = Some AClosed \<Longrightarrow> listener_finished l"
  "select pick (accept_ready l) = Some AIncoming \<Longrightarrow> incoming l = [] \<Longrightarrow> listener_finished l"
  by (auto simp: listener_defs select_def split: if_splits dest: select_in)

interpretation peer_listener: conn_listener listener_Accept listener_Close incoming
  listener_finished ErrListenerClosed listener_wf
proof
  fix pick l c l'
  assume "listener_wf l" "listener_Accept pick l = Some (Inr c, l')"
  then show "incoming l = c # incoming l' \<and> listener_finished l' = listener_finished l \<and> listener_wf l'"
    by (auto simp: listener_Accept_def listener_defs split: option.splits accept_case.splits list.splits)
next
  fix pick l e l'
  assume "listener_Accept pick l = Some (Inl e, l')"
  then show "e = ErrListenerClosed \<and> l' = l \<and> listener_finished l"
    using accept_ready_cases [of pick l]
    by (auto simp: listener_Accept_def split: option.splits accept_case.splits list.splits)
next
  fix pick l
  assume "listener_Accept pick l = None"
  then show "incoming l = [] \<and> \<not> listener_finished l"
    using accept_ready_cases(1) [of pick l]
    by (auto simp: listener_Accept_def split: option.splits accept_case.splits list.splits)
next
  fix l e l'
  assume "listener_wf l" "listener_Close l = (e, l')"
  then show "e = None \<and> incoming l' = incoming l \<and> listener_finished l' \<and> listener_wf l'
      \<and> listener_Close l' = (None, l')"
    by (auto simp: listener_Close_def listener_defs)
qed

text \<open>The two copies of the code differ in the error value only.\<close>

lemma stream_Accept_peer:
  "stream_Accept pick l = None \<longleftrightarrow> listener_Accept pick l = None"
  "stream_Accept pick l = Some (Inr c, l') \<longleftrightarrow> listener_Accept pick l = Some (Inr c, l')"
  "stream_Accept pick l = Some (Inl e, l') \<longleftrightarrow>
     e = stream_ErrListenerClosed \<and> listener_Accept pick l = Some (Inl ErrListenerClosed, l')"
  by (auto simp: stream_Accept_def listener_Accept_def split: option.splits accept_case.splits list.splits)

lemma stream_Close_peer: "stream_Close = listener_Close"
  by (simp add: fun_eq_iff stream_Close_def listener_Close_def)

interpretation stream_listener: conn_listener stream_Accept stream_Close incoming
  listener_finished stream_ErrListenerClosed listener_wf
proof
  fix pick l c l'
  assume "listener_wf l" "stream_Accept pick l = Some (Inr c, l')"
  then show "incoming l = c # incoming l' \<and> listener_finished l' = listener_finished l \<and> listener_wf l'"
    using peer_listener.accept_conn unfolding stream_Accept_peer by blast
next
  fix pick l e l'
  assume "stream_Accept pick l = Some (Inl e, l')"
  then show "e = stream_ErrListenerClosed \<and> l' = l \<and> listener_finished l"
    using peer_listener.accept_error unfolding stream_Accept_peer by blast
next
  fix pick l
  assume "stream_Accept pick l = None"
  then show "incoming l = [] \<and> \<not> listener_finished l"
    using peer_listener.accept_blocks by (simp add: stream_Accept_peer)
next
  fix l e l'
  assume "listener_wf l" "stream_Close l = (e, l')"
  then show "e = None \<and> incoming l' = incoming l \<and> listener_finished l' \<and> listener_wf l'
      \<and> stream_Close l' = (None, l')"
    unfolding stream_Close_peer using peer_listener.close_queue by blast
qed

lemma new_listener_wf: "listener_wf (newStreamListener q label)" "listener_wf (NewListener q label)"
  by (simp_all add: listener_wf_def newStreamListener_def NewListener_def)

text \<open>
  Shutting a listener down loses no stream silently. After \<open>Close\<close>, calls of
  \<open>Accept\<close> hand out streams of the queue in their order only, each at most once; the next
  call never blocks, and with an empty queue it reports \<open>ErrListenerClosed\<close> and goes on
  doing so.
\<close>
theorem stream_listener_close_drains:
  assumes "stream_Close (newStreamListener q label) = (e, l0)"
    and "stream_listener.serve ps l0 = (cs, l')"
  shows "q = cs @ incoming l' \<and> stream_Accept pick l' \<noteq> None
    \<and> (incoming l' = [] \<longrightarrow> stream_Accept pick l' = Some (Inl stream_ErrListenerClosed, l'))"
  using stream_listener.closed_drains [OF new_listener_wf(1) assms, of pick]
  by (simp add: newStreamListener_def)

theorem stream_listener_close_drains_witness:
  "[7] = [7] @ incoming (snd (stream_Close (newStreamListener [] ''x'')))"
proof -
  let ?l0 = "snd (stream_Close (newStreamListener [7] ''x''))"
  have s: "stream_listener.serve [1] ?l0 = ([7], ?l0\<lparr>incoming := []\<rparr>)"
    by (simp add: stream_Close_def newStreamListener_def stream_Accept_def accept_ready_def select_def)
  show ?thesis
    using stream_listener_close_drains [OF prod.collapse [symmetric] s]
    by (simp add: stream_Close_def newStreamListener_def)
qed

text \<open>
  \<open>Accept\<close> after \<open>Close\<close> may still hand out a connection. The two ready cases
  of its \<open>select\<close> are chosen from at random, so with a connection queued both answers are
  possible after \<open>Close\<close>, for both listeners.
\<close>
theorem accept_after_close_may_deliver:
  "\<exists>l. l = snd (listener_Close (NewListener [c] label))
     \<and> listener_Accept 0 l = Some (Inl ErrListenerClosed, l)
     \<and> (\<exists>l'. listener_Accept 1 l = Some (Inr c, l'))
     \<and> stream_Accept 0 l = Some (Inl stream_ErrListenerClosed, l)
     \<and> (\<exists>l'. stream_Accept 1 l = Some (Inr c, l'))"
  by (simp add: listener_Close_def NewListener_def listener_Accept_def stream_Accept_def
      accept_ready_def select_def)

end
