(* ===== verification/Owner_Session.thy ===== *)
theory Owner_Session
  imports Viewer_Session_Run Conn_Listener
begin

text \<open>
  The owner's supervisor, \<open>ownerSession\<close> of \<open>cmd/dav-owner/main.go\<close>: the answering side. Its
  tunnels come from data channels that the viewer opens, its streams go into the channel of
  the \<open>streamListener\<close>. Identities are as in the viewer's session; \<open>streams_shut\<close> and
  \<open>answers\<close> log the streams it closed and the peer connections whose answer it sent.
\<close>

record osess =
  o_relayOnly :: bool
  o_fails :: nat
  o_race :: int
  o_pc :: "nat option"
  o_mux :: "(nat \<times> nat) option"
  o_epoch :: nat
  o_rebuild :: bool
  o_incoming :: listener_state
  o_mux_shut :: "(nat \<times> nat) list"
  o_pc_shut :: "nat list"
  streams_shut :: "nat list"
  answers :: "nat list"

definition incoming_cap :: nat where "incoming_cap = 64"

definition newOwnerSession :: osess where
  "newOwnerSession = \<lparr>o_relayOnly = False, o_fails = 0, o_race = 0, o_pc = None, o_mux = None,
     o_epoch = 0, o_rebuild = False, o_incoming = newStreamListener [] ''dav-owner'',
     o_mux_shut = [], o_pc_shut = [], streams_shut = [], answers = []\<rparr>"

definition o_requestRebuild :: "osess \<Rightarrow> osess" where
  "o_requestRebuild s = (if o_rebuild s then s else s\<lparr>o_rebuild := True\<rparr>)"

definition o_sdpRaceWindow :: int where "o_sdpRaceWindow = 30 * 1000000000"

definition o_classifyAndMaybeEscalate :: "int \<Rightarrow> osess \<Rightarrow> osess" where
  "o_classifyAndMaybeEscalate now s =
     (if 0 < o_race s \<and> now - o_race s < o_sdpRaceWindow then s
      else
        let s1 = s\<lparr>o_fails := Suc (o_fails s)\<rparr>
        in if o_fails s1 < 2 then s1
           else if \<not> o_relayOnly s1 then s1\<lparr>o_relayOnly := True\<rparr> else s1)"

definition currentPC :: "osess \<Rightarrow> nat option" where
  "currentPC s = o_pc s"

definition o_close_mux :: "nat \<times> nat \<Rightarrow> osess \<Rightarrow> osess" where
  "o_close_mux m s = s\<lparr>o_mux_shut := m # o_mux_shut s\<rparr>"

text \<open>\<open>buildPC\<close> after the constructor's result \<open>new\<close>; the callbacks it registers are events.\<close>

definition buildPC :: "error + nat \<Rightarrow> osess \<Rightarrow> error option \<times> osess" where
  "buildPC new s =
     (let s1 = (case o_mux s of None \<Rightarrow> s | Some m \<Rightarrow> (o_close_mux m s)\<lparr>o_mux := None\<rparr>);
          s2 = (case o_pc s1 of None \<Rightarrow> s1 | Some p \<Rightarrow> s1\<lparr>o_pc_shut := p # o_pc_shut s1, o_pc := None\<rparr>)
      in (case new of
            Inl e \<Rightarrow> (Some (WrapError ''new peer: '' e []), s2)
          | Inr pc \<Rightarrow> (None, s2\<lparr>o_epoch := Suc (o_epoch s2), o_pc := Some pc\<rparr>)))"

subsection \<open>Callbacks\<close>

datatype otask =
    OStateCheck nat pc_state
  | OStateAct pc_state
  | OReqRebuild
  | OOpenGuard nat
  | OServe nat
  | OInstall nat "nat \<times> nat"
  | OAccept "nat \<times> nat"
  | OWatchdog "nat \<times> nat"

definition o_connected :: "osess \<Rightarrow> osess" where
  "o_connected s = s\<lparr>o_fails := 0\<rparr>"

definition o_state_act :: "pc_state \<Rightarrow> int \<Rightarrow> osess \<Rightarrow> otask list \<times> osess" where
  "o_state_act st now s =
     (case st of
        PCConnected \<Rightarrow> ([], o_connected s)
      | PCFailed \<Rightarrow> ([OReqRebuild], o_classifyAndMaybeEscalate now s)
      | PCClosed \<Rightarrow> ([OReqRebuild], s)
      | _ \<Rightarrow> ([], s))"

definition o_install :: "nat \<Rightarrow> nat \<times> nat \<Rightarrow> osess \<Rightarrow> otask list \<times> osess" where
  "o_install e m s =
     (if o_epoch s \<noteq> e then ([], o_close_mux m s)
      else ([OAccept m, OWatchdog m], s\<lparr>o_mux := Some m\<rparr>))"

text \<open>One round of the accept loop; the loop goes on unless \<open>AcceptStream\<close> fails.\<close>

definition o_accept :: "nat \<times> nat \<Rightarrow> error + nat \<Rightarrow> osess \<Rightarrow> otask list \<times> osess" where
  "o_accept m stream s =
     (case stream of
        Inl err \<Rightarrow> ([], s)
      | Inr st \<Rightarrow>
          (case offer_stream incoming_cap st (o_incoming s) of
             (True, l) \<Rightarrow> ([OAccept m], s\<lparr>o_incoming := l\<rparr>)
           | (False, l) \<Rightarrow> ([OAccept m], s\<lparr>streams_shut := st # streams_shut s\<rparr>)))"

text \<open>\<open>res\<close> is the result of \<open>tunnel.Serve\<close> (a serial number) or of \<open>AcceptStream\<close>.\<close>

fun o_run_task :: "otask \<Rightarrow> error + nat \<Rightarrow> int \<Rightarrow> osess \<Rightarrow> otask list \<times> osess" where
  "o_run_task (OStateCheck e st) res now s = (if o_epoch s = e then [OStateAct st] else [], s)"
| "o_run_task (OStateAct st) res now s = o_state_act st now s"
| "o_run_task OReqRebuild res now s = ([], o_requestRebuild s)"
| "o_run_task (OOpenGuard e) res now s = (if o_epoch s \<noteq> e then [] else [OServe e], s)"
| "o_run_task (OServe e) res now s =
     ((case res of Inl err \<Rightarrow> [OReqRebuild] | Inr k \<Rightarrow> [OInstall e (e, k)]), s)"
| "o_run_task (OInstall e m) res now s = o_install e m s"
| "o_run_task (OAccept m) res now s = o_accept m res s"
| "o_run_task (OWatchdog m) res now s = ([OReqRebuild], s)"

text \<open>\<open>OnDataChannel\<close> registers an \<open>OnOpen\<close> only for the label of the tunnel.\<close>

definition OnDataChannel :: "nat \<Rightarrow> string \<Rightarrow> otask list" where
  "OnDataChannel e label = (if label \<noteq> ''tunnel'' then [] else [OOpenGuard e])"

subsection \<open>Signaling\<close>

definition o_mark_race :: "int \<Rightarrow> osess \<Rightarrow> osess" where
  "o_mark_race now s = s\<lparr>o_race := now\<rparr>"

text \<open>
  \<open>apply_remote\<close> is \<open>peer.ApplyRemote\<close>; the other arguments are the errors of
  \<open>CreateAnswer\<close>, \<open>SetLocalDescription\<close> and \<open>Send\<close>.
\<close>

definition o_handleSignal :: "(nat \<Rightarrow> Envelope \<Rightarrow> bool \<times> error option) \<Rightarrow> error option \<Rightarrow> error option
    \<Rightarrow> error option \<Rightarrow> int \<Rightarrow> Envelope \<Rightarrow> osess \<Rightarrow> osess" where
  "o_handleSignal apply_remote ansErr localErr sendErr now env s =
     (if Kind env = ''ready'' then o_requestRebuild s
      else
        (case currentPC s of None \<Rightarrow> s
         | Some pc \<Rightarrow>
             (case apply_remote pc env of
                (consumed, Some err) \<Rightarrow> if is_sdp_race err then o_mark_race now s else s
              | (consumed, None) \<Rightarrow>
                  if consumed \<and> Kind env = ''sdp'' then
                    (case ansErr of Some e \<Rightarrow> s
                     | None \<Rightarrow>
                         (case localErr of Some e \<Rightarrow> s
                          | None \<Rightarrow>
                              (case sendErr of Some e \<Rightarrow> s
                               | None \<Rightarrow> s\<lparr>answers := pc # answers s\<rparr>)))
                  else s)))"

subsection \<open>The whole system\<close>

record osys =
  oses :: osess
  otasks :: "otask list"
  osup :: sup

datatype oevent =
    OEvRebuild "error + nat"
  | OEvWake
  | OEvStop
  | OEvState nat pc_state
  | OEvChannel nat string
  | OEvTask nat "error + nat" int
  | OEvSignal "nat \<Rightarrow> Envelope \<Rightarrow> bool \<times> error option" "error option" "error option" "error option" int Envelope
  | OEvHTTP nat

definition o_start :: osys where
  "o_start = \<lparr>oses = o_requestRebuild newOwnerSession, otasks = [], osup = Waiting\<rparr>"

definition o_stop :: "osys \<Rightarrow> osys" where
  "o_stop S =
     (case osup S of
        Waiting \<Rightarrow>
          (let s = oses S;
               s1 = (case o_mux s of None \<Rightarrow> s | Some m \<Rightarrow> o_close_mux m s);
               s2 = (case o_pc s1 of None \<Rightarrow> s1 | Some p \<Rightarrow> s1\<lparr>o_pc_shut := p # o_pc_shut s1\<rparr>)
           in S\<lparr>oses := s2, osup := Stopped\<rparr>)
      | _ \<Rightarrow> S\<lparr>osup := Stopped\<rparr>)"

text \<open>\<open>OEvHTTP\<close> is the HTTP server taking the next stream from the listener.\<close>

fun ostep :: "oevent \<Rightarrow> osys \<Rightarrow> osys" where
  "ostep (OEvRebuild new) S =
     (if osup S = Waiting \<and> o_rebuild (oses S)
      then (case buildPC new ((oses S)\<lparr>o_rebuild := False\<rparr>) of
              (err, s) \<Rightarrow> S\<lparr>oses := s, osup := (case err of None \<Rightarrow> Waiting | Some e \<Rightarrow> Backoff)\<rparr>)
      else S)"
| "ostep OEvWake S =
     (if osup S = Backoff then S\<lparr>oses := o_requestRebuild (oses S), osup := Waiting\<rparr> else S)"
| "ostep OEvStop S = (if osup S = Stopped then S else o_stop S)"
| "ostep (OEvState e st) S = S\<lparr>otasks := otasks S @ [OStateCheck e st]\<rparr>"
| "ostep (OEvChannel e label) S = S\<lparr>otasks := otasks S @ OnDataChannel e label\<rparr>"
| "ostep (OEvTask i res now) S =
     (if i < length (otasks S)
      then (let (new, s) = o_run_task (otasks S ! i) res now (oses S)
            in S\<lparr>oses := s, otasks := remove_nth i (otasks S) @ new\<rparr>)
      else S)"
| "ostep (OEvSignal apply_remote ansErr localErr sendErr now env) S =
     S\<lparr>oses := o_handleSignal apply_remote ansErr localErr sendErr now env (oses S)\<rparr>"
| "ostep (OEvHTTP pick) S =
     (case stream_Accept pick (o_incoming (oses S)) of
        None \<Rightarrow> S
      | Some (r, l) \<Rightarrow> S\<lparr>oses := (oses S)\<lparr>o_incoming := l\<rparr>\<rparr>)"

subsection \<open>Invariant\<close>

interpretation owner_failover: failover o_classifyAndMaybeEscalate o_connected o_mark_race
  o_fails o_relayOnly o_race o_sdpRaceWindow
  by unfold_locales
    (auto simp: o_classifyAndMaybeEscalate_def o_connected_def o_mark_race_def Let_def)

fun o_install_ok :: "otask \<Rightarrow> bool" where
  "o_install_ok (OInstall e m) = (fst m = e)"
| "o_install_ok t = True"

definition oinv :: "osys \<Rightarrow> bool" where
  "oinv S \<longleftrightarrow> (\<forall>m. o_mux (oses S) = Some m \<longrightarrow> fst m = o_epoch (oses S))
     \<and> (\<forall>t \<in> set (otasks S). o_install_ok t)
     \<and> length (incoming (o_incoming (oses S))) \<le> incoming_cap"

lemma o_classify_frame [simp]:
  "o_mux (o_classifyAndMaybeEscalate now s) = o_mux s"
  "o_epoch (o_classifyAndMaybeEscalate now s) = o_epoch s"
  "o_incoming (o_classifyAndMaybeEscalate now s) = o_incoming s"
  by (simp_all add: o_classifyAndMaybeEscalate_def Let_def)

lemma oinv_task:
  assumes "o_run_task t res now s = (new, s')" and "o_install_ok t"
    and "\<forall>m. o_mux s = Some m \<longrightarrow> fst m = o_epoch s" and "length (incoming (o_incoming s)) \<le> incoming_cap"
  shows "(\<forall>m. o_mux s' = Some m \<longrightarrow> fst m = o_epoch s') \<and> (\<forall>x \<in> set new. o_install_ok x)
    \<and> length (incoming (o_incoming s')) \<le> incoming_cap"
proof (cases t)
  case (OStateAct st)
  with assms show ?thesis by (cases st) (auto simp: o_state_act_def o_connected_def)
next
  case (OAccept m)
  with assms show ?thesis
    by (auto simp: o_accept_def offer_stream_def split: sum.splits if_splits)
qed (use assms in \<open>auto simp: o_requestRebuild_def o_install_def o_close_mux_def
    split: if_splits sum.splits\<close>)

lemma oinv_step:
  assumes inv: "oinv S"
  shows "oinv (ostep ev S)"
proof (cases ev)
  case (OEvTask i res now)
  show ?thesis
  proof (cases "i < length (otasks S)")
    case True
    obtain new s' where r: "o_run_task (otasks S ! i) res now (oses S) = (new, s')" by fastforce
    have "otasks S ! i \<in> set (otasks S)" using True by simp
    with oinv_task [OF r] inv set_remove_nth [of i "otasks S"] True r OEvTask show ?thesis
      by (auto simp: oinv_def)
  next
    case False
    with OEvTask inv show ?thesis by simp
  qed
next
  case (OEvHTTP pick)
  have "length (incoming l) \<le> length (incoming (o_incoming (oses S)))"
    if "stream_Accept pick (o_incoming (oses S)) = Some (r, l)" for r l
    using that by (auto simp: stream_Accept_def split: option.splits accept_case.splits list.splits)
  with OEvHTTP inv show ?thesis
    by (fastforce simp: oinv_def split: option.splits)
next
  case (OEvSignal apply_remote ansErr localErr sendErr now env)
  with inv show ?thesis
    by (auto simp: oinv_def o_handleSignal_def o_requestRebuild_def o_mark_race_def
        split: option.splits prod.splits)
next
  case OEvStop
  with inv show ?thesis
    by (auto simp: oinv_def o_stop_def o_close_mux_def Let_def split: sup.splits option.splits)
next
  case (OEvRebuild new)
  with inv show ?thesis
    by (auto simp: oinv_def buildPC_def o_close_mux_def Let_def split: sum.splits option.splits)
qed (use inv in \<open>auto simp: oinv_def o_requestRebuild_def OnDataChannel_def split: if_splits\<close>)

lemma oinv_run: "oinv S \<Longrightarrow> oinv (fold ostep evs S)"
  by (induction evs arbitrary: S) (simp_all add: oinv_step)

lemma oinv_start: "oinv o_start"
  by (simp add: oinv_def o_start_def newOwnerSession_def o_requestRebuild_def newStreamListener_def)

subsection \<open>Properties\<close>

text \<open>
  The owner serves over the tunnel of the current epoch, with a bounded backlog.
  In every reachable state the installed tunnel was served on a data channel of the current
  epoch, and at most 64 streams wait for the HTTP server.
\<close>
theorem owner_tunnel_current:
  "(\<forall>m. o_mux (oses (fold ostep evs o_start)) = Some m \<longrightarrow>
      fst m = o_epoch (oses (fold ostep evs o_start)))
   \<and> length (incoming (o_incoming (oses (fold ostep evs o_start)))) \<le> 64"
  using oinv_run [OF oinv_start, of evs] by (simp add: oinv_def incoming_cap_def)

definition o_demo :: "nat \<Rightarrow> nat \<Rightarrow> oevent list" where
  "o_demo i k = [OEvChannel 1 ''tunnel'', OEvTask i (Inr k) 0, OEvTask i (Inr k) 0, OEvTask i (Inr k) 0]"

lemmas o_demo_simps = o_start_def newOwnerSession_def o_requestRebuild_def newStreamListener_def
  buildPC_def o_close_mux_def OnDataChannel_def o_install_def remove_nth_def o_demo_def

theorem owner_tunnel_current_witness:
  "o_mux (oses (fold ostep (OEvRebuild (Inr 0) # o_demo 0 5) o_start)) = Some (1, 5)
   \<and> 1 = o_epoch (oses (fold ostep (OEvRebuild (Inr 0) # o_demo 0 5) o_start))"
proof -
  have "o_mux (oses (fold ostep (OEvRebuild (Inr 0) # o_demo 0 5) o_start)) = Some (1, 5)"
    by (simp add: o_demo_simps)
  with owner_tunnel_current [of "OEvRebuild (Inr 0) # o_demo 0 5"] show ?thesis
    by (metis fst_conv)
qed

text \<open>
  A second tunnel on the same peer connection replaces the first without closing
  it. A viewer that opens two data channels labelled \<open>tunnel\<close> leaves the owner with an
  accept loop for the first one, which the session no longer knows and which neither the
  next rebuild nor the shutdown closes.
\<close>
theorem owner_second_tunnel_unaccounted:
  "\<exists>evs. let S = fold ostep evs o_start in
     OAccept (1, 5) \<in> set (otasks S) \<and> o_mux (oses S) = Some (1, 6) \<and> (1, 5) \<notin> set (o_mux_shut (oses S))
     \<and> (1, 6) \<in> set (o_mux_shut (oses (ostep OEvStop S)))
     \<and> (1, 5) \<notin> set (o_mux_shut (oses (ostep OEvStop S)))"
  by (rule exI [of _ "OEvRebuild (Inr 0) # o_demo 0 5 @ o_demo 2 6"])
     (simp add: o_demo_simps o_stop_def Let_def)

text \<open>
  When the sessions fall back to relay-only. Starting afresh, after any history of
  failures, successes and SDP races, the viewer's and the owner's session are in relay-only
  mode exactly if there were two failures, neither within thirty seconds after a race, with
  no success between them.
\<close>
theorem session_escalation:
  "(v_relayOnly (fold viewer_failover.react es newViewerSession) \<longleftrightarrow> escalates (30 * 1000000000) 0 es)
   \<and> (o_relayOnly (fold owner_failover.react es newOwnerSession) \<longleftrightarrow> escalates (30 * 1000000000) 0 es)"
  using viewer_failover.relay_iff_escalates [of newViewerSession es]
    owner_failover.relay_iff_escalates [of newOwnerSession es]
  by (simp add: newViewerSession_def newOwnerSession_def sdpRaceWindow_def o_sdpRaceWindow_def)

text \<open>
  What a signaling message may do. On the owner's side a \<open>ready\<close> requests a
  rebuild and nothing else; any other envelope never requests one, is applied to the current
  peer connection only, and an answer is sent exactly for an \<open>sdp\<close> envelope that was applied
  without an error and whose three answering steps succeeded; the race mark is set exactly
  on the two error texts of a stale description.
\<close>
theorem owner_handleSignal:
  assumes "s' = o_handleSignal apply_remote ansErr localErr sendErr now env s"
  shows "(Kind env = ''ready'' \<longrightarrow> s' = s\<lparr>o_rebuild := True\<rparr>)
    \<and> (Kind env \<noteq> ''ready'' \<longrightarrow> o_rebuild s' = o_rebuild s
       \<and> answers s' = (case o_pc s of None \<Rightarrow> answers s | Some pc \<Rightarrow>
           if Kind env = ''sdp'' \<and> apply_remote pc env = (True, None) \<and> ansErr = None \<and> localErr = None \<and> sendErr = None
           then pc # answers s else answers s)
       \<and> o_race s' = (case o_pc s of None \<Rightarrow> o_race s | Some pc \<Rightarrow>
           (case snd (apply_remote pc env) of None \<Rightarrow> o_race s
            | Some err \<Rightarrow> if is_sdp_race err then now else o_race s)))"
  unfolding assms
  by (cases "o_pc s")
    (auto simp: o_handleSignal_def o_requestRebuild_def currentPC_def o_mark_race_def
      split: option.splits prod.splits)

theorem owner_handleSignal_witness:
  "answers (o_handleSignal (\<lambda>_ _. (True, None)) None None None 5 (zero_Envelope\<lparr>Kind := ''sdp''\<rparr>)
     (newOwnerSession\<lparr>o_pc := Some 3\<rparr>)) = [3]"
  using owner_handleSignal [where apply_remote = "\<lambda>_ _. (True, None)" and ansErr = None and localErr = None
      and sendErr = None and now = 5 and env = "zero_Envelope\<lparr>Kind := ''sdp''\<rparr>"
      and s = "newOwnerSession\<lparr>o_pc := Some 3\<rparr>", OF refl]
  by (simp add: newOwnerSession_def zero_Envelope_def)

end
