(* ===== verification/Session_Main.thy ===== *)
theory Session_Main
  imports Session_Trust Powerlock Signal_Duel Owner_Session
begin

text \<open>
  The \<open>main\<close> functions of \<open>cmd/dav-owner\<close> and \<open>cmd/dav-client\<close>: from the flags to the running
  session, and the ways in which the processes end. What the operating system, the signaling server
  and the network answer is the environment. \<open>os.Exit\<close> ends the process without its deferred calls,
  a panic runs them, and so does the return after the signal that \<open>main\<close> waits for; a signal that
  arrives before \<open>signal.Notify\<close> has the system's default action and ends the process at once.
\<close>

record flags =
  fl_signal :: string
  fl_room :: string
  fl_dir :: string
  fl_local :: string
  fl_identity :: string
  fl_alias :: string
  fl_relay :: bool

text \<open>The home directory, which may be unknown.\<close>

definition defaultIdentityDir :: "error + string \<Rightarrow> string" where
  "defaultIdentityDir home =
     (case home of
        Inl err \<Rightarrow> ''.claudy''
      | Inr h \<Rightarrow> if h = [] then ''.claudy'' else path_join h ''.claudy'')"

text \<open>The values of the flags that are not given; the owner has no \<open>-local\<close>, the viewer no \<open>-dir\<close>.\<close>

definition owner_flag_defaults :: "error + string \<Rightarrow> flags" where
  "owner_flag_defaults home = \<lparr>fl_signal = ''ws://127.0.0.1:7042/signal'', fl_room = ''demo'', fl_dir = ''.'',
     fl_local = [], fl_identity = defaultIdentityDir home, fl_alias = [], fl_relay = False\<rparr>"

definition viewer_flag_defaults :: "error + string \<Rightarrow> flags" where
  "viewer_flag_defaults home = \<lparr>fl_signal = ''ws://127.0.0.1:7042/signal'', fl_room = ''demo'', fl_dir = [],
     fl_local = ''127.0.0.1:8910'', fl_identity = defaultIdentityDir home, fl_alias = [], fl_relay = False\<rparr>"

record main_env =
  me_key :: "bytes \<Rightarrow> bytes"
  me_id :: id_env
  me_codec :: codec
  me_kr_mkdir :: "error option"
  me_kr_read :: "error option"
  me_dialled :: "error + nat"
  me_join :: "error option"
  me_redials :: "nat \<Rightarrow> attempt"
  me_rejoin :: "error option"
  me_terminated :: bool
  me_ready :: "error + Envelope"
  me_quote :: "string \<Rightarrow> string"
  me_kr :: "kr_env \<times> int"

text \<open>How the steps before the session end; \<open>None\<close> in the functions below is a redial without end.\<close>

datatype 'r main_end = Exited nat | Panicked | Terminated | Running 'r

record started =
  st_id :: Identity
  st_keyring :: Keyring
  st_sig :: ws_client
  st_peer :: bytes

text \<open>
  The common part of the two functions: identity, keyring, signaling, the counterpart's key.
\<close>

definition session_start :: "string \<Rightarrow> string \<Rightarrow> main_env \<Rightarrow> flags \<Rightarrow> disk \<Rightarrow> (started main_end \<times> disk) option" where
  "session_start role who env fl d =
     (case LoadOrCreate (me_key env) (me_id env) (fl_identity fl) d of
        (Inl err, d1) \<Rightarrow> Some (Exited 1, d1)
      | (Inr idn, d1) \<Rightarrow>
          (case OpenKeyring (me_codec env) (me_kr_mkdir env) (me_kr_read env) (fl_identity fl) d1 of
             (Inl err, d2) \<Rightarrow> Some (Exited 1, d2)
           | (Inr kr, d2) \<Rightarrow>
               (case DialWithLogger (fl_signal fl) (fl_room fl) role (PublicBase64 idn) (me_dialled env) (me_join env)
                       (me_redials env) (me_rejoin env) of
                  None \<Rightarrow> None
                | Some (NilPanic, sig) \<Rightarrow> Some (Panicked, d2)
                | Some (Ret (Inl err), sig) \<Rightarrow> Some (Exited 1, d2)
                | Some (Ret (Inr u), sig) \<Rightarrow>
                    if me_terminated env then Some (Terminated, d2)
                    else
                      (case client_Ready (me_quote env) (me_ready env) sig of
                         NilPanic \<Rightarrow> Some (Panicked, d2)
                       | Ret ready \<Rightarrow>
                           (case admit_peer who (me_codec env) (me_quote env) (me_kr env) (fl_alias fl) ready (kr, d2) of
                              (Inl err, kr1, d3) \<Rightarrow> Some (Exited 1, d3)
                            | (Inr peerPub, kr1, d3) \<Rightarrow>
                                Some (Running \<lparr>st_id = idn, st_keyring = kr1, st_sig = sig, st_peer = peerPub\<rparr>, d3))))))"

subsection \<open>The owner\<close>

text \<open>
  What the death of the process does to a lock it still holds: \<open>caffeinate -w\<close> ends with the
  process it watches and a thread dies with its process, but a child process lives on.
\<close>

fun process_gone :: "releaser option \<Rightarrow> pl_world \<Rightarrow> pl_world" where
  "process_gone None w = w"
| "process_gone (Some (darwinLock p)) w = w\<lparr>pl_helpers := pl_helpers w - {p}\<rparr>"
| "process_gone (Some (windowsLock t)) w = w\<lparr>pl_threads := pl_threads w - {t}\<rparr>"
| "process_gone (Some (linuxLock p)) w = w"

text \<open>
  A running owner serves \<open>or_dir\<close> through the layers of \<open>Owner_Stack.served_fs\<close>, with the HTTP
  server of the library taking its connections from the session's listener.
\<close>

record owner_run =
  or_start :: started
  or_dir :: string
  or_sess :: osess
  or_lock :: Lock

record pl_env =
  pe_os :: platform
  pe_pid :: string
  pe_lookPath :: "error option"
  pe_fault :: "error option"

definition owner_main :: "pl_env \<Rightarrow> main_env \<Rightarrow> flags \<Rightarrow> disk \<times> pl_world
    \<Rightarrow> (owner_run main_end \<times> disk \<times> pl_world) option" where
  "owner_main pe env fl dw =
     (let (d, w) = dw;
          (sleepLock, w1) = Acquire (pe_os pe) (pe_pid pe) (pe_lookPath pe) (pe_fault pe) w;
          gone = process_gone (lk_impl sleepLock)
      in (case session_start ''owner'' ''viewer'' env fl d of
            None \<Rightarrow> None
          | Some (Exited c, d1) \<Rightarrow> Some (Exited c, d1, gone w1)
          | Some (Terminated, d1) \<Rightarrow> Some (Terminated, d1, gone w1)
          | Some (Panicked, d1) \<Rightarrow> Some (Panicked, d1, gone (snd (Release (Some sleepLock) w1)))
          | Some (Running st, d1) \<Rightarrow>
              let sess = newOwnerSession;
                  sess1 = (if fl_relay fl then sess\<lparr>o_relayOnly := True\<rparr> else sess)
              in Some (Running \<lparr>or_start = st, or_dir = fl_dir fl, or_sess = sess1, or_lock = sleepLock\<rparr>, d1, w1)))"

text \<open>The deferred calls after the signal, last first; then the process is gone.\<close>

definition owner_shutdown :: "error option \<Rightarrow> owner_run \<Rightarrow> pl_world \<Rightarrow> listener_state \<times> ws_client \<times> pl_world" where
  "owner_shutdown sigErr r w =
     (let listener = snd (stream_Close (o_incoming (or_sess r)));
          sig = snd (client_Close sigErr (st_sig (or_start r)));
          w1 = snd (Release (Some (or_lock r)) w)
      in (listener, sig, process_gone (lk_impl (or_lock r)) w1))"

subsection \<open>The viewer\<close>

record viewer_run =
  vr_start :: started
  vr_local :: string
  vr_sess :: vsess

definition viewer_main :: "error option \<Rightarrow> main_env \<Rightarrow> flags \<Rightarrow> disk \<Rightarrow> (viewer_run main_end \<times> disk) option" where
  "viewer_main listen env fl d =
     (case session_start ''viewer'' ''owner'' env fl d of
        None \<Rightarrow> None
      | Some (Exited c, d1) \<Rightarrow> Some (Exited c, d1)
      | Some (Terminated, d1) \<Rightarrow> Some (Terminated, d1)
      | Some (Panicked, d1) \<Rightarrow> Some (Panicked, d1)
      | Some (Running st, d1) \<Rightarrow>
          let sess = newViewerSession;
              sess1 = (if fl_relay fl then sess\<lparr>v_relayOnly := True\<rparr> else sess)
          in (case listen of
                Some err \<Rightarrow> Some (Exited 1, d1)
              | None \<Rightarrow> Some (Running \<lparr>vr_start = st, vr_local = fl_local fl, vr_sess = sess1\<rparr>, d1)))"

text \<open>The accept loop: every connection gets a proxy of its own and the next number.\<close>

fun accept_loop :: "64 word \<Rightarrow> (error + 'c) list \<Rightarrow> ('c \<times> 64 word) list" where
  "accept_loop counter [] = []"
| "accept_loop counter (Inl err # rest) = []"
| "accept_loop counter (Inr localConn # rest) =
     (let n = counter + 1 in (localConn, n) # accept_loop n rest)"

text \<open>\<open>signalLoop\<close>: envelopes go to the session until \<open>Recv\<close> fails.\<close>

fun signalLoop :: "(Envelope \<Rightarrow> 's \<Rightarrow> 's) \<Rightarrow> (error + Envelope) list \<Rightarrow> 's \<Rightarrow> 's" where
  "signalLoop handleSignal [] sess = sess"
| "signalLoop handleSignal (Inl err # rest) sess = sess"
| "signalLoop handleSignal (Inr env # rest) sess = signalLoop handleSignal rest (handleSignal env sess)"

subsection \<open>The sleep lock of the owner\<close>

definition takes_lock :: "pl_env \<Rightarrow> bool" where
  "takes_lock pe \<longleftrightarrow> (case pe_os pe of
      pl_other \<Rightarrow> False
    | pl_linux \<Rightarrow> pe_lookPath pe = None \<and> pe_fault pe = None
    | _ \<Rightarrow> pe_fault pe = None)"

lemma acquired:
  assumes "Acquire (pe_os pe) (pe_pid pe) (pe_lookPath pe) (pe_fault pe) w = (k, w1)" and "pl_ok w"
  shows "held (process_gone (lk_impl k) w1) = held w \<union> (if pe_os pe = pl_linux \<and> takes_lock pe then {pl_next w} else {})"
    and "held (process_gone (lk_impl k) (snd (Release (Some k) w1))) = held w"
proof -
  have fresh: "pl_next w \<notin> pl_helpers w" "pl_next w \<notin> pl_threads w" using assms(2) by (auto simp: pl_ok_def held_def)
  show "held (process_gone (lk_impl k) w1) = held w \<union> (if pe_os pe = pl_linux \<and> takes_lock pe then {pl_next w} else {})"
    using assms(1) fresh
    by (cases "pe_os pe"; cases "pe_lookPath pe"; cases "pe_fault pe")
       (auto simp: Acquire_def acquire_darwin_def acquire_linux_def acquire_windows_def acquire_other_def
         start_helper_def held_def takes_lock_def)
  have r: "held (snd (Release (Some k) w1)) = held w"
    using powerlock_balanced [OF assms(2,1)] by blast
  moreover have "held (process_gone i v) = held v" if "\<And>p. i = Some (darwinLock p) \<Longrightarrow> p \<notin> pl_helpers v"
      "\<And>p. i = Some (windowsLock p) \<Longrightarrow> p \<notin> pl_threads v" for i v
    using that by (cases "(i, v)" rule: process_gone.cases) (auto simp: held_def)
  moreover have "p \<notin> pl_helpers (snd (Release (Some k) w1))" if "lk_impl k = Some (darwinLock p)" for p
    using that by (simp add: Release_def)
  moreover have "p \<notin> pl_threads (snd (Release (Some k) w1))" if "lk_impl k = Some (windowsLock p)" for p
    using that by (simp add: Release_def)
  ultimately show "held (process_gone (lk_impl k) (snd (Release (Some k) w1))) = held w" by metis
qed

lemma owner_main_cases:
  assumes "owner_main pe env fl (d, w) = Some (res, d', w')"
    and "Acquire (pe_os pe) (pe_pid pe) (pe_lookPath pe) (pe_fault pe) w = (k, w1)"
  shows "case res of
      Running r \<Rightarrow> or_lock r = k \<and> w' = w1 \<and> session_start ''owner'' ''viewer'' env fl d = Some (Running (or_start r), d')
    | Panicked \<Rightarrow> w' = process_gone (lk_impl k) (snd (Release (Some k) w1))
    | _ \<Rightarrow> w' = process_gone (lk_impl k) w1"
  using assms by (auto simp: owner_main_def Let_def split: option.splits prod.splits main_end.splits)

text \<open>
  Property C11: the owner does not always let the machine sleep again. After the shutdown that \<open>main\<close>
  waits for, and after a panic, nothing of the sleep lock is left. But an exit with an error, for
  example because the viewer's key is not the pinned one, and a termination while the owner still
  waits for its first viewer, skip the deferred release: on Linux the inhibitor process stays alive
  after the owner is gone; on the other systems the lock goes with the process.
\<close>
theorem owner_leaks_inhibitor:
  assumes "pl_ok w" and "owner_main pe env fl (d, w) = Some (res, d', w')"
  shows "case res of
      Running r \<Rightarrow> (\<forall>sigErr. held (snd (snd (owner_shutdown sigErr r w'))) = held w)
    | Panicked \<Rightarrow> held w' = held w
    | _ \<Rightarrow> held w' = held w \<union> (if pe_os pe = pl_linux \<and> takes_lock pe then {pl_next w} else {})"
proof -
  obtain k w1 where a: "Acquire (pe_os pe) (pe_pid pe) (pe_lookPath pe) (pe_fault pe) w = (k, w1)" by fastforce
  note c = owner_main_cases [OF assms(2) a]
  note h = acquired [OF a assms(1)]
  show ?thesis using c h by (cases res) (simp_all add: owner_shutdown_def Let_def)
qed

text \<open>A disk, an identity and a server for the examples: nothing fails.\<close>

definition calm_main :: "byte \<Rightarrow> nat \<Rightarrow> Envelope \<Rightarrow> main_env" where
  "calm_main b sock ready = \<lparr>me_key = (\<lambda>seed. seed @ seed), me_id = calm_id (replicate 32 b), me_codec = toy_codec,
     me_kr_mkdir = None, me_kr_read = None, me_dialled = Inr sock, me_join = None, me_redials = (\<lambda>_. dial_ok 0),
     me_rejoin = None, me_terminated = False, me_ready = Inr ready, me_quote = (\<lambda>x. x), me_kr = (calm_kr, 1)\<rparr>"

definition room_flags :: flags where
  "room_flags = (owner_flag_defaults (Inr []))\<lparr>fl_room := ''r'', fl_identity := ''i''\<rparr>"

definition no_locks :: pl_world where
  "no_locks = \<lparr>pl_helpers = {}, pl_threads = {}, pl_next = 0, pl_cmds = []\<rparr>"

definition linux_env :: pl_env where
  "linux_env = \<lparr>pe_os = pl_linux, pe_pid = ''1'', pe_lookPath = None, pe_fault = None\<rparr>"

lemma calm_dial:
  "DialWithLogger url rm role pk (Inr k) None env w2 =
     Some (Ret (Inr ()), (new_client rm role pk)\<lparr>cl_conn := Some k,
       ws_sent := [(k, join_envelope (new_client rm role pk))]\<rparr>)"
  by (simp add: DialWithLogger_def writeEnvelope_def ws_write_def Let_def join_envelope_def new_client_def)

lemma calm_start:
  assumes "d (path_join ''i'' seedFile) = None" and "d (path_join ''i'' keyringFile) = None"
    and "Kind ready = ''ready''" and "Pubkey ready = EncodeToString key" and "length key = 32"
  shows "session_start role who (calm_main b k ready) room_flags d =
    Some (Running \<lparr>st_id = \<lparr>Private = replicate 32 b @ replicate 32 b, Public = replicate 32 b\<rparr>,
        st_keyring = \<lparr>kr_path = path_join ''i'' keyringFile, peers = []\<rparr>,
        st_sig = (new_client ''r'' role (EncodeToString (replicate 32 b)))\<lparr>cl_conn := Some k,
          ws_sent := [(k, join_envelope (new_client ''r'' role (EncodeToString (replicate 32 b))))]\<rparr>,
        st_peer = key\<rparr>, d(path_join ''i'' seedFile \<mapsto> string_of (replicate 32 b)))"
proof -
  have ne: "EncodeToString key \<noteq> []"
    using assms(5) base64_roundtrip [of key] base64_roundtrip [of "[]"] by (auto simp: EncodeToString_def)
  have diff: "path_join ''i'' seedFile \<noteq> path_join ''i'' keyringFile"
    by (simp add: path_join_def seedFile_def keyringFile_def)
  show ?thesis
    using assms ne diff
    by (simp add: session_start_def calm_main_def room_flags_def owner_flag_defaults_def LoadOrCreate_calm Let_def OpenKeyring_def MkdirAll_def
        ReadFile_def fs_ErrNotExist_def calm_dial client_Ready_def admit_peer_def verifyPeer_def ParsePublic_encode
        PublicBase64_def new_client_def)
qed

theorem owner_leaks_inhibitor_witness:
  "\<exists>d' w'. owner_main linux_env ((calm_main 7 1 zero_Envelope)\<lparr>me_terminated := True\<rparr>) room_flags ((\<lambda>_. None), no_locks)
      = Some (Terminated, d', w') \<and> held w' = {0}"
proof -
  let ?env = "(calm_main 7 1 zero_Envelope)\<lparr>me_terminated := True\<rparr>"
  have "path_join ''i'' seedFile \<noteq> path_join ''i'' keyringFile"
    by (simp add: path_join_def seedFile_def keyringFile_def)
  then obtain d' where "session_start ''owner'' ''viewer'' ?env room_flags (\<lambda>_. None) = Some (Terminated, d')"
    by (simp add: session_start_def calm_main_def room_flags_def owner_flag_defaults_def LoadOrCreate_calm Let_def OpenKeyring_def MkdirAll_def
        ReadFile_def fs_ErrNotExist_def calm_dial)
  then obtain w' where o: "owner_main linux_env ?env room_flags ((\<lambda>_. None), no_locks) = Some (Terminated, d', w')"
    by (cases "Acquire (pe_os linux_env) (pe_pid linux_env) (pe_lookPath linux_env) (pe_fault linux_env) no_locks")
       (simp add: owner_main_def)
  have "pl_ok no_locks" by (simp add: pl_ok_def held_def no_locks_def)
  from owner_leaks_inhibitor [OF this o] have "held w' = {0}"
    by (simp add: linux_env_def takes_lock_def no_locks_def held_def)
  with o show ?thesis by blast
qed

subsection \<open>The two sides of a room\<close>

text \<open>What a client has sent when \<open>Dial\<close> returns is its join, once or, after a redial, more often.\<close>

lemma dial_sends_join:
  assumes "DialWithLogger url rm role pk dialled w1 env w2 = Some (Ret (Inr u), c)" and "(k, e) \<in> set (ws_sent c)"
  shows "e = join_envelope (new_client rm role pk)"
proof -
  let ?c = "\<lambda>k. (new_client rm role pk)\<lparr>cl_conn := Some k\<rparr>"
  have j: "join_envelope (?c k) = join_envelope (new_client rm role pk)" for k by (simp add: join_envelope_def)
  obtain k0 where w: "writeEnvelope w1 env w2 (join_envelope (?c k0)) (?c k0) = Some (Ret None, c)"
    using assms(1) by (auto simp: DialWithLogger_def Let_def split: sum.splits option.splits outcome.splits)
  have n: "ws_sent (?c k0) = []" by (simp add: new_client_def)
  show ?thesis
  proof (cases "w1 = None")
    case True
    with w assms(2) show ?thesis by (auto simp: writeEnvelope_def ws_write_def Let_def n j)
  next
    case False
    with w n have *: "isRecoverable w1" by (auto simp: writeEnvelope_def Let_def ws_write_def split: if_splits)
    from False obtain err where "w1 = Some err" by blast
    then have c1: "ws_write w1 k0 e (?c k0) = ?c k0" for e by (simp add: ws_write_def)
    obtain c2 k2 where r: "reconnectLocked env (?c k0) = Some (None, c2)" and c: "c = ws_write w2 k2 (join_envelope (?c k0)) c2"
      using w False * by (auto simp: writeEnvelope_def Let_def c1 split: option.splits prod.splits if_splits)
    have "\<exists>k. ws_sent c2 = [(k, join_envelope (?c k0))]"
      using reconnectLocked_redials [OF r] n by (auto simp: redialled_def)
    with c assms(2) show ?thesis by (auto simp: ws_write_def j split: option.splits)
  qed
qed

lemma session_start_runs:
  assumes "session_start role who env fl d = Some (Running st, d')"
  shows "(k, e) \<in> set (ws_sent (st_sig st)) \<Longrightarrow> e = join_envelope (new_client (fl_room fl) role (PublicBase64 (st_id st)))"
    and "\<exists>ready. me_ready env = Inr ready \<and> Kind ready = ''ready'' \<and> ParsePublic (Pubkey ready) = Inr (st_peer st)"
proof -
  from assms obtain u where dl: "DialWithLogger (fl_signal fl) (fl_room fl) role (PublicBase64 (st_id st)) (me_dialled env) (me_join env)
      (me_redials env) (me_rejoin env) = Some (Ret (Inr u), st_sig st)"
    by (auto simp: session_start_def split: prod.splits sum.splits option.splits outcome.splits if_splits)
  have rd: "\<exists>key k0 d0 k1. client_Ready (me_quote env) (me_ready env) (st_sig st) = Ret key
      \<and> admit_peer who (me_codec env) (me_quote env) (me_kr env) (fl_alias fl) key (k0, d0) = (Inr (st_peer st), k1, d')"
    using assms
    by (auto simp: session_start_def split: prod.splits sum.splits option.splits outcome.splits if_splits) blast
  show "e = join_envelope (new_client (fl_room fl) role (PublicBase64 (st_id st)))" if "(k, e) \<in> set (ws_sent (st_sig st))"
    using dial_sends_join [OF dl that] .
  from rd obtain r kd kd' where r: "client_Ready (me_quote env) (me_ready env) (st_sig st) = Ret r"
      "admit_peer who (me_codec env) (me_quote env) (me_kr env) (fl_alias fl) r kd = (Inr (st_peer st), kd')" by blast
  from r(2) obtain key where "r = Inr key" "ParsePublic key = Inr (st_peer st)"
    by (auto simp: admit_peer_def split: sum.splits prod.splits option.splits if_splits)
  with r(1) show "\<exists>ready. me_ready env = Inr ready \<and> Kind ready = ''ready'' \<and> ParsePublic (Pubkey ready) = Inr (st_peer st)"
    by (auto simp: client_Ready_def split: option.splits sum.splits if_splits)
qed

text \<open>The server when the owner has joined on socket 1 and then the viewer on socket 2.\<close>

definition meeting :: "(nat \<Rightarrow> bool) \<Rightarrow> Envelope \<Rightarrow> Envelope \<Rightarrow> hub" where
  "meeting up jo jv =
     (let (p1, h1) = handle_first up 1 (Some jo) newHub;
          h1' = snd (handler_step up 1 None p1 h1);
          (p2, h2) = handle_first up 2 (Some jv) h1'
      in snd (handler_step up 2 None p2 h2))"

lemma meeting_readies:
  assumes "Kind jo = ''join''" and "Kind jv = ''join''" and "Room jo = Room jv" and "Room jo \<noteq> []"
    and "Role jo = ''owner''" and "Role jv = ''viewer''"
  shows "(1, f) \<in> set (sent (meeting up jo jv)) \<Longrightarrow> Pubkey f = Pubkey jv"
    and "(2, f) \<in> set (sent (meeting up jo jv)) \<Longrightarrow> Pubkey f = Pubkey jo"
proof -
  have roles: "valid_role ''owner''" "valid_role ''viewer''" "other_role ''owner'' = ''viewer''" "other_role ''viewer'' = ''owner''"
    by (simp_all add: valid_role_def other_role_def)
  have n: "slot newHub k = None" "sent newHub = []" for k by (simp_all add: newHub_def slot_def)
  show "(1, f) \<in> set (sent (meeting up jo jv)) \<Longrightarrow> Pubkey f = Pubkey jv"
    and "(2, f) \<in> set (sent (meeting up jo jv)) \<Longrightarrow> Pubkey f = Pubkey jo"
    using assms roles
    by (auto simp: meeting_def handle_first_join n slot_pair_peer handle_announce_def ws_WriteJSON_def Let_def
        zero_Envelope_def split: if_splits)
qed

text \<open>
  Property C10: the two processes of a room get to know each other. If the owner and the viewer join
  the same room, the server passes on what it does, and each \<open>main\<close> is given the \<open>ready\<close> frame that
  the server wrote to its socket, then each session that starts carries the public key of the
  other's identity: keys survive encoding, the join, the server's pairing and parsing.
\<close>
theorem sessions_hold_each_others_key:
  assumes "owner_main pe envo flo (do, wo) = Some (Running ro, do', wo')"
    and "viewer_main listen envv flv dv = Some (Running rv, dv')"
    and "fl_room flo = fl_room flv" and "fl_room flo \<noteq> []"
    and "(ko, jo) \<in> set (ws_sent (st_sig (or_start ro)))" and "(kv, jv) \<in> set (ws_sent (st_sig (vr_start rv)))"
    and "me_ready envo = Inr fo" and "(1, fo) \<in> set (sent (meeting up jo jv))"
    and "me_ready envv = Inr fv" and "(2, fv) \<in> set (sent (meeting up jo jv))"
  shows "st_peer (or_start ro) = Public (st_id (vr_start rv)) \<and> st_peer (vr_start rv) = Public (st_id (or_start ro))"
proof -
  have so: "session_start ''owner'' ''viewer'' envo flo do = Some (Running (or_start ro), do')"
    using assms(1) by (auto simp: owner_main_def Let_def split: option.splits prod.splits main_end.splits)
  have sv: "session_start ''viewer'' ''owner'' envv flv dv = Some (Running (vr_start rv), dv')"
    using assms(2) by (auto simp: viewer_main_def Let_def split: option.splits prod.splits main_end.splits)
  note jo = session_start_runs(1) [OF so assms(5)] and jv = session_start_runs(1) [OF sv assms(6)]
  have k: "Pubkey jo = PublicBase64 (st_id (or_start ro))" "Pubkey jv = PublicBase64 (st_id (vr_start rv))"
    "Kind jo = ''join''" "Kind jv = ''join''" "Room jo = Room jv" "Room jo \<noteq> []" "Role jo = ''owner''" "Role jv = ''viewer''"
    using assms(3,4) by (simp_all add: jo jv join_envelope_def new_client_def)
  note m = meeting_readies [OF k(3-8), of _ up]
  have p: "q = Public i" if "ParsePublic (PublicBase64 i) = Inr q" for q i
    using that by (auto simp: ParsePublic_def PublicBase64_def base64_roundtrip split: if_splits)
  show ?thesis
    using session_start_runs(2) [OF so] session_start_runs(2) [OF sv] assms(7,9) m(1) [OF assms(8)] m(2) [OF assms(10)]
      k(1,2) p by auto
qed

definition ready_with :: "byte \<Rightarrow> Envelope" where
  "ready_with b = zero_Envelope\<lparr>Kind := ''ready'', Pubkey := EncodeToString (replicate 32 b)\<rparr>"

theorem sessions_hold_each_others_key_witness:
  "\<exists>ro do' w' rv dv'. owner_main linux_env (calm_main 7 1 (ready_with 9)) room_flags ((\<lambda>_. None), no_locks)
       = Some (Running ro, do', w')
     \<and> viewer_main None (calm_main 9 2 (ready_with 7)) room_flags (\<lambda>_. None) = Some (Running rv, dv')
     \<and> st_peer (or_start ro) = replicate 32 9 \<and> st_peer (vr_start rv) = replicate 32 7"
proof -
  let ?pk = "\<lambda>b :: byte. EncodeToString (replicate 32 b)"
  let ?jo = "join_envelope (new_client ''r'' ''owner'' (?pk 7))"
  let ?jv = "join_envelope (new_client ''r'' ''viewer'' (?pk 9))"
  have r: "Kind (ready_with b) = ''ready''" "Pubkey (ready_with b) = ?pk b" for b
    by (simp_all add: ready_with_def)
  note st = calm_start [OF _ _ r, of "\<lambda>_. None"]
  obtain ro do' w' where o: "owner_main linux_env (calm_main 7 1 (ready_with 9)) room_flags ((\<lambda>_. None), no_locks)
      = Some (Running ro, do', w')" and ro: "st_id (or_start ro) = \<lparr>Private = replicate 32 7 @ replicate 32 7, Public = replicate 32 7\<rparr>"
      "(1, ?jo) \<in> set (ws_sent (st_sig (or_start ro)))"
    using st [of 9 "''owner''" "''viewer''" 7 1]
    by (cases "Acquire (pe_os linux_env) (pe_pid linux_env) (pe_lookPath linux_env) (pe_fault linux_env) no_locks")
       (simp add: owner_main_def Let_def)
  obtain rv dv' where v: "viewer_main None (calm_main 9 2 (ready_with 7)) room_flags (\<lambda>_. None) = Some (Running rv, dv')"
      and rv: "st_id (vr_start rv) = \<lparr>Private = replicate 32 9 @ replicate 32 9, Public = replicate 32 9\<rparr>"
      "(2, ?jv) \<in> set (ws_sent (st_sig (vr_start rv)))"
    using st [of 7 "''viewer''" "''owner''" 9 2] by (simp add: viewer_main_def Let_def)
  have m: "(1, ready_with 9) \<in> set (sent (meeting (\<lambda>_. True) ?jo ?jv))" "(2, ready_with 7) \<in> set (sent (meeting (\<lambda>_. True) ?jo ?jv))"
    by (simp_all add: meeting_def handle_first_def pair_peer_def newHub_def empty_room_def Let_def join_envelope_def
        new_client_def handle_announce_def ws_WriteJSON_def close_opt_def zero_Envelope_def ready_with_def)
  have e: "me_ready (calm_main 7 1 (ready_with 9)) = Inr (ready_with 9)" "me_ready (calm_main 9 2 (ready_with 7)) = Inr (ready_with 7)"
    "fl_room room_flags \<noteq> []" by (simp_all add: calm_main_def room_flags_def owner_flag_defaults_def)
  from sessions_hold_each_others_key [OF o v refl e(3) ro(2) rv(2) e(1) m(1) e(2) m(2)] o v ro(1) rv(1)
  show ?thesis by auto
qed

end
