(* ===== verification/Peer_Glue.thy ===== *)
theory Peer_Glue
  imports Signal_Message Go_Error
begin

text \<open>
  The glue around the WebRTC library in \<open>internal/peer/peer.go\<close>. The peer connection and the
  JSON decoder of its messages belong to libraries: \<open>pc_lib\<close> is a record of what the code
  calls, over an arbitrary state of the peer connection.
\<close>

record ICEServer =
  URLs :: "string list"
  Username :: string
  Credential :: string

definition turnUsername :: string where "turnUsername = ''claudy''"
definition defaultTURNSecret :: string where "defaultTURNSecret = ''RjLZy0GjXCCgqXotwKIbcpfeGmjrFhJJ''"

text \<open>\<open>secret\<close> is the environment variable; an unset variable reads as the empty string.\<close>

definition DefaultICEServers :: "string \<Rightarrow> ICEServer list" where
  "DefaultICEServers secret =
     (let turnSecret = (if secret = [] then defaultTURNSecret else secret)
      in [\<lparr>URLs = [''stun:stun.cloudflare.com:3478''], Username = [], Credential = []\<rparr>,
          \<lparr>URLs = [''stun:stun.l.google.com:19302''], Username = [], Credential = []\<rparr>,
          \<lparr>URLs = [''turn:23.172.217.149:3478?transport=udp''], Username = turnUsername,
             Credential = turnSecret\<rparr>,
          \<lparr>URLs = [''turn:23.172.217.149:3478?transport=tcp''], Username = turnUsername,
             Credential = turnSecret\<rparr>])"

record pc_config =
  ICEServers :: "ICEServer list"
  ICETransportPolicyRelay :: bool

text \<open>The configuration and the error of \<open>NewWithPolicy\<close>; \<open>new\<close> is the library's constructor.\<close>

definition NewWithPolicy :: "(pc_config \<Rightarrow> error + 'pc) \<Rightarrow> string \<Rightarrow> bool \<Rightarrow> error + 'pc" where
  "NewWithPolicy new secret relayOnly =
     (let cfg0 = \<lparr>ICEServers = DefaultICEServers secret, ICETransportPolicyRelay = False\<rparr>;
          cfg = (if relayOnly then cfg0\<lparr>ICETransportPolicyRelay := True\<rparr> else cfg0)
      in (case new cfg of
            Inl e \<Rightarrow> Inl (WrapError ''new peer connection: '' e [])
          | Inr pc \<Rightarrow> Inr pc))"

definition New :: "(pc_config \<Rightarrow> error + 'pc) \<Rightarrow> string \<Rightarrow> error + 'pc" where
  "New new secret = NewWithPolicy new secret False"

text \<open>The callback for local candidates; \<open>None\<close> is the end of gathering.\<close>

definition OnICECandidate :: "(string \<Rightarrow> 'cand \<Rightarrow> 's \<Rightarrow> error option \<times> 's) \<Rightarrow> 'cand option \<Rightarrow> 's \<Rightarrow> 's" where
  "OnICECandidate send c s =
     (case c of None \<Rightarrow> s | Some cand \<Rightarrow> snd (send ''ice'' cand s))"

record ('pc, 'sdp, 'cand) pc_lib =
  UnmarshalSDP :: "string \<Rightarrow> error + 'sdp"
  UnmarshalICE :: "string \<Rightarrow> error + 'cand"
  SetRemoteDescription :: "'sdp \<Rightarrow> 'pc \<Rightarrow> error option \<times> 'pc"
  AddICECandidate :: "'cand \<Rightarrow> 'pc \<Rightarrow> error option \<times> 'pc"

definition ApplyRemote :: "('pc, 'sdp, 'cand) pc_lib \<Rightarrow> Envelope \<Rightarrow> 'pc \<Rightarrow> (bool \<times> error option) \<times> 'pc" where
  "ApplyRemote L e pc =
     (if Kind e = ''sdp'' then
        (case UnmarshalSDP L (Payload e) of
           Inl err \<Rightarrow> ((True, Some (WrapError ''decode sdp: '' err [])), pc)
         | Inr sdp \<Rightarrow>
             (case SetRemoteDescription L sdp pc of
                (Some err, pc') \<Rightarrow> ((True, Some (WrapError ''set remote sdp: '' err [])), pc')
              | (None, pc') \<Rightarrow> ((True, None), pc')))
      else if Kind e = ''ice'' then
        (case UnmarshalICE L (Payload e) of
           Inl err \<Rightarrow> ((True, Some (WrapError ''decode ice: '' err [])), pc)
         | Inr cand \<Rightarrow>
             (case AddICECandidate L cand pc of
                (Some err, pc') \<Rightarrow> ((True, Some (WrapError ''add ice: '' err [])), pc')
              | (None, pc') \<Rightarrow> ((True, None), pc')))
      else ((False, None), pc))"

text \<open>
  The chain of accessors of \<open>SelectedPath\<close>; a nil pointer anywhere gives four empty strings.
\<close>

record ('sctp, 'dtls, 'ice) path_lib =
  Transport :: "'sctp \<Rightarrow> 'dtls option"
  ICETransport :: "'dtls \<Rightarrow> 'ice option"
  GetSelectedCandidatePair :: "'ice \<Rightarrow> error + ((string \<times> string) \<times> (string \<times> string)) option"

definition SelectedPath :: "('sctp, 'dtls, 'ice) path_lib \<Rightarrow> 'sctp option
    \<Rightarrow> string \<times> string \<times> string \<times> string" where
  "SelectedPath L sctp =
     (case sctp of None \<Rightarrow> ([], [], [], [])
      | Some s \<Rightarrow>
          (case Transport L s of None \<Rightarrow> ([], [], [], [])
           | Some d \<Rightarrow>
               (case ICETransport L d of None \<Rightarrow> ([], [], [], [])
                | Some i \<Rightarrow>
                    (case GetSelectedCandidatePair L i of
                       Inl e \<Rightarrow> ([], [], [], [])
                     | Inr None \<Rightarrow> ([], [], [], [])
                     | Inr (Some ((lt, la), (rt, ra))) \<Rightarrow> (lt, rt, la, ra)))))"

text \<open>
  Dispatch of signaling messages. An envelope is consumed exactly when it is an
  \<open>sdp\<close> or an \<open>ice\<close> message; one that is not, or whose payload does not decode, leaves
  the peer connection untouched; the only errors are those of a consumed message, and they
  wrap the library's.
\<close>
theorem ApplyRemote_dispatch:
  "\<exists>consumed err pc'. ApplyRemote L e pc = ((consumed, err), pc')
     \<and> consumed = (Kind e \<in> {''sdp'', ''ice''})
     \<and> (\<not> consumed \<longrightarrow> err = None \<and> pc' = pc)
     \<and> (pc' \<noteq> pc \<longrightarrow>
          (\<exists>sdp. Kind e = ''sdp'' \<and> UnmarshalSDP L (Payload e) = Inr sdp
             \<and> pc' = snd (SetRemoteDescription L sdp pc))
        \<or> (\<exists>cand. Kind e = ''ice'' \<and> UnmarshalICE L (Payload e) = Inr cand
             \<and> pc' = snd (AddICECandidate L cand pc)))
     \<and> (case err of None \<Rightarrow> True | Some x \<Rightarrow> consumed \<and> (\<exists>t cause. x = WrapError t cause []))"
  by (auto simp: ApplyRemote_def split: sum.splits prod.splits option.splits)

theorem ApplyRemote_dispatch_witness:
  "ApplyRemote \<lparr>UnmarshalSDP = Inr, UnmarshalICE = (\<lambda>_. Inl io_EOF),
      SetRemoteDescription = (\<lambda>sdp (pc :: string list). (None, sdp # pc)),
      AddICECandidate = (\<lambda>(c :: string) pc. (None, pc))\<rparr>
     (zero_Envelope\<lparr>Kind := ''sdp'', Payload := ''v=0''\<rparr>) [] = ((True, None), [''v=0''])
   \<and> fst (ApplyRemote \<lparr>UnmarshalSDP = Inr, UnmarshalICE = (\<lambda>_. Inl io_EOF),
      SetRemoteDescription = (\<lambda>sdp (pc :: string list). (None, sdp # pc)),
      AddICECandidate = (\<lambda>(c :: string) pc. (None, pc))\<rparr>
     (zero_Envelope\<lparr>Kind := ''bye''\<rparr>) []) = (False, None)"
  using ApplyRemote_dispatch [of "\<lparr>UnmarshalSDP = Inr, UnmarshalICE = (\<lambda>_. Inl io_EOF),
      SetRemoteDescription = (\<lambda>sdp (pc :: string list). (None, sdp # pc)),
      AddICECandidate = (\<lambda>(c :: string) pc. (None, pc))\<rparr>" "zero_Envelope\<lparr>Kind := ''bye''\<rparr>" "[]"]
  by (simp add: ApplyRemote_def zero_Envelope_def)

end
