(* ===== verification/Go_Path.thy ===== *)
theory Go_Path
  imports Go_Strings
begin

text \<open>
  The Go package \<open>path\<close>, lexically: a path is split at the separator, and \<open>Clean\<close> keeps a stack
  of the elements that remain. The separator is an argument, so that \<open>path/filepath\<close> on
  Windows, behind the volume name, is the same computation.
\<close>

fun split_on :: "char \<Rightarrow> string \<Rightarrow> string list" where
  "split_on c [] = [[]]"
| "split_on c (x # s) =
     (if x = c then [] # split_on c s
      else (case split_on c s of [] \<Rightarrow> [[x]] | w # ws \<Rightarrow> (x # w) # ws))"

fun join_with :: "char \<Rightarrow> string list \<Rightarrow> string" where
  "join_with c [] = []"
| "join_with c [w] = w"
| "join_with c (w # v # ws) = w @ c # join_with c (v # ws)"

text \<open>One element against the stack, whose top is the head of the list.\<close>

definition clean_elem :: "bool \<Rightarrow> string \<Rightarrow> string list \<Rightarrow> string list" where
  "clean_elem rooted e stack =
     (if e = [] \<or> e = ''.'' then stack
      else if e = ''..'' then
        (case stack of
           [] \<Rightarrow> if rooted then [] else [''..'']
         | x # xs \<Rightarrow> if x = ''..'' then ''..'' # stack else xs)
      else e # stack)"

definition clean_elems :: "bool \<Rightarrow> string list \<Rightarrow> string list" where
  "clean_elems rooted es = rev (fold (clean_elem rooted) es [])"

definition clean_with :: "char \<Rightarrow> string \<Rightarrow> string" where
  "clean_with c p =
     (if p = [] then ''.''
      else
        let rooted = (hd p = c);
            out = join_with c (clean_elems rooted (split_on c p))
        in if rooted then c # out else if out = [] then ''.'' else out)"

definition path_Clean :: "string \<Rightarrow> string" where
  "path_Clean = clean_with (CHR ''/'')"

definition path_Base :: "string \<Rightarrow> string" where
  "path_Base p =
     (if p = [] then ''.''
      else
        let q = rev (dropWhile (\<lambda>c. c = CHR ''/'') (rev p))
        in if q = [] then ''/'' else last (split_on (CHR ''/'') q))"

definition path_Dir :: "string \<Rightarrow> string" where
  "path_Dir p = path_Clean (rev (dropWhile (\<lambda>c. c \<noteq> CHR ''/'') (rev p)))"

definition path_Join :: "string \<Rightarrow> string \<Rightarrow> string" where
  "path_Join a b =
     (if a = [] \<and> b = [] then []
      else path_Clean (if a = [] then b else if b = [] then a else a @ ''/'' @ b))"

subsection \<open>Splitting\<close>

lemma split_on_ne [simp]: "split_on c s \<noteq> []"
  by (cases s) (auto split: list.splits)

lemma split_on_no_sep: "w \<in> set (split_on c s) \<Longrightarrow> c \<notin> set w"
  by (induction s arbitrary: w) (auto split: list.splits if_splits)

lemma split_on_subset: "w \<in> set (split_on c s) \<Longrightarrow> set w \<subseteq> set s"
proof (induction s arbitrary: w)
  case Nil
  then show ?case by simp
next
  case (Cons x s)
  then obtain v vs where "split_on c s = v # vs" by (cases "split_on c s") auto
  with Cons show ?case by (fastforce split: if_splits)
qed

lemma split_on_plain [simp]: "c \<notin> set s \<Longrightarrow> split_on c s = [s]"
  by (induction s) auto

lemma split_on_append_sep: "split_on c (s @ c # t) = split_on c s @ split_on c t"
proof (induction s)
  case Nil
  then show ?case by simp
next
  case (Cons x s)
  then show ?case by (cases "split_on c s") auto
qed

lemma join_split [simp]: "join_with c (split_on c s) = s"
proof (induction s)
  case Nil
  then show ?case by simp
next
  case (Cons x s)
  then show ?case
    by (cases "split_on c s" rule: remdups_adj.cases) auto
qed

lemma split_join: "ws \<noteq> [] \<Longrightarrow> (\<forall>w \<in> set ws. c \<notin> set w) \<Longrightarrow> split_on c (join_with c ws) = ws"
  by (induction c ws rule: join_with.induct) (auto simp: split_on_append_sep)

lemma set_join_with: "set (join_with c ws) \<subseteq> insert c (\<Union> (set ` set ws))"
  by (induction c ws rule: join_with.induct) auto

lemma join_with_empty: "(\<forall>w \<in> set ws. w \<noteq> []) \<Longrightarrow> join_with c ws = [] \<longleftrightarrow> ws = []"
  by (induction c ws rule: join_with.induct) auto

subsection \<open>Cleaning\<close>

text \<open>What is left on the stack of a rooted path: proper names, none of them empty or dotted.\<close>

definition proper :: "string \<Rightarrow> bool" where
  "proper e \<longleftrightarrow> e \<noteq> [] \<and> e \<noteq> ''.'' \<and> e \<noteq> ''..''"

lemma not_proper [simp]: "\<not> proper []" "\<not> proper ''.''" "\<not> proper ''..''"
  by (simp_all add: proper_def)

lemma clean_elem_proper:
  assumes "list_all proper stack"
  shows "list_all proper (clean_elem True e stack)"
proof -
  consider "e = []" | "e = ''.''" | "e = ''..''" | "proper e" by (auto simp: proper_def)
  then show ?thesis
  proof cases
    case 3
    with assms show ?thesis by (cases stack) (auto simp: clean_elem_def)
  next
    case 4
    with assms show ?thesis by (simp add: clean_elem_def proper_def)
  qed (use assms in \<open>simp_all add: clean_elem_def\<close>)
qed

lemma clean_fold_proper:
  "list_all proper stack \<Longrightarrow> list_all proper (fold (clean_elem True) es stack)"
proof (induction es arbitrary: stack)
  case Nil
  then show ?case by simp
next
  case (Cons e es)
  from Cons.IH [OF clean_elem_proper [OF Cons.prems]] show ?case by simp
qed

lemma clean_elems_proper: "list_all proper (clean_elems True es)"
  using clean_fold_proper [of "[]" es] by (simp add: clean_elems_def list_all_rev)

lemma clean_fold_subset: "set (fold (clean_elem True) es stack) \<subseteq> set es \<union> set stack"
proof (induction es arbitrary: stack)
  case Nil
  then show ?case by simp
next
  case (Cons e es)
  have "set (clean_elem True e stack) \<subseteq> insert e (set stack)"
    by (auto simp: clean_elem_def split: list.splits if_splits)
  with Cons.IH [of "clean_elem True e stack"] show ?case by auto
qed

lemma clean_elems_subset: "set (clean_elems True es) \<subseteq> set es"
  using clean_fold_subset [of es "[]"] by (simp add: clean_elems_def)

lemma clean_fold_id: "list_all proper es \<Longrightarrow> fold (clean_elem r) es stack = rev es @ stack"
  by (induction es arbitrary: stack) (auto simp: clean_elem_def proper_def)

text \<open>Cleaning proper names changes nothing, so cleaning is idempotent.\<close>

lemma clean_elems_id: "list_all proper es \<Longrightarrow> clean_elems r es = es"
  by (simp add: clean_elems_def clean_fold_id)

lemma clean_elems_idem [simp]: "clean_elems r (clean_elems True es) = clean_elems True es"
  by (rule clean_elems_id [OF clean_elems_proper])

text \<open>A rooted path is cleaned to the elements that are left, each behind a separator.\<close>

lemma clean_rooted: "path_Clean (CHR ''/'' # p) = CHR ''/'' # join_with (CHR ''/'') (clean_elems True (split_on (CHR ''/'') p))"
  by (simp add: path_Clean_def clean_with_def Let_def clean_elems_def clean_elem_def)

lemma split_clean_rooted:
  "clean_elems True (split_on c (join_with c (clean_elems True (split_on c p)))) = clean_elems True (split_on c p)"
proof (cases "clean_elems True (split_on c p) = []")
  case True
  then show ?thesis by (simp add: clean_elems_def clean_elem_def)
next
  case False
  have "\<forall>w \<in> set (clean_elems True (split_on c p)). c \<notin> set w"
    using clean_elems_subset split_on_no_sep by blast
  with False show ?thesis by (simp add: split_join)
qed

lemma path_Clean_idem: "path_Clean (path_Clean (CHR ''/'' # p)) = path_Clean (CHR ''/'' # p)"
  by (simp add: clean_rooted split_clean_rooted)

text \<open>The last element of a rooted path of proper names, with or without a slash behind it.\<close>

lemma last_join_with: "ws \<noteq> [] \<Longrightarrow> last ws \<noteq> [] \<Longrightarrow> last (join_with c ws) = last (last ws) \<and> join_with c ws \<noteq> []"
  by (induction c ws rule: join_with.induct) auto

lemma Clean_proper:
  assumes "list_all proper ws" and "\<forall>w \<in> set ws. CHR ''/'' \<notin> set w" and "ws \<noteq> []"
    and "trail \<in> {[], ''/''}"
  shows "path_Clean (CHR ''/'' # join_with (CHR ''/'') ws @ trail) = CHR ''/'' # join_with (CHR ''/'') ws"
proof -
  have "clean_elems True (split_on (CHR ''/'') (join_with (CHR ''/'') ws @ trail)) = clean_elems True ws"
    using assms(2-4)
    by (auto simp: split_join split_on_append_sep clean_elems_def clean_elem_def)
  then show ?thesis using assms(1) by (simp add: clean_rooted clean_elems_id)
qed

lemma Base_proper:
  assumes "\<forall>w \<in> set ws. CHR ''/'' \<notin> set w" and "ws \<noteq> []" and "last ws \<noteq> []"
  shows "path_Base (CHR ''/'' # join_with (CHR ''/'') ws) = last ws"
proof -
  let ?p = "CHR ''/'' # join_with (CHR ''/'') ws"
  have l: "last (join_with (CHR ''/'') ws) = last (last ws)" "join_with (CHR ''/'') ws \<noteq> []"
    using last_join_with [OF assms(2,3)] by auto
  have "last (last ws) \<in> set (last ws)" "last ws \<in> set ws" using assms(2,3) by auto
  with assms(1) have "last (last ws) \<noteq> CHR ''/''" by metis
  with l have "dropWhile (\<lambda>c. c = CHR ''/'') (rev ?p) = rev ?p"
    by (cases "join_with (CHR ''/'') ws" rule: rev_cases) auto
  then show ?thesis using assms(1,2) by (simp add: path_Base_def Let_def split_join)
qed

end
