(* ===== verification/Go_Text.thy ===== *)
theory Go_Text
  imports Go_Path Go_Error "HOL-Library.Char_ord"
begin

text \<open>
  More of the packages \<open>strings\<close>, \<open>strconv\<close> and \<open>net/url\<close>, on byte strings. White space is that of
  Unicode, in UTF-8; letters are those of ASCII.
\<close>

text \<open>
  The encodings of the runes that \<open>unicode.IsSpace\<close> accepts. None is a prefix of another, and only the
  first byte of an encoding can begin a rune, so looking for them byte by byte is looking rune by rune.
\<close>

definition white_space :: "string list" where
  "white_space =
     [[CHR 0x09], [CHR 0x0A], [CHR 0x0B], [CHR 0x0C], [CHR 0x0D], [CHR 0x20],
      [CHR 0xC2, CHR 0x85], [CHR 0xC2, CHR 0xA0], [CHR 0xE1, CHR 0x9A, CHR 0x80]]
     @ map (\<lambda>c. [CHR 0xE2, CHR 0x80, c])
         [CHR 0x80, CHR 0x81, CHR 0x82, CHR 0x83, CHR 0x84, CHR 0x85, CHR 0x86, CHR 0x87, CHR 0x88, CHR 0x89, CHR 0x8A,
          CHR 0xA8, CHR 0xA9, CHR 0xAF]
     @ [[CHR 0xE2, CHR 0x81, CHR 0x9F], [CHR 0xE3, CHR 0x80, CHR 0x80]]"

function trim_left :: "string list \<Rightarrow> string \<Rightarrow> string" where
  "trim_left ts s =
     (case find (\<lambda>t. t \<noteq> [] \<and> HasPrefix s t) ts of None \<Rightarrow> s | Some t \<Rightarrow> trim_left ts (drop (length t) s))"
  by pat_completeness auto
termination
  by (relation "measure (\<lambda>(ts, s). length s)") (auto simp: find_Some_iff HasPrefix_iff)

declare trim_left.simps [simp del]

definition TrimSpace :: "string \<Rightarrow> string" where
  "TrimSpace s = rev (trim_left (map rev white_space) (rev (trim_left white_space s)))"

definition ToLower :: "string \<Rightarrow> string" where
  "ToLower = map (\<lambda>c. if CHR ''A'' \<le> c \<and> c \<le> CHR ''Z'' then char_of (of_char c + 32 :: nat) else c)"

definition ToUpper :: "string \<Rightarrow> string" where
  "ToUpper = map (\<lambda>c. if CHR ''a'' \<le> c \<and> c \<le> CHR ''z'' then char_of (of_char c - 32 :: nat) else c)"

text \<open>\<open>Fields\<close>, with the word that is being read; \<open>space_at\<close> is the length of the white space ahead.\<close>

definition space_at :: "string \<Rightarrow> nat" where
  "space_at s = (case find (HasPrefix s) white_space of None \<Rightarrow> 0 | Some t \<Rightarrow> length t)"

function fields_from :: "string \<Rightarrow> string \<Rightarrow> string list" where
  "fields_from w [] = (if w = [] then [] else [w])"
| "fields_from w (c # s) =
     (let n = space_at (c # s) in
      if n = 0 then fields_from (w @ [c]) s
      else if w = [] then fields_from [] (drop n (c # s)) else w # fields_from [] (drop n (c # s)))"
  by pat_completeness auto
termination
  by (relation "measure (\<lambda>(w, s). length s)") auto

definition Fields :: "string \<Rightarrow> string list" where
  "Fields = fields_from []"

fun Index :: "string \<Rightarrow> string \<Rightarrow> nat option" where
  "Index [] p = (if p = [] then Some 0 else None)"
| "Index (c # s) p = (if HasPrefix (c # s) p then Some 0 else map_option Suc (Index s p))"

definition Cut :: "string \<Rightarrow> string \<Rightarrow> string \<times> string \<times> bool" where
  "Cut s sep =
     (case Index s sep of None \<Rightarrow> (s, [], False) | Some i \<Rightarrow> (take i s, drop (i + length sep) s, True))"

text \<open>\<open>ParseInt\<close> in base 10 for 64 bits, with the value it has beside an error.\<close>

definition is_digit :: "char \<Rightarrow> bool" where
  "is_digit c \<longleftrightarrow> CHR ''0'' \<le> c \<and> c \<le> CHR ''9''"

definition digits_value :: "string \<Rightarrow> int" where
  "digits_value s = foldl (\<lambda>n c. 10 * n + (of_char c - 48)) 0 s"

definition ParseInt :: "string \<Rightarrow> int" where
  "ParseInt s =
     (let neg = (s \<noteq> [] \<and> hd s = CHR ''-'');
          t = (if s \<noteq> [] \<and> (hd s = CHR ''-'' \<or> hd s = CHR ''+'') then tl s else s)
      in if t = [] \<or> \<not> list_all is_digit t then 0
         else if neg then max (- (2 ^ 63)) (- digits_value t) else min (2 ^ 63 - 1) (digits_value t))"

subsection \<open>Escaping a path segment\<close>

definition upperhex :: string where "upperhex = ''0123456789ABCDEF''"

definition unreserved :: string where
  "unreserved = ''abcdefghijklmnopqrstuvwxyzABCDEFGHIJKLMNOPQRSTUVWXYZ0123456789-_.~''"

text \<open>\<open>shouldEscape\<close> in the mode of a path segment.\<close>

definition shouldEscape :: "char \<Rightarrow> bool" where
  "shouldEscape c \<longleftrightarrow> c \<notin> set unreserved \<and> c \<notin> set ''$&+:=@''"

definition escape_char :: "char \<Rightarrow> string" where
  "escape_char c =
     (if shouldEscape c
      then [CHR ''%'', upperhex ! (of_char c div 16), upperhex ! (of_char c mod 16)] else [c])"

definition PathEscape :: "string \<Rightarrow> string" where
  "PathEscape s = concat (map escape_char s)"

definition unhex :: "char \<Rightarrow> nat option" where
  "unhex c =
     (if is_digit c then Some (of_char c - 48)
      else if CHR ''a'' \<le> c \<and> c \<le> CHR ''f'' then Some (of_char c - 87)
      else if CHR ''A'' \<le> c \<and> c \<le> CHR ''F'' then Some (of_char c - 55)
      else None)"

fun PathUnescape :: "string \<Rightarrow> string option" where
  "PathUnescape [] = Some []"
| "PathUnescape (c # s) =
     (if c = CHR ''%'' then
        (case s of
           a # b # t \<Rightarrow>
             (case (unhex a, unhex b) of
                (Some x, Some y) \<Rightarrow> map_option (Cons (char_of (16 * x + y))) (PathUnescape t)
              | _ \<Rightarrow> None)
         | _ \<Rightarrow> None)
      else map_option (Cons c) (PathUnescape s))"

lemma char_below_256: "(of_char c :: nat) < 256"
  by (metis of_char_mod_256 mod_less_divisor zero_less_numeral)

lemma unhex_upperhex: "n < 16 \<Longrightarrow> unhex (upperhex ! n) = Some n"
proof -
  have "\<forall>n \<in> set [0..<16]. unhex (upperhex ! n) = Some n" by code_simp
  then show "n < 16 \<Longrightarrow> unhex (upperhex ! n) = Some n" by simp
qed

lemma shouldEscape_percent: "shouldEscape (CHR ''%'')" "shouldEscape (CHR ''/'')" "shouldEscape (CHR ''?'')" "shouldEscape (CHR ''#'')"
  by code_simp+

lemma unescape_escape_char: "PathUnescape (escape_char c @ t) = map_option (Cons c) (PathUnescape t)"
proof (cases "shouldEscape c")
  case True
  have "(of_char c :: nat) div 16 < 16" using char_below_256 [of c] by linarith
  then have "unhex (upperhex ! (of_char c div 16)) = Some (of_char c div 16)"
    "unhex (upperhex ! (of_char c mod 16)) = Some (of_char c mod 16)"
    by (simp_all add: unhex_upperhex)
  moreover have "char_of (16 * (of_char c div 16) + of_char c mod 16 :: nat) = c"
    by (simp only: mult_div_mod_eq char_of_char)
  ultimately show ?thesis using True by (simp add: escape_char_def)
next
  case False
  then have "c \<noteq> CHR ''%''" using shouldEscape_percent by auto
  with False show ?thesis by (simp add: escape_char_def)
qed

lemma unescape_escape: "PathUnescape (PathEscape s @ t) = map_option ((@) s) (PathUnescape t)"
proof (induction s)
  case Nil
  then show ?case by (simp add: PathEscape_def option.map_id0 [unfolded id_def] map_option.id)
next
  case (Cons c s)
  then show ?case
    by (simp add: PathEscape_def unescape_escape_char option.map_comp comp_def)
qed

lemma upperhex_plain: "n < 16 \<Longrightarrow> upperhex ! n \<in> set unreserved"
proof -
  have "\<forall>n \<in> set [0..<16]. upperhex ! n \<in> set unreserved" by code_simp
  then show "n < 16 \<Longrightarrow> upperhex ! n \<in> set unreserved" by simp
qed

text \<open>No separator of a URL survives in an escaped segment.\<close>

lemma escape_no_separator: "set (PathEscape s) \<inter> {CHR ''/'', CHR ''?'', CHR ''#''} = {}"
proof -
  have "set (escape_char c) \<subseteq> {x. x = CHR ''%'' \<or> \<not> shouldEscape x}" for c
  proof -
    have "(of_char c :: nat) div 16 < 16" using char_below_256 [of c] by linarith
    then have "upperhex ! (of_char c div 16) \<in> set unreserved" "upperhex ! (of_char c mod 16) \<in> set unreserved"
      by (simp_all add: upperhex_plain)
    then show ?thesis by (auto simp: escape_char_def shouldEscape_def)
  qed
  then have "set (PathEscape s) \<subseteq> {x. x = CHR ''%'' \<or> \<not> shouldEscape x}"
    by (fastforce simp: PathEscape_def)
  then show ?thesis using shouldEscape_percent by auto
qed

lemma unescape_join: "PathUnescape (join_with (CHR ''/'') (map PathEscape ws)) = Some (join_with (CHR ''/'') ws)"
proof (induction "CHR ''/''" ws rule: join_with.induct)
  case 1
  then show ?case by simp
next
  case (2 w)
  then show ?case using unescape_escape [of w "[]"] by simp
next
  case (3 w v ws)
  then show ?case using unescape_escape [of w] by simp
qed

subsection \<open>Case and white space\<close>

lemma ToLower_append [simp]: "ToLower (a @ b) = ToLower a @ ToLower b"
  by (simp add: ToLower_def)

text \<open>What is left has no element of the list in front any more, and is what the string ended with.\<close>

definition begins :: "string list \<Rightarrow> string \<Rightarrow> bool" where
  "begins ts s \<longleftrightarrow> (\<exists>t \<in> set ts. t \<noteq> [] \<and> HasPrefix s t)"

lemma begins_find: "find (\<lambda>t. t \<noteq> [] \<and> HasPrefix s t) ts = None \<longleftrightarrow> \<not> begins ts s"
  by (auto simp: find_None_iff begins_def)

lemma trim_left_stop: "\<not> begins ts s \<Longrightarrow> trim_left ts s = s"
  using begins_find [of s ts] by (subst trim_left.simps) simp

lemma trim_left_done: "\<not> begins ts (trim_left ts s)"
proof (induction ts s rule: trim_left.induct)
  case (1 ts s)
  show ?case
  proof (cases "find (\<lambda>t. t \<noteq> [] \<and> HasPrefix s t) ts")
    case None
    then have "\<not> begins ts s" by (simp add: begins_find)
    then show ?thesis by (simp add: trim_left_stop)
  next
    case (Some t)
    with 1 show ?thesis by (subst trim_left.simps) simp
  qed
qed

lemma trim_left_suffix: "\<exists>u. s = u @ trim_left ts s"
proof (induction ts s rule: trim_left.induct)
  case (1 ts s)
  show ?case
  proof (cases "find (\<lambda>t. t \<noteq> [] \<and> HasPrefix s t) ts")
    case None
    then show ?thesis by (subst trim_left.simps) simp
  next
    case (Some t)
    then have e: "trim_left ts s = trim_left ts (drop (length t) s)" by (subst trim_left.simps) simp
    from 1 [OF Some] obtain u where "drop (length t) s = u @ trim_left ts (drop (length t) s)" by blast
    with e have "s = (take (length t) s @ u) @ trim_left ts s" by (metis append.assoc append_take_drop_id)
    then show ?thesis by blast
  qed
qed

lemma begins_append: "begins ts s \<Longrightarrow> begins ts (s @ r)"
  by (fastforce simp: begins_def HasPrefix_iff)

lemma TrimSpace_idem: "TrimSpace (TrimSpace s) = TrimSpace s"
proof -
  define u where "u = trim_left white_space s"
  define v where "v = trim_left (map rev white_space) (rev u)"
  have t: "TrimSpace s = rev v" by (simp add: TrimSpace_def u_def v_def)
  obtain x where "rev u = x @ v" using trim_left_suffix [of "rev u" "map rev white_space"] v_def by metis
  then have "u = rev v @ rev x" by (metis rev_append rev_rev_ident)
  moreover have "\<not> begins white_space u" unfolding u_def by (rule trim_left_done)
  ultimately have "\<not> begins white_space (rev v)" using begins_append by metis
  then have "trim_left white_space (rev v) = rev v" by (rule trim_left_stop)
  moreover have "trim_left (map rev white_space) v = v" using trim_left_done trim_left_stop unfolding v_def by blast
  ultimately show ?thesis unfolding t by (simp add: TrimSpace_def [of "rev v"])
qed

text \<open>A text is unchanged exactly if it neither begins nor ends with white space.\<close>

lemma TrimSpace_begins:
  assumes "TrimSpace s = s"
  shows "\<not> begins white_space s \<and> \<not> begins (map rev white_space) (rev s)"
proof -
  define u where "u = trim_left white_space s"
  define v where "v = trim_left (map rev white_space) (rev u)"
  have v: "rev v = s" using assms by (simp add: TrimSpace_def u_def v_def)
  have l: "length u \<le> length s" "length v \<le> length u"
    using trim_left_suffix [of s white_space] trim_left_suffix [of "rev u" "map rev white_space"]
    by (metis u_def le_add2 length_append, metis v_def le_add2 length_append length_rev)
  have "length v = length s" using v by (metis length_rev)
  then have "u = s" using l trim_left_suffix [of s white_space] by (fastforce simp: u_def [symmetric])
  then have "\<not> begins white_space s" using trim_left_done [of white_space s] by (simp add: u_def)
  moreover have "\<not> begins (map rev white_space) v" unfolding v_def by (rule trim_left_done)
  ultimately show ?thesis using v by (metis rev_rev_ident)
qed

lemma TrimSpace_fixed: "TrimSpace s = s \<longleftrightarrow> \<not> (\<exists>t \<in> set white_space. HasPrefix s t \<or> HasSuffix s t)"
proof -
  have ne: "[] \<notin> set white_space" by (simp add: white_space_def)
  have "begins (map rev white_space) (rev s) \<longleftrightarrow> (\<exists>t \<in> set white_space. HasSuffix s t)"
    using ne by (auto simp: begins_def HasPrefix_iff HasSuffix_iff) (metis rev_append rev_rev_ident)+
  moreover have "begins white_space s \<longleftrightarrow> (\<exists>t \<in> set white_space. HasPrefix s t)"
    using ne unfolding begins_def by metis
  moreover have "TrimSpace s = s" if "\<not> begins white_space s" "\<not> begins (map rev white_space) (rev s)"
    using that by (simp add: TrimSpace_def trim_left_stop)
  ultimately show ?thesis using TrimSpace_begins by blast
qed

text \<open>One element of a list without prefixes of each other is trimmed as a whole.\<close>

definition prefix_free :: "string list \<Rightarrow> bool" where
  "prefix_free ts \<longleftrightarrow> list_all (\<lambda>t. list_all (\<lambda>u. HasPrefix t u \<longrightarrow> t = u) ts) ts \<and> [] \<notin> set ts"

lemma white_space_free: "prefix_free white_space" "prefix_free (map rev white_space)"
  by code_simp+

lemma trim_left_one:
  assumes "prefix_free ts" and "t \<in> set ts"
  shows "trim_left ts (t @ s) = trim_left ts s"
proof -
  have "find (\<lambda>u. u \<noteq> [] \<and> HasPrefix (t @ s) u) ts \<noteq> None"
    using assms by (auto simp: find_None_iff HasPrefix_iff prefix_free_def)
  then obtain u where u: "find (\<lambda>u. u \<noteq> [] \<and> HasPrefix (t @ s) u) ts = Some u" by blast
  then have m: "u \<in> set ts" "HasPrefix (t @ s) u" by (auto simp: find_Some_iff)
  then obtain r where "t @ s = u @ r" by (auto simp: HasPrefix_iff)
  then have "HasPrefix t u \<or> HasPrefix u t" by (auto simp: HasPrefix_iff append_eq_append_conv2)
  with assms m(1) have "u = t" by (auto simp: prefix_free_def list_all_iff)
  with u show ?thesis by (subst trim_left.simps) simp
qed

lemma trim_left_concat: "prefix_free ts \<Longrightarrow> set us \<subseteq> set ts \<Longrightarrow> trim_left ts (concat us @ s) = trim_left ts s"
  by (induction us) (simp_all add: trim_left_one)

lemma not_begins_hd: "s \<noteq> [] \<Longrightarrow> hd s \<notin> hd ` set ts \<Longrightarrow> \<not> begins ts (s @ r)"
  by (cases s) (force simp: begins_def HasPrefix_iff Cons_eq_append_conv)+

lemma TrimSpace_pad:
  assumes "set as \<subseteq> set white_space" and "set bs \<subseteq> set white_space"
    and "s \<noteq> []" and "hd s \<notin> hd ` set white_space" and "last s \<notin> last ` set white_space"
  shows "TrimSpace (concat as @ s @ concat bs) = s"
proof -
  have "trim_left white_space (concat as @ s @ concat bs) = s @ concat bs"
    using not_begins_hd [OF assms(3,4), of "concat bs"]
    by (simp add: trim_left_concat [OF white_space_free(1) assms(1)] trim_left_stop)
  moreover have "rev (s @ concat bs) = concat (rev (map rev bs)) @ rev s" by (simp add: rev_concat rev_map)
  moreover have "trim_left (map rev white_space) (concat (rev (map rev bs)) @ rev s) = rev s"
  proof -
    have ne: "[] \<notin> set white_space" using white_space_free(1) by (simp add: prefix_free_def)
    have "hd ` set (map rev white_space) = last ` set white_space"
      using ne by (force simp: image_image hd_rev)
    then have "\<not> begins (map rev white_space) (rev s @ [])"
      using assms(3,5) by (intro not_begins_hd) (simp_all add: hd_rev)
    moreover have "set (rev (map rev bs)) \<subseteq> set (map rev white_space)" using assms(2) by auto
    ultimately show ?thesis using trim_left_concat [OF white_space_free(2)] by (simp add: trim_left_stop)
  qed
  ultimately show ?thesis by (simp add: TrimSpace_def)
qed

text \<open>A newline at the end makes no difference: no other white space has that byte.\<close>

lemma newline_alone: "t \<in> set white_space \<Longrightarrow> CHR 0x0A \<in> set t \<Longrightarrow> t = [CHR 0x0A]"
proof -
  have "\<forall>t \<in> set white_space. CHR 0x0A \<in> set t \<longrightarrow> t = [CHR 0x0A]" by code_simp
  then show "t \<in> set white_space \<Longrightarrow> CHR 0x0A \<in> set t \<Longrightarrow> t = [CHR 0x0A]" by blast
qed

lemma newline_white: "[CHR 0x0A] \<in> set white_space"
  by (simp add: white_space_def)

lemma trim_left_newline:
  "trim_left white_space (s @ [CHR 0x0A]) =
     (if trim_left white_space s = [] then [] else trim_left white_space s @ [CHR 0x0A])"
proof (induction white_space s rule: trim_left.induct)
  case (1 s)
  have nil: "trim_left white_space [] = []"
    by (rule trim_left_stop) (auto simp: begins_def HasPrefix_def)
  show ?case
  proof (cases "s = []")
    case True
    have "trim_left white_space ([CHR 0x0A] @ []) = trim_left white_space []"
      by (rule trim_left_one [OF white_space_free(1) newline_white])
    with True nil show ?thesis by simp
  next
    case False
    have "HasPrefix (s @ [CHR 0x0A]) t = HasPrefix s t" if t: "t \<in> set white_space" for t
    proof
      assume "HasPrefix (s @ [CHR 0x0A]) t"
      then obtain r where r: "s @ [CHR 0x0A] = t @ r" by (auto simp: HasPrefix_iff)
      show "HasPrefix s t"
      proof (cases r rule: rev_cases)
        case Nil
        with r have "t = s @ [CHR 0x0A]" by simp
        with newline_alone [OF t] False show ?thesis by simp
      next
        case (snoc q c)
        with r show ?thesis by (auto simp: HasPrefix_iff)
      qed
    qed (auto simp: HasPrefix_iff)
    then have f: "find (\<lambda>t. t \<noteq> [] \<and> HasPrefix (s @ [CHR 0x0A]) t) white_space = find (\<lambda>t. t \<noteq> [] \<and> HasPrefix s t) white_space"
      by (intro find_cong) auto
    show ?thesis
    proof (cases "find (\<lambda>t. t \<noteq> [] \<and> HasPrefix s t) white_space")
      case None
      with f have "\<not> begins white_space (s @ [CHR 0x0A])" "\<not> begins white_space s" by (simp_all add: begins_find [symmetric])
      with False show ?thesis by (simp add: trim_left_stop)
    next
      case (Some t)
      then have "HasPrefix s t" by (auto simp: find_Some_iff)
      then have "drop (length t) (s @ [CHR 0x0A]) = drop (length t) s @ [CHR 0x0A]" by (auto simp: HasPrefix_iff)
      then have e: "trim_left white_space (s @ [CHR 0x0A]) = trim_left white_space (drop (length t) s @ [CHR 0x0A])"
        "trim_left white_space s = trim_left white_space (drop (length t) s)"
        using Some f by (subst trim_left.simps, simp)+
      from 1 [OF Some] show ?thesis unfolding e .
    qed
  qed
qed

lemma TrimSpace_newline: "TrimSpace (s @ [CHR 0x0A]) = TrimSpace s"
proof -
  have w: "[CHR 0x0A] \<in> set (map rev white_space)" using newline_white by (force simp: image_iff)
  have nil: "trim_left (map rev white_space) [] = []"
    by (rule trim_left_stop) (auto simp: begins_def HasPrefix_def)
  have "trim_left (map rev white_space) ([CHR 0x0A] @ v) = trim_left (map rev white_space) v" for v
    by (rule trim_left_one [OF white_space_free(2) w])
  then show ?thesis by (simp add: TrimSpace_def trim_left_newline nil)
qed

end
