(* ===== verification/Demo_Echo.thy ===== *)
theory Demo_Echo
  imports Peer_Glue Signal_Client Go_Text
begin

text \<open>
  The first demonstration, \<open>cmd/owner\<close> and \<open>cmd/viewer\<close>: the viewer opens a data channel and sends
  one message, the owner answers every message in upper case. Data channels and peer connections
  are the library's; what their calls return is the environment of the functions.
\<close>

text \<open>
  \<open>strings.ToUpper\<close>: ASCII text byte by byte, other text rune by rune with the tables of Unicode,
  which are the parameter.
\<close>

definition strings_ToUpper :: "(string \<Rightarrow> string) \<Rightarrow> string \<Rightarrow> string" where
  "strings_ToUpper unicodeUpper s =
     (if list_all (\<lambda>c. of_char c < (128 :: nat)) s then ToUpper s else unicodeUpper s)"

datatype demo_end = DemoExit nat | DemoPanic | DemoRuns

subsection \<open>The owner\<close>

text \<open>The callback for messages; a failed reply is only logged.\<close>

definition owner_OnMessage :: "(string \<Rightarrow> string) \<Rightarrow> error option \<Rightarrow> string \<Rightarrow> string list \<Rightarrow> string list" where
  "owner_OnMessage unicodeUpper sendErr msg out =
     (let reply = strings_ToUpper unicodeUpper msg
      in (case sendErr of Some err \<Rightarrow> out | None \<Rightarrow> out @ [reply]))"

record ('pc, 'sdp) answer_lib =
  CreateAnswer :: "'pc \<Rightarrow> (error + 'sdp) \<times> 'pc"
  SetLocalDescription :: "'sdp \<Rightarrow> 'pc \<Rightarrow> error option \<times> 'pc"
  LocalDescription :: "'pc \<Rightarrow> string"

text \<open>The answer to an offer: the descriptions sent so far grow, or the loop returns.\<close>

definition send_answer :: "('pc, 'sdp) answer_lib \<Rightarrow> (string \<Rightarrow> error option) \<Rightarrow> 'pc \<times> string list
    \<Rightarrow> bool \<times> 'pc \<times> string list" where
  "send_answer A send s =
     (let (pc, out) = s
      in (case CreateAnswer A pc of
            (Inl err, pc1) \<Rightarrow> (False, pc1, out)
          | (Inr ans, pc1) \<Rightarrow>
              (case SetLocalDescription A ans pc1 of
                 (Some err, pc2) \<Rightarrow> (False, pc2, out)
               | (None, pc2) \<Rightarrow>
                   (case send (LocalDescription A pc2) of
                      Some err \<Rightarrow> (False, pc2, out)
                    | None \<Rightarrow> (True, pc2, out @ [LocalDescription A pc2])))))"

text \<open>The loop over what \<open>Recv\<close> returns; the flag says whether it still runs at the end of the list.\<close>

fun demo_signalLoop :: "('pc, 'sdp, 'cand) pc_lib \<Rightarrow> ('pc, 'sdp) answer_lib \<Rightarrow> (string \<Rightarrow> error option) \<Rightarrow> bool
    \<Rightarrow> (error + Envelope) list \<Rightarrow> 'pc \<times> string list \<Rightarrow> bool \<times> 'pc \<times> string list" where
  "demo_signalLoop L A send answerer [] s = (True, s)"
| "demo_signalLoop L A send answerer (Inl err # rest) s = (False, s)"
| "demo_signalLoop L A send answerer (Inr env # rest) s =
     (case ApplyRemote L env (fst s) of
        ((consumed, Some err), pc) \<Rightarrow> demo_signalLoop L A send answerer rest (pc, snd s)
      | ((consumed, None), pc) \<Rightarrow>
          if consumed \<and> Kind env = ''sdp'' \<and> answerer
          then (case send_answer A send (pc, snd s) of
                  (False, t) \<Rightarrow> (False, t)
                | (True, t) \<Rightarrow> demo_signalLoop L A send answerer rest t)
          else demo_signalLoop L A send answerer rest (pc, snd s))"

text \<open>
  \<open>main\<close> up to the loop: the result of the dial, of the constructor and of \<open>Ready\<close>. The loop gets
  the peer connection.
\<close>

definition demo_owner_main :: "((error + unit) outcome \<times> ws_client) \<Rightarrow> error + 'pc \<Rightarrow> (ws_client \<Rightarrow> (error + string) outcome)
    \<Rightarrow> demo_end \<times> 'pc option" where
  "demo_owner_main dialled new_pc ready =
     (case dialled of
        (NilPanic, sig) \<Rightarrow> (DemoPanic, None)
      | (Ret (Inl err), sig) \<Rightarrow> (DemoExit 1, None)
      | (Ret (Inr u), sig) \<Rightarrow>
          (case new_pc of
             Inl err \<Rightarrow> (DemoExit 1, None)
           | Inr pc \<Rightarrow>
               (case ready sig of
                  NilPanic \<Rightarrow> (DemoPanic, None)
                | Ret (Inl err) \<Rightarrow> (DemoExit 1, None)
                | Ret (Inr key) \<Rightarrow> (DemoRuns, Some pc))))"

subsection \<open>The viewer\<close>

text \<open>\<open>replyCh\<close> has room for one reply; a later one is dropped.\<close>

definition viewer_OnMessage :: "string \<Rightarrow> string option \<Rightarrow> string option" where
  "viewer_OnMessage msg replyCh = (case replyCh of None \<Rightarrow> Some msg | Some r \<Rightarrow> Some r)"

text \<open>The final \<open>select\<close>: the reply or the end of the time; \<open>pick\<close> decides if both are there.\<close>

definition viewer_select :: "bool \<Rightarrow> bool \<Rightarrow> string option \<Rightarrow> (nat \<times> string option) option" where
  "viewer_select pick timedOut replyCh =
     (case replyCh of
        None \<Rightarrow> if timedOut then Some (2, None) else None
      | Some r \<Rightarrow> if timedOut \<and> pick then Some (2, None) else Some (0, Some r))"

record offer_env =
  oe_channel :: "error option"
  oe_offer :: "error option"
  oe_local :: "error option"
  oe_send :: "error option"

text \<open>\<open>main\<close> up to the select: it exits with 1 at the first step that fails.\<close>

definition demo_viewer_main :: "((error + unit) outcome \<times> ws_client) \<Rightarrow> (ws_client \<Rightarrow> (error + string) outcome) \<Rightarrow> error + 'pc
    \<Rightarrow> offer_env \<Rightarrow> demo_end \<times> 'pc option" where
  "demo_viewer_main dialled ready new_pc oe =
     (case dialled of
        (NilPanic, sig) \<Rightarrow> (DemoPanic, None)
      | (Ret (Inl err), sig) \<Rightarrow> (DemoExit 1, None)
      | (Ret (Inr u), sig) \<Rightarrow>
          (case ready sig of
             NilPanic \<Rightarrow> (DemoPanic, None)
           | Ret (Inl err) \<Rightarrow> (DemoExit 1, None)
           | Ret (Inr key) \<Rightarrow>
               (case new_pc of
                  Inl err \<Rightarrow> (DemoExit 1, None)
                | Inr pc \<Rightarrow>
                    if oe_channel oe \<noteq> None then (DemoExit 1, None)
                    else if oe_offer oe \<noteq> None then (DemoExit 1, None)
                    else if oe_local oe \<noteq> None then (DemoExit 1, None)
                    else if oe_send oe \<noteq> None then (DemoExit 1, None)
                    else (DemoRuns, Some pc))))"

text \<open>The loop of the viewer applies what comes and ignores errors.\<close>

fun viewer_signalLoop :: "('pc, 'sdp, 'cand) pc_lib \<Rightarrow> (error + Envelope) list \<Rightarrow> 'pc \<Rightarrow> bool \<times> 'pc" where
  "viewer_signalLoop L [] pc = (True, pc)"
| "viewer_signalLoop L (Inl err # rest) pc = (False, pc)"
| "viewer_signalLoop L (Inr env # rest) pc = viewer_signalLoop L rest (snd (ApplyRemote L env pc))"

subsection \<open>What the demonstration shows\<close>

text \<open>The messages that arrive at the viewer, in order.\<close>

definition viewer_replies :: "string list \<Rightarrow> string option" where
  "viewer_replies msgs = fold viewer_OnMessage msgs None"

lemma first_reply_wins: "viewer_replies msgs = (case msgs of [] \<Rightarrow> None | m # rest \<Rightarrow> Some m)"
proof -
  have "fold viewer_OnMessage rest (Some m) = Some m" for rest m
    by (induction rest) (simp_all add: viewer_OnMessage_def)
  then show ?thesis by (cases msgs) (simp_all add: viewer_replies_def viewer_OnMessage_def)
qed

text \<open>
  The echo: if the owner's reply can be sent, the viewer exits with the message in upper case,
  whatever arrives after it; without a reply it exits with 2 when its time is up.
\<close>

lemma demo_echo:
  "viewer_select pick False (viewer_replies (owner_OnMessage upper None msg [] @ later)) = Some (0, Some (strings_ToUpper upper msg))"
  "viewer_select pick True (viewer_replies []) = Some (2, None)"
  by (simp_all add: first_reply_wins owner_OnMessage_def viewer_select_def Let_def)

text \<open>
  The owner's loop for good: after one answer that cannot be created, set or sent it has returned,
  so no later offer of a viewer that joins again is answered; a message that cannot be applied is skipped.
\<close>

lemma signalLoop_append:
  "demo_signalLoop L A send answerer (es @ fs) s =
     (case demo_signalLoop L A send answerer es s of
        (True, t) \<Rightarrow> demo_signalLoop L A send answerer fs t
      | (False, t) \<Rightarrow> (False, t))"
  by (induction L A send answerer es s rule: demo_signalLoop.induct) (auto split: prod.splits option.splits bool.splits)

lemma signalLoop_dead:
  assumes "ApplyRemote L env (fst s) = ((True, None), pc)" and "Kind env = ''sdp''"
    and "send_answer A send (pc, snd s) = (False, t)"
  shows "demo_signalLoop L A send True (Inr env # rest) s = (False, t)"
  using assms by simp

end
