(* ===== verification/Webdav_FS.thy ===== *)
theory Webdav_FS
  imports Go_Path Go_Error "HOL-Library.Word"
begin

unbundle bit_operations_syntax

text \<open>
  The interface \<open>webdav.FileSystem\<close> of \<open>golang.org/x/net/webdav\<close> with its \<open>File\<close>, as a record of
  operations over a world: the disk, the clock, the positions of the open files. A value of
  type \<open>'f\<close> is an open file. A layer of \<open>internal/ownerfs\<close> is a function from such records to such
  records, composed as in the code. The context argument is not used by any layer and is
  left out.
\<close>

type_synonym flags = "64 word"

text \<open>The flags of \<open>os.OpenFile\<close> as Linux and Windows have them.\<close>

definition O_WRONLY :: flags where "O_WRONLY = 0x1"
definition O_RDWR :: flags where "O_RDWR = 0x2"
definition O_CREATE :: flags where "O_CREATE = 0x40"
definition O_EXCL :: flags where "O_EXCL = 0x80"
definition O_TRUNC :: flags where "O_TRUNC = 0x200"
definition O_APPEND :: flags where "O_APPEND = 0x400"

lemmas flag_defs = O_WRONLY_def O_RDWR_def O_CREATE_def O_EXCL_def O_TRUNC_def O_APPEND_def

record FileInfo =
  Name :: string
  Size :: int
  IsDir :: bool
  ModTime :: int

type_synonym 'w call = "'w \<Rightarrow> error option \<times> 'w"

record ('w, 'f) FileSystem =
  Mkdir :: "string \<Rightarrow> nat \<Rightarrow> 'w call"
  OpenFile :: "string \<Rightarrow> flags \<Rightarrow> nat \<Rightarrow> 'w \<Rightarrow> (error + 'f) \<times> 'w"
  RemoveAll :: "string \<Rightarrow> 'w call"
  Rename :: "string \<Rightarrow> string \<Rightarrow> 'w call"
  Stat :: "string \<Rightarrow> 'w \<Rightarrow> (error + FileInfo) \<times> 'w"
  file_Read :: "'f \<Rightarrow> nat \<Rightarrow> 'w \<Rightarrow> (string \<times> error option) \<times> 'w"
  file_Seek :: "'f \<Rightarrow> int \<Rightarrow> nat \<Rightarrow> 'w \<Rightarrow> (int \<times> error option) \<times> 'w"
  file_Readdir :: "'f \<Rightarrow> int \<Rightarrow> 'w \<Rightarrow> (FileInfo list \<times> error option) \<times> 'w"
  file_Stat :: "'f \<Rightarrow> 'w \<Rightarrow> (error + FileInfo) \<times> 'w"
  file_Write :: "'f \<Rightarrow> string \<Rightarrow> 'w \<Rightarrow> (nat \<times> error option) \<times> 'w"
  file_Close :: "'f \<Rightarrow> 'w call"

subsection \<open>Scripts of calls\<close>

text \<open>
  What a client does with a file system: calls by name, calls on a numbered open file, and
  \<open>Forget\<close>, which drops a file without a call, as \<open>Skip\<close> does nothing. A local change of the disk between two calls
  is \<open>Local\<close>, given as a function on the world.
\<close>

datatype 'u op =
    OMkdir string nat
  | OOpen nat string flags nat
  | ORemoveAll string
  | ORename string string
  | OStat string
  | ORead nat nat
  | OSeek nat int nat
  | OReaddir nat int
  | OFStat nat
  | OWrite nat string
  | OClose nat
  | Forget nat
  | Skip
  | Local "'u \<Rightarrow> 'u"

text \<open>A call on an open file, if there is one.\<close>

definition on_file :: "(nat \<Rightarrow> 'f option) \<Rightarrow> nat \<Rightarrow> ('f \<Rightarrow> 'w \<Rightarrow> 'a \<times> 'w) \<Rightarrow> 'w \<Rightarrow> 'w" where
  "on_file tab h f w = (case tab h of None \<Rightarrow> w | Some x \<Rightarrow> snd (f x w))"

text \<open>\<open>lift\<close> says how a local change acts on a world that holds more than the disk.\<close>

definition do_op :: "(('u \<Rightarrow> 'u) \<Rightarrow> 'w \<Rightarrow> 'w) \<Rightarrow> ('w, 'f) FileSystem \<Rightarrow> 'u op
    \<Rightarrow> (nat \<Rightarrow> 'f option) \<times> 'w \<Rightarrow> (nat \<Rightarrow> 'f option) \<times> 'w" where
  "do_op lift fs a s =
     (let (tab, w) = s in
      case a of
        OMkdir n p \<Rightarrow> (tab, snd (Mkdir fs n p w))
      | OOpen h n fl p \<Rightarrow>
          (case OpenFile fs n fl p w of
             (Inl e, w1) \<Rightarrow> (tab(h := None), w1) | (Inr x, w1) \<Rightarrow> (tab(h \<mapsto> x), w1))
      | ORemoveAll n \<Rightarrow> (tab, snd (RemoveAll fs n w))
      | ORename n m \<Rightarrow> (tab, snd (Rename fs n m w))
      | OStat n \<Rightarrow> (tab, snd (Stat fs n w))
      | ORead h k \<Rightarrow> (tab, on_file tab h (\<lambda>x. file_Read fs x k) w)
      | OSeek h k wh \<Rightarrow> (tab, on_file tab h (\<lambda>x. file_Seek fs x k wh) w)
      | OReaddir h k \<Rightarrow> (tab, on_file tab h (\<lambda>x. file_Readdir fs x k) w)
      | OFStat h \<Rightarrow> (tab, on_file tab h (file_Stat fs) w)
      | OWrite h d \<Rightarrow> (tab, on_file tab h (\<lambda>x. file_Write fs x d) w)
      | OClose h \<Rightarrow> (tab(h := None), on_file tab h (file_Close fs) w)
      | Forget h \<Rightarrow> (tab(h := None), w)
      | Skip \<Rightarrow> (tab, w)
      | Local f \<Rightarrow> (tab, lift f w))"

definition run_ops :: "(('u \<Rightarrow> 'u) \<Rightarrow> 'w \<Rightarrow> 'w) \<Rightarrow> ('w, 'f) FileSystem \<Rightarrow> 'u op list
    \<Rightarrow> (nat \<Rightarrow> 'f option) \<times> 'w \<Rightarrow> (nat \<Rightarrow> 'f option) \<times> 'w" where
  "run_ops lift fs ops s = fold (do_op lift fs) ops s"

lemma run_ops_Nil [simp]: "run_ops lift fs [] s = s"
  by (simp add: run_ops_def)

lemma run_ops_Cons [simp]: "run_ops lift fs (a # ops) s = run_ops lift fs ops (do_op lift fs a s)"
  by (simp add: run_ops_def)

text \<open>
  The contract of a layer over another file system, for a client that only sees the layer:
  every call on the layer acts on the world below as the translated call on the file system
  below does, and open files correspond.
\<close>

locale fs_layer =
  fixes lift1 :: "('u \<Rightarrow> 'u) \<Rightarrow> 'w \<Rightarrow> 'w" and upper :: "('w, 'f) FileSystem"
    and lift2 :: "('u \<Rightarrow> 'u) \<Rightarrow> 'v \<Rightarrow> 'v" and lower :: "('v, 'g) FileSystem"
    and translate :: "'u op \<Rightarrow> 'u op"
    and below :: "'w \<Rightarrow> 'v"
    and under :: "'f \<Rightarrow> 'g option"
  assumes step: "do_op lift2 lower (translate a) (\<lambda>h. Option.bind (tab h) under, below w)
      = (\<lambda>h. Option.bind (fst (do_op lift1 upper a (tab, w)) h) under, below (snd (do_op lift1 upper a (tab, w))))"
begin

lemma run_translate:
  "run_ops lift2 lower (map translate ops) (\<lambda>h. Option.bind (tab h) under, below w)
     = (\<lambda>h. Option.bind (fst (run_ops lift1 upper ops (tab, w)) h) under,
        below (snd (run_ops lift1 upper ops (tab, w))))"
proof (induction ops arbitrary: tab w)
  case Nil
  then show ?case by simp
next
  case (Cons a ops)
  obtain tab1 w1 where s: "do_op lift1 upper a (tab, w) = (tab1, w1)" by (metis prod.exhaust)
  from step [of a tab w] Cons.IH [of tab1 w1] s show ?case by simp
qed

lemma run_below:
  "below (snd (run_ops lift1 upper ops (Map.empty, w)))
     = snd (run_ops lift2 lower (map translate ops) (Map.empty, below w))"
  using run_translate [of ops Map.empty w] by simp

end

end
