(* ===== verification/Owner_Filter.thy ===== *)
theory Owner_Filter
  imports Webdav_FS
begin

text \<open>
  The junk filter of \<open>internal/ownerfs/filter.go\<close> and the NFC layer of
  \<open>internal/ownerfs/normalize.go\<close>, as functions on file systems. The normal form itself is
  the library's function \<open>nfc\<close>.
\<close>

definition JunkPrefixes :: "string list" where
  "JunkPrefixes = [''._'']"

definition JunkExact :: "string list" where
  "JunkExact = [''.DS_Store'', ''.Spotlight-V100'', ''.Trashes'', ''.TemporaryItems'', ''.fseventsd'',
     ''.apdisk'', ''.localized'', ''$RECYCLE.BIN'', ''desktop.ini'', ''Thumbs.db'']"

definition IsJunk :: "string \<Rightarrow> bool" where
  "IsJunk name =
     (let base = path_Base (path_Clean name)
      in base \<in> set JunkExact \<or> list_ex (HasPrefix base) JunkPrefixes)"

text \<open>An open file of the filtered file system.\<close>

datatype 'f filtered = discardFile | filterDirReads 'f

definition junkStat :: FileInfo where
  "junkStat = \<lparr>Name = ''discarded'', Size = 0, IsDir = False, ModTime = 0\<rparr>"

definition discard_Read :: "nat \<Rightarrow> string \<times> error option" where "discard_Read k = ([], Some io_EOF)"
definition discard_Seek :: "int \<Rightarrow> nat \<Rightarrow> int \<times> error option" where "discard_Seek k wh = (0, None)"
definition discard_Readdir :: "int \<Rightarrow> FileInfo list \<times> error option" where "discard_Readdir k = ([], None)"
definition discard_Stat :: "error + FileInfo" where "discard_Stat = Inr junkStat"
definition discard_Write :: "string \<Rightarrow> nat \<times> error option" where "discard_Write p = (length p, None)"
definition discard_Close :: "error option" where "discard_Close = None"

definition filterDirReads_Readdir :: "('w, 'f) FileSystem \<Rightarrow> 'f \<Rightarrow> int \<Rightarrow> 'w
    \<Rightarrow> (FileInfo list \<times> error option) \<times> 'w" where
  "filterDirReads_Readdir inner f k w =
     (case file_Readdir inner f k w of
        ((entries, Some err), w1) \<Rightarrow> ((entries, Some err), w1)
      | ((entries, None), w1) \<Rightarrow> (([e \<leftarrow> entries. \<not> IsJunk (Name e)], None), w1))"

definition filteredFS_OpenFile :: "('w, 'f) FileSystem \<Rightarrow> string \<Rightarrow> flags \<Rightarrow> nat \<Rightarrow> 'w
    \<Rightarrow> (error + 'f filtered) \<times> 'w" where
  "filteredFS_OpenFile inner name flag perm w =
     (if IsJunk name
      then if flag AND (O_WRONLY OR O_RDWR) \<noteq> 0 then (Inr discardFile, w) else (Inl fs_ErrNotExist, w)
      else
        (case OpenFile inner name flag perm w of
           (Inl e, w1) \<Rightarrow> (Inl e, w1)
         | (Inr file, w1) \<Rightarrow> (Inr (filterDirReads file), w1)))"

definition FilterJunk :: "('w, 'f) FileSystem \<Rightarrow> ('w, 'f filtered) FileSystem" where
  "FilterJunk inner =
     \<lparr>Mkdir = (\<lambda>name perm w. if IsJunk name then (None, w) else Mkdir inner name perm w),
      OpenFile = filteredFS_OpenFile inner,
      RemoveAll = (\<lambda>name w. if IsJunk name then (None, w) else RemoveAll inner name w),
      Rename = (\<lambda>oldName newName w.
        if IsJunk oldName \<or> IsJunk newName then (None, w) else Rename inner oldName newName w),
      Stat = (\<lambda>name w. if IsJunk name then (Inl fs_ErrNotExist, w) else Stat inner name w),
      file_Read = (\<lambda>f k w. case f of discardFile \<Rightarrow> (discard_Read k, w) | filterDirReads g \<Rightarrow> file_Read inner g k w),
      file_Seek = (\<lambda>f k wh w. case f of discardFile \<Rightarrow> (discard_Seek k wh, w) | filterDirReads g \<Rightarrow> file_Seek inner g k wh w),
      file_Readdir = (\<lambda>f k w. case f of discardFile \<Rightarrow> (discard_Readdir k, w)
        | filterDirReads g \<Rightarrow> filterDirReads_Readdir inner g k w),
      file_Stat = (\<lambda>f w. case f of discardFile \<Rightarrow> (discard_Stat, w) | filterDirReads g \<Rightarrow> file_Stat inner g w),
      file_Write = (\<lambda>f p w. case f of discardFile \<Rightarrow> (discard_Write p, w) | filterDirReads g \<Rightarrow> file_Write inner g p w),
      file_Close = (\<lambda>f w. case f of discardFile \<Rightarrow> (discard_Close, w) | filterDirReads g \<Rightarrow> file_Close inner g w)\<rparr>"

subsection \<open>The NFC layer\<close>

definition NormalizeNFC :: "(string \<Rightarrow> string) \<Rightarrow> ('w, 'f) FileSystem \<Rightarrow> ('w, 'f) FileSystem" where
  "NormalizeNFC nfc inner =
     inner\<lparr>Mkdir := (\<lambda>name. Mkdir inner (nfc name)),
       OpenFile := (\<lambda>name. OpenFile inner (nfc name)),
       RemoveAll := (\<lambda>name. RemoveAll inner (nfc name)),
       Rename := (\<lambda>oldName newName. Rename inner (nfc oldName) (nfc newName)),
       Stat := (\<lambda>name. Stat inner (nfc name))\<rparr>"

subsection \<open>What the layers do to a script\<close>

text \<open>The names of a call, and a call with its names changed.\<close>

fun op_names :: "'u op \<Rightarrow> string list" where
  "op_names (OMkdir n p) = [n]"
| "op_names (OOpen h n fl p) = [n]"
| "op_names (ORemoveAll n) = [n]"
| "op_names (ORename n m) = [n, m]"
| "op_names (OStat n) = [n]"
| "op_names _ = []"

fun map_names :: "(string \<Rightarrow> string) \<Rightarrow> 'u op \<Rightarrow> 'u op" where
  "map_names f (OMkdir n p) = OMkdir (f n) p"
| "map_names f (OOpen h n fl p) = OOpen h (f n) fl p"
| "map_names f (ORemoveAll n) = ORemoveAll (f n)"
| "map_names f (ORename n m) = ORename (f n) (f m)"
| "map_names f (OStat n) = OStat (f n)"
| "map_names f a = a"

text \<open>A call on a junk name is erased; an open of one only drops the number.\<close>

definition erase :: "'u op \<Rightarrow> 'u op" where
  "erase a =
     (if list_ex IsJunk (op_names a) then (case a of OOpen h n fl p \<Rightarrow> Forget h | _ \<Rightarrow> Skip) else a)"

fun unfilter :: "'f filtered \<Rightarrow> 'f option" where
  "unfilter discardFile = None"
| "unfilter (filterDirReads f) = Some f"

lemma snd_filterDir [simp]: "snd (filterDirReads_Readdir inner f k w) = snd (file_Readdir inner f k w)"
  by (simp add: filterDirReads_Readdir_def split: prod.splits option.splits)

interpretation junk_layer: fs_layer lift "FilterJunk fs" lift fs erase id unfilter
  for lift :: "('u \<Rightarrow> 'u) \<Rightarrow> 'w \<Rightarrow> 'w" and fs :: "('w, 'f) FileSystem"
proof (unfold_locales, goal_cases)
  case (1 a tab w)
  show ?case
    by (cases a)
      (auto simp: erase_def do_op_def FilterJunk_def on_file_def filteredFS_OpenFile_def fun_eq_iff
        split: option.splits sum.splits prod.splits filtered.splits)
qed

interpretation nfc_layer: fs_layer lift "NormalizeNFC nfc fs" lift fs "map_names nfc" id Some
  for lift :: "('u \<Rightarrow> 'u) \<Rightarrow> 'w \<Rightarrow> 'w" and fs :: "('w, 'f) FileSystem" and nfc :: "string \<Rightarrow> string"
proof (unfold_locales, goal_cases)
  case (1 a tab w)
  show ?case
    by (cases a) (auto simp: do_op_def NormalizeNFC_def on_file_def fun_eq_iff split: option.splits sum.splits prod.splits)
qed

subsection \<open>Properties\<close>

text \<open>
  Property C14: junk never reaches the disk. Whatever a viewer does, with local changes of the
  shared folder between its calls, the disk behind the filter and the NFC layer goes exactly
  through the states it would go through if every call that names a junk file had not been
  made and every other name were in normal form.
\<close>
theorem junk_never_reaches_disk:
  "snd (run_ops lift (FilterJunk (NormalizeNFC nfc fs)) ops (Map.empty, w))
     = snd (run_ops lift fs (map (\<lambda>a. map_names nfc (erase a)) ops) (Map.empty, w))"
  using junk_layer.run_below [of lift "NormalizeNFC nfc fs" ops w]
    nfc_layer.run_below [of lift nfc fs "map erase ops" w]
  by (simp add: comp_def)

text \<open>A viewer that names nothing but junk leaves the disk as it is.\<close>

lemma only_junk_no_effect:
  assumes "\<forall>a \<in> set ops. list_ex IsJunk (op_names a)"
  shows "snd (run_ops lift (FilterJunk fs) ops (Map.empty, w)) = w"
proof -
  have skip: "snd (run_ops lift fs ops' s) = snd s" if "\<forall>a \<in> set ops'. a = Skip \<or> (\<exists>h. a = Forget h)"
    for ops' :: "'a op list" and fs :: "('b, 'c) FileSystem" and s
    using that by (induction ops' arbitrary: s) (auto simp: do_op_def split_beta)
  have "\<forall>a \<in> set (map erase ops). a = Skip \<or> (\<exists>h. a = Forget h)"
    using assms by (auto simp: erase_def split: op.splits)
  with skip show ?thesis using junk_layer.run_below [of lift fs ops w] by simp
qed

text \<open>
  Only the last component of a path decides. For every path of proper names, with
  or without a slash behind it, \<open>IsJunk\<close> is the test of its last name against the two lists;
  a directory of junk above it does not matter.
\<close>
theorem IsJunk_last_component:
  assumes "list_all proper (dirs @ [name])" and "\<forall>w \<in> set (dirs @ [name]). CHR ''/'' \<notin> set w"
    and "trail \<in> {[], ''/''}"
  shows "IsJunk (CHR ''/'' # join_with (CHR ''/'') (dirs @ [name]) @ trail)
    \<longleftrightarrow> name \<in> set JunkExact \<or> HasPrefix name ''._''"
proof -
  have "name \<noteq> []" using assms(1) by (auto simp: proper_def)
  then have "path_Base (CHR ''/'' # join_with (CHR ''/'') (dirs @ [name])) = name"
    using Base_proper [of "dirs @ [name]"] assms(2) by simp
  with Clean_proper [OF assms(1,2) _ assms(3)] show ?thesis
    by (simp add: IsJunk_def Let_def JunkPrefixes_def)
qed

theorem IsJunk_last_component_witness:
  "IsJunk ''/a/.DS_Store/._b/'' \<and> \<not> IsJunk ''/._a/b''"
  using IsJunk_last_component [of "[''a'', ''.DS_Store'']" "''._b''" "''/''"]
    IsJunk_last_component [of "[''._a'']" "''b''" "[]"]
  by (simp add: proper_def HasPrefix_def JunkExact_def)

text \<open>
  A listing that ends with an error is passed on as it is, junk included, and a bounded read
  of a directory whose next entries are all junk returns no entry and no error, which the
  contract of \<open>Readdir\<close> reserves for unbounded reads.
\<close>

lemma partial_listing_not_filtered:
  "file_Readdir inner f k w = ((entries, Some err), w1) \<Longrightarrow>
     file_Readdir (FilterJunk inner) (filterDirReads f) k w = ((entries, Some err), w1)"
  by (simp add: FilterJunk_def filterDirReads_Readdir_def)

lemma bounded_listing_may_be_empty:
  "0 < k \<Longrightarrow> file_Readdir inner f k w = ((entries, None), w1) \<Longrightarrow> \<forall>e \<in> set entries. IsJunk (Name e) \<Longrightarrow>
     file_Readdir (FilterJunk inner) (filterDirReads f) k w = (([], None), w1)"
  by (simp add: FilterJunk_def filterDirReads_Readdir_def filter_empty_conv)

text \<open>Names that are equal in normal form are one file for the disk.\<close>

lemma nfc_identifies: "nfc a = nfc b \<Longrightarrow> Stat (NormalizeNFC nfc fs) a = Stat (NormalizeNFC nfc fs) b"
  by (simp add: NormalizeNFC_def)

end
