(* ===== verification/Owner_Cache.thy ===== *)
theory Owner_Cache
  imports Webdav_FS
begin

text \<open>
  The stat and readdir cache of \<open>internal/ownerfs/statcache.go\<close>, a layer whose world is the one
  below together with the two maps. \<open>clock\<close> is \<open>time.Now\<close>, in nanoseconds. A pair of an info and an error
  is a sum; the defensive copies of slices are values here. The mutex is held for a lookup
  and for a store but not across the call between them, so \<open>stat_lookup\<close> and \<open>stat_store\<close>
  are definitions of their own.
\<close>

definition statCacheTTL :: int where "statCacheTTL = 250 * 1000000"

record statEntry =
  se_result :: "error + FileInfo"
  se_expires :: int

record readdirEntry =
  rd_infos :: "FileInfo list"
  rd_err :: "error option"
  rd_expires :: int

record CachedFS =
  stats :: "string \<Rightarrow> statEntry option"
  readdir :: "string \<Rightarrow> readdirEntry option"

definition empty_cache :: CachedFS where
  "empty_cache = \<lparr>stats = Map.empty, readdir = Map.empty\<rparr>"

definition normalize_path :: "string \<Rightarrow> string" where
  "normalize_path p =
     (if p = [] then ''/''
      else let q = path_Clean (CHR ''/'' # TrimSuffix p ''/'') in if q = [] then ''/'' else q)"

definition invalidate :: "string \<Rightarrow> CachedFS \<Rightarrow> CachedFS" where
  "invalidate p c =
     (let n = normalize_path p; parent = path_Dir n
      in c\<lparr>stats := (stats c)(n := None, parent := None), readdir := (readdir c)(parent := None)\<rparr>)"

record 'f cachedFile =
  cf_File :: 'f
  cf_name :: string
  cf_writable :: bool

definition stat_lookup :: "int \<Rightarrow> string \<Rightarrow> CachedFS \<Rightarrow> (error + FileInfo) option" where
  "stat_lookup now n c =
     (case stats c n of
        Some e \<Rightarrow> if now < se_expires e then Some (se_result e) else None
      | None \<Rightarrow> None)"

definition stat_store :: "int \<Rightarrow> string \<Rightarrow> error + FileInfo \<Rightarrow> CachedFS \<Rightarrow> CachedFS" where
  "stat_store now n r c = c\<lparr>stats := (stats c)(n \<mapsto> \<lparr>se_result = r, se_expires = now + statCacheTTL\<rparr>)\<rparr>"

definition Cached_Stat :: "('w \<Rightarrow> int) \<Rightarrow> ('w, 'f) FileSystem \<Rightarrow> string \<Rightarrow> 'w \<times> CachedFS
    \<Rightarrow> (error + FileInfo) \<times> 'w \<times> CachedFS" where
  "Cached_Stat clock inner name s =
     (let (w, c) = s; n = normalize_path name; now = clock w in
      case stat_lookup now n c of
        Some r \<Rightarrow> (r, w, c)
      | None \<Rightarrow> (case Stat inner name w of (r, w1) \<Rightarrow> (r, w1, stat_store now n r c)))"

definition Cached_OpenFile :: "('w, 'f) FileSystem \<Rightarrow> string \<Rightarrow> flags \<Rightarrow> nat \<Rightarrow> 'w \<times> CachedFS
    \<Rightarrow> (error + 'f cachedFile) \<times> 'w \<times> CachedFS" where
  "Cached_OpenFile inner name flag perm s =
     (let (w, c) = s;
          c1 = (if flag AND (O_WRONLY OR O_RDWR OR O_CREATE OR O_TRUNC OR O_APPEND) \<noteq> 0
                then invalidate name c else c)
      in case OpenFile inner name flag perm w of
           (Inl e, w1) \<Rightarrow> (Inl e, w1, c1)
         | (Inr f, w1) \<Rightarrow>
             (Inr \<lparr>cf_File = f, cf_name = name, cf_writable = (flag AND (O_WRONLY OR O_RDWR) \<noteq> 0)\<rparr>, w1, c1))"

definition cachedFile_Close :: "('w, 'f) FileSystem \<Rightarrow> 'f cachedFile \<Rightarrow> ('w \<times> CachedFS) call" where
  "cachedFile_Close inner cf s =
     (let (w, c) = s in
      case file_Close inner (cf_File cf) w of
        (err, w1) \<Rightarrow> (err, w1, if cf_writable cf then invalidate (cf_name cf) c else c))"

text \<open>The snapshot and the seeds that a full listing leaves in the cache.\<close>

definition readdir_store :: "int \<Rightarrow> string \<Rightarrow> FileInfo list \<Rightarrow> error option \<Rightarrow> CachedFS \<Rightarrow> CachedFS" where
  "readdir_store now n infos err c =
     (if err = None \<or> err = Some io_EOF
      then fold (\<lambda>child. stat_store now (path_Join n (Name child)) (Inr child)) infos
             (c\<lparr>readdir := (readdir c)(n \<mapsto> \<lparr>rd_infos = infos, rd_err = err, rd_expires = now + statCacheTTL\<rparr>)\<rparr>)
      else c)"

definition readdir_lookup :: "int \<Rightarrow> string \<Rightarrow> CachedFS \<Rightarrow> (FileInfo list \<times> error option) option" where
  "readdir_lookup now n c =
     (case readdir c n of
        Some e \<Rightarrow> if now < rd_expires e then Some (rd_infos e, rd_err e) else None
      | None \<Rightarrow> None)"

definition cachedFile_Readdir :: "('w \<Rightarrow> int) \<Rightarrow> ('w, 'f) FileSystem \<Rightarrow> 'f cachedFile \<Rightarrow> int
    \<Rightarrow> 'w \<times> CachedFS \<Rightarrow> (FileInfo list \<times> error option) \<times> 'w \<times> CachedFS" where
  "cachedFile_Readdir clock inner cf k s =
     (let (w, c) = s in
      if k > 0 then (case file_Readdir inner (cf_File cf) k w of (r, w1) \<Rightarrow> (r, w1, c))
      else
        let n = normalize_path (cf_name cf); now = clock w in
        case readdir_lookup now n c of
          Some r \<Rightarrow> (r, w, c)
        | None \<Rightarrow>
            (case file_Readdir inner (cf_File cf) (-1) w of
               ((infos, err), w1) \<Rightarrow> ((infos, err), w1, readdir_store now n infos err c)))"

text \<open>A call that goes through to the file system below, and what it does to the cache.\<close>

definition through :: "('w \<Rightarrow> 'a \<times> 'w) \<Rightarrow> (CachedFS \<Rightarrow> CachedFS) \<Rightarrow> 'w \<times> CachedFS \<Rightarrow> 'a \<times> 'w \<times> CachedFS" where
  "through f g s = (let (w, c) = s in case f w of (r, w1) \<Rightarrow> (r, w1, g c))"

definition Cached :: "('w \<Rightarrow> int) \<Rightarrow> ('w, 'f) FileSystem \<Rightarrow> ('w \<times> CachedFS, 'f cachedFile) FileSystem" where
  "Cached clock inner =
     \<lparr>Mkdir = (\<lambda>name perm. through (Mkdir inner name perm) (invalidate name)),
      OpenFile = Cached_OpenFile inner,
      RemoveAll = (\<lambda>name. through (RemoveAll inner name) (invalidate name)),
      Rename = (\<lambda>oldName newName.
        through (Rename inner oldName newName) (\<lambda>c. invalidate newName (invalidate oldName c))),
      Stat = Cached_Stat clock inner,
      file_Read = (\<lambda>cf k. through (file_Read inner (cf_File cf) k) (\<lambda>c. c)),
      file_Seek = (\<lambda>cf k wh. through (file_Seek inner (cf_File cf) k wh) (\<lambda>c. c)),
      file_Readdir = cachedFile_Readdir clock inner,
      file_Stat = (\<lambda>cf. through (file_Stat inner (cf_File cf)) (\<lambda>c. c)),
      file_Write = (\<lambda>cf d. through (file_Write inner (cf_File cf) d) (\<lambda>c. c)),
      file_Close = cachedFile_Close inner\<rparr>"

subsection \<open>Where the entries come from\<close>

text \<open>A local change of the disk leaves the cache as it is.\<close>

definition locally :: "('w \<Rightarrow> 'w) \<Rightarrow> 'w \<times> CachedFS \<Rightarrow> 'w \<times> CachedFS" where
  "locally f s = (f (fst s), snd s)"

text \<open>
  What the file system below says about the clean path \<open>n\<close> in a world: the answer of \<open>Stat\<close> to a
  spelling of it, or the entry of that name in the full listing of an open file that was opened under
  a spelling of its directory. \<open>K\<close> relates open files and the names under which they were opened.
\<close>

definition answered :: "('w, 'f) FileSystem \<Rightarrow> string \<Rightarrow> error + FileInfo \<Rightarrow> 'w \<Rightarrow> bool" where
  "answered fs n r w \<longleftrightarrow> (\<exists>name. normalize_path name = n \<and> fst (Stat fs name w) = r)"

definition opened :: "('w, 'f) FileSystem \<Rightarrow> 'f \<Rightarrow> string \<Rightarrow> 'w \<Rightarrow> bool" where
  "opened fs f dir w \<longleftrightarrow> (\<exists>flag perm. fst (OpenFile fs dir flag perm w) = Inr f)"

definition listed :: "('w, 'f) FileSystem \<Rightarrow> 'f \<Rightarrow> string \<Rightarrow> string \<Rightarrow> error + FileInfo \<Rightarrow> 'w \<Rightarrow> bool" where
  "listed fs f dir n r w \<longleftrightarrow>
     (\<exists>child \<in> set (fst (fst (file_Readdir fs f (-1) w))). n = path_Join (normalize_path dir) (Name child) \<and> r = Inr child)"

definition observed :: "('w, 'f) FileSystem \<Rightarrow> ('f \<Rightarrow> string \<Rightarrow> bool) \<Rightarrow> string \<Rightarrow> error + FileInfo \<Rightarrow> 'w \<Rightarrow> bool" where
  "observed fs K n r w \<longleftrightarrow> answered fs n r w \<or> (\<exists>f dir. K f dir \<and> listed fs f dir n r w)"

lemmas observed_defs = observed_def answered_def listed_def

lemma stats_invalidate: "stats (invalidate p c) n = Some e \<Longrightarrow> stats c n = Some e"
  by (auto simp: invalidate_def Let_def split: if_splits)

lemma stats_seed:
  "stats (fold (\<lambda>child. stat_store now (f child) (Inr child)) infos c) n = Some e \<Longrightarrow>
     stats c n = Some e
     \<or> (\<exists>child \<in> set infos. n = f child \<and> e = \<lparr>se_result = Inr child, se_expires = now + statCacheTTL\<rparr>)"
proof (induction infos arbitrary: c)
  case Nil
  then show ?case by simp
next
  case (Cons i infos)
  then have "stats (stat_store now (f i) (Inr i) c) n = Some e
      \<or> (\<exists>child \<in> set infos. n = f child \<and> e = \<lparr>se_result = Inr child, se_expires = now + statCacheTTL\<rparr>)"
    by simp
  then show ?case by (auto simp: stat_store_def split: if_splits)
qed

text \<open>An entry is old, or of the present moment and what the file system below says now.\<close>

definition explained :: "('w \<Rightarrow> int) \<Rightarrow> ('w, 'f) FileSystem \<Rightarrow> ('f \<Rightarrow> string \<Rightarrow> bool) \<Rightarrow> string \<Rightarrow> statEntry \<Rightarrow> 'w \<Rightarrow> bool" where
  "explained clock fs K n e w \<longleftrightarrow> se_expires e = clock w + statCacheTTL \<and> observed fs K n (se_result e) w"

lemma Stat_entries:
  assumes "Cached_Stat clock fs name (w, c) = (r, w1, c1)" and "stats c1 n = Some e"
  shows "stats c n = Some e \<or> explained clock fs K n e w"
  using assms
  by (auto simp: Cached_Stat_def Let_def stat_store_def explained_def observed_defs
      split: option.splits prod.splits if_splits)
    (metis fst_conv)+

lemma Readdir_entries:
  assumes "K (cf_File cf) (cf_name cf)"
    and "cachedFile_Readdir clock fs cf k (w, c) = (r, w1, c1)" and "stats c1 n = Some e"
  shows "stats c n = Some e \<or> explained clock fs K n e w"
proof (cases "stats c1 = stats c")
  case True
  with assms show ?thesis by simp
next
  case False
  then obtain infos err where l: "file_Readdir fs (cf_File cf) (-1) w = ((infos, err), w1)"
      "c1 = readdir_store (clock w) (normalize_path (cf_name cf)) infos err c"
    using assms(2) by (auto simp: cachedFile_Readdir_def Let_def split: if_splits option.splits prod.splits)
  with False assms(3) stats_seed
  have "stats c n = Some e \<or> (\<exists>child \<in> set infos. n = path_Join (normalize_path (cf_name cf)) (Name child)
      \<and> e = \<lparr>se_result = Inr child, se_expires = clock w + statCacheTTL\<rparr>)"
    by (fastforce simp: readdir_store_def split: if_splits)
  moreover have "observed fs K (path_Join (normalize_path (cf_name cf)) (Name child)) (Inr child) w"
    if "child \<in> set infos" for child
    using l(1) that assms(1) unfolding observed_defs by (metis fst_conv)
  ultimately show ?thesis by (auto simp: explained_def)
qed

lemma through_entries: "through f g (w, c) = (r, w1, c1) \<Longrightarrow> c1 = g c"
  by (auto simp: through_def split: prod.splits)

text \<open>Every call leaves old entries or such that the present explains.\<close>

lemma do_op_entries:
  assumes "do_op locally (Cached clock fs) a (tab, w, c) = (tab1, w1, c1)" and "stats c1 n = Some e"
    and "\<And>h cf. tab h = Some cf \<Longrightarrow> K (cf_File cf) (cf_name cf)"
  shows "stats c n = Some e \<or> explained clock fs K n e w"
proof -
  have via: ?thesis
    if "on_file tab h f (w, c) = (w1, c1)"
      and "\<And>cf r w1 c1. K (cf_File cf) (cf_name cf) \<Longrightarrow> f cf (w, c) = (r, w1, c1) \<Longrightarrow> stats c1 n = Some e \<Longrightarrow>
        stats c n = Some e \<or> explained clock fs K n e w"
    for h and f :: "_ \<Rightarrow> _ \<Rightarrow> 'x \<times> _"
    using that assms(2,3) by (auto simp: on_file_def split: option.splits) (metis prod.collapse)
  show ?thesis
  proof (cases a)
    case (OOpen h nm fl p)
    then show ?thesis using assms(1,2)
      by (auto simp: do_op_def Cached_def Cached_OpenFile_def Let_def dest: stats_invalidate
          split: prod.splits sum.splits if_splits)
  next
    case (OStat nm)
    with assms(1) have "\<exists>r. Cached_Stat clock fs nm (w, c) = (r, w1, c1)"
      by (auto simp: do_op_def Cached_def) (metis prod.collapse)
    with Stat_entries assms(2) show ?thesis by metis
  next
    case (OReaddir h k)
    with assms(1) have "on_file tab h (\<lambda>cf. cachedFile_Readdir clock fs cf k) (w, c) = (w1, c1)"
      by (auto simp: do_op_def Cached_def)
    then show ?thesis by (rule via) (rule Readdir_entries)
  next
    case (OClose h)
    with assms(1) have "on_file tab h (cachedFile_Close fs) (w, c) = (w1, c1)"
      by (auto simp: do_op_def Cached_def)
    moreover have "stats c n = Some e" if "cachedFile_Close fs cf (w, c) = (r, w', c')" "stats c' n = Some e" for cf r w' c'
      using that by (auto simp: cachedFile_Close_def dest: stats_invalidate split: prod.splits if_splits)
    ultimately show ?thesis using via by blast
  qed (use assms(1,2) in \<open>auto simp: do_op_def Cached_def through_def on_file_def locally_def
      dest: stats_invalidate split: prod.splits option.splits\<close>)
qed

lemma run_ops_snoc: "run_ops lift fs (ops @ [a]) s = do_op lift fs a (run_ops lift fs ops s)"
  by (simp add: run_ops_def)

text \<open>The world below after the first calls of a script, from an empty cache.\<close>

definition world_after :: "('w \<Rightarrow> int) \<Rightarrow> ('w, 'f) FileSystem \<Rightarrow> 'w op list \<Rightarrow> 'w \<Rightarrow> nat \<Rightarrow> 'w" where
  "world_after clock fs ops w i =
     fst (snd (run_ops locally (Cached clock fs) (take i ops) (Map.empty, w, empty_cache)))"

text \<open>The open files of a run have been opened under their names in an earlier world of the run.\<close>

lemma do_op_opens:
  assumes "do_op locally (Cached clock fs) a (tab, w, c) = (tab1, w1, c1)" and "tab1 h = Some cf"
  shows "tab h = Some cf \<or> opened fs (cf_File cf) (cf_name cf) w"
proof (cases a)
  case (OOpen h' nm fl p)
  obtain q w2 where o: "OpenFile fs nm fl p w = (q, w2)" by fastforce
  with OOpen assms show ?thesis
    by (cases q) (auto simp: do_op_def Cached_def Cached_OpenFile_def opened_def Let_def split: if_splits intro!: exI [of _ fl] exI [of _ p])
qed (use assms in \<open>auto simp: do_op_def split: if_splits\<close>)

definition opened_before :: "('w \<Rightarrow> int) \<Rightarrow> ('w, 'f) FileSystem \<Rightarrow> 'w op list \<Rightarrow> 'w \<Rightarrow> nat \<Rightarrow> 'f \<Rightarrow> string \<Rightarrow> bool" where
  "opened_before clock fs ops w i f dir \<longleftrightarrow> (\<exists>j<i. opened fs f dir (world_after clock fs ops w j))"

lemma world_after_snoc: "i \<le> length ops \<Longrightarrow> world_after clock fs (ops @ [a]) w i = world_after clock fs ops w i"
  by (simp add: world_after_def)

lemma opened_before_snoc:
  "i \<le> length ops \<Longrightarrow> opened_before clock fs (ops @ [a]) w i = opened_before clock fs ops w i"
proof (intro ext)
  fix f dir
  assume "i \<le> length ops"
  then have "world_after clock fs (ops @ [a]) w j = world_after clock fs ops w j" if "j < i" for j
    using that by (simp add: world_after_snoc)
  then show "opened_before clock fs (ops @ [a]) w i f dir = opened_before clock fs ops w i f dir"
    by (auto simp: opened_before_def)
qed

lemma files_opened:
  "run_ops locally (Cached clock fs) ops (Map.empty, w0, empty_cache) = (tab, w, c) \<Longrightarrow> tab h = Some cf \<Longrightarrow>
     opened_before clock fs ops w0 (length ops) (cf_File cf) (cf_name cf)"
proof (induction ops arbitrary: tab w c rule: rev_induct)
  case (snoc a ops)
  obtain tab1 w1 c1 where r: "run_ops locally (Cached clock fs) ops (Map.empty, w0, empty_cache) = (tab1, w1, c1)"
    by (metis prod.exhaust)
  with snoc.prems(1) have "do_op locally (Cached clock fs) a (tab1, w1, c1) = (tab, w, c)"
    by (simp add: run_ops_snoc)
  from do_op_opens [OF this snoc.prems(2)] show ?case
  proof
    assume "tab1 h = Some cf"
    from snoc.IH [OF r this] have "opened_before clock fs (ops @ [a]) w0 (length ops) (cf_File cf) (cf_name cf)"
      by (simp add: opened_before_snoc)
    then show ?case by (auto simp: opened_before_def less_Suc_eq)
  next
    assume "opened fs (cf_File cf) (cf_name cf) w1"
    then show ?case using r by (auto simp: opened_before_def world_after_def intro!: exI [of _ "length ops"])
  qed
qed simp

lemma entries_explained:
  "run_ops locally (Cached clock fs) ops (Map.empty, w0, empty_cache) = (tab, w, c) \<Longrightarrow> stats c n = Some e \<Longrightarrow>
     \<exists>i \<le> length ops. explained clock fs (opened_before clock fs ops w0 i) n e (world_after clock fs ops w0 i)"
proof (induction ops arbitrary: tab w c rule: rev_induct)
  case Nil
  then have "stats empty_cache n = Some e" by simp
  then show ?case by (simp add: empty_cache_def)
next
  case (snoc a ops)
  obtain tab1 w1 c1 where r: "run_ops locally (Cached clock fs) ops (Map.empty, w0, empty_cache) = (tab1, w1, c1)"
    by (metis prod.exhaust)
  with snoc.prems(1) have d: "do_op locally (Cached clock fs) a (tab1, w1, c1) = (tab, w, c)"
    by (simp add: run_ops_snoc)
  from do_op_entries [where K = "opened_before clock fs ops w0 (length ops)", OF d snoc.prems(2) files_opened [OF r]]
  show ?case
  proof
    assume "stats c1 n = Some e"
    with snoc.IH [OF r] obtain i where "i \<le> length ops"
      "explained clock fs (opened_before clock fs ops w0 i) n e (world_after clock fs ops w0 i)"
      by blast
    then show ?case by (intro exI [of _ i]) (simp add: world_after_snoc opened_before_snoc)
  next
    assume "explained clock fs (opened_before clock fs ops w0 (length ops)) n e w1"
    then show ?case using r
      by (intro exI [of _ "length ops"]) (simp add: opened_before_snoc world_after_def)
  qed
qed

text \<open>
  Property C15: the bound on stale metadata. Whatever was done through the cache and beside it
  since it was created, \<open>Stat\<close> answers what the file system below says now, or what it said
  about that path in an earlier state of the run, less than 250 ms ago: either its answer to \<open>Stat\<close>
  on that path then, or the entry of that name in the listing of the parent directory then, read
  from a file that had been opened under the directory's name before.
\<close>
theorem cached_stat_staleness:
  assumes "run_ops locally (Cached clock fs) ops (Map.empty, w0, empty_cache) = (tab, w, c)"
    and "Cached_Stat clock fs name (w, c) = (r, s)"
  shows "r = fst (Stat fs name w)
    \<or> (\<exists>i. i \<le> length ops \<and> clock w - clock (world_after clock fs ops w0 i) < 250 * 1000000
         \<and> (answered fs (normalize_path name) r (world_after clock fs ops w0 i)
            \<or> (\<exists>j<i. \<exists>f dir. opened fs f dir (world_after clock fs ops w0 j)
                 \<and> listed fs f dir (normalize_path name) r (world_after clock fs ops w0 i))))"
proof (cases "stat_lookup (clock w) (normalize_path name) c")
  case None
  with assms(2) have "r = fst (Stat fs name w)" by (auto simp: Cached_Stat_def Let_def split: prod.splits)
  then show ?thesis ..
next
  case (Some r')
  with assms(2) obtain e where e: "stats c (normalize_path name) = Some e" "clock w < se_expires e" "r = se_result e"
    by (auto simp: Cached_Stat_def stat_lookup_def Let_def split: option.splits if_splits)
  from entries_explained [OF assms(1) e(1)] obtain i where "i \<le> length ops"
    "explained clock fs (opened_before clock fs ops w0 i) (normalize_path name) e (world_after clock fs ops w0 i)" by blast
  with e(2,3) show ?thesis
    by (intro disjI2 exI [of _ i]) (auto simp: explained_def observed_def opened_before_def statCacheTTL_def)
qed

text \<open>A small disk for the witnesses: the time, and the files by their clean names.\<close>

type_synonym toy_disk = "int \<times> (string \<Rightarrow> FileInfo option)"

definition toy_Stat :: "string \<Rightarrow> toy_disk \<Rightarrow> (error + FileInfo) \<times> toy_disk" where
  "toy_Stat n w = (case snd w n of None \<Rightarrow> (Inl fs_ErrNotExist, w) | Some i \<Rightarrow> (Inr i, w))"

definition toy_RemoveAll :: "string \<Rightarrow> toy_disk call" where
  "toy_RemoveAll n w = (None, fst w, \<lambda>m. if take (length n) m = n then None else snd w m)"

definition toy_fs :: "(toy_disk, nat) FileSystem" where
  "toy_fs =
     \<lparr>Mkdir = (\<lambda>n p w. (None, w)), OpenFile = (\<lambda>n fl p w. (Inl fs_ErrNotExist, w)),
      RemoveAll = toy_RemoveAll, Rename = (\<lambda>n m w. (None, w)), Stat = toy_Stat,
      file_Read = (\<lambda>f k w. (([], Some io_EOF), w)), file_Seek = (\<lambda>f k wh w. ((0, None), w)),
      file_Readdir = (\<lambda>f k w. (([], None), w)), file_Stat = (\<lambda>f w. (Inl fs_ErrNotExist, w)),
      file_Write = (\<lambda>f d w. ((0, None), w)), file_Close = (\<lambda>f w. (None, w))\<rparr>"

definition toy_info :: "string \<Rightarrow> FileInfo" where
  "toy_info n = \<lparr>Name = n, Size = 5, IsDir = False, ModTime = 0\<rparr>"

definition toy_world :: toy_disk where
  "toy_world = (1000, [''/d/x'' \<mapsto> toy_info ''x''])"

lemma normalize_path_toy [simp]: "normalize_path ''/d/x'' = ''/d/x''" "normalize_path ''/d'' = ''/d''" "path_Dir ''/d'' = ''/''"
  by code_simp+

text \<open>100 ms after the file was removed locally, the cache still reports it.\<close>

theorem cached_stat_staleness_witness:
  "\<exists>tab w c s. run_ops locally (Cached fst toy_fs)
       [OStat ''/d/x'', Local (\<lambda>w. (fst w + 100 * 1000000, Map.empty))] (Map.empty, toy_world, empty_cache) = (tab, w, c)
     \<and> Cached_Stat fst toy_fs ''/d/x'' (w, c) = (Inr (toy_info ''x''), s)
     \<and> fst (Stat toy_fs ''/d/x'' w) = Inl fs_ErrNotExist
     \<and> answered toy_fs ''/d/x'' (Inr (toy_info ''x'')) toy_world"
proof -
  let ?ops = "[OStat ''/d/x'', Local (\<lambda>w. (fst w + 100 * 1000000, Map.empty))] :: toy_disk op list"
  let ?w = "(1000 + 100 * 1000000, Map.empty) :: toy_disk"
  let ?c = "stat_store 1000 ''/d/x'' (Inr (toy_info ''x'')) empty_cache"
  have run: "run_ops locally (Cached fst toy_fs) ?ops (Map.empty, toy_world, empty_cache) = (Map.empty, ?w, ?c)"
    by (simp add: do_op_def Cached_def Cached_Stat_def stat_lookup_def empty_cache_def toy_fs_def toy_Stat_def
        toy_world_def locally_def Let_def)
  have st: "Cached_Stat fst toy_fs ''/d/x'' (?w, ?c) = (Inr (toy_info ''x''), ?w, ?c)"
    by (simp add: Cached_Stat_def stat_lookup_def stat_store_def statCacheTTL_def)
  have now: "fst (Stat toy_fs ''/d/x'' ?w) = Inl fs_ErrNotExist" by (simp add: toy_fs_def toy_Stat_def)
  have op: "\<not> opened toy_fs f dir v" for f dir v by (simp add: opened_def toy_fs_def)
  from cached_stat_staleness [OF run st] now op obtain i where i: "i \<le> Suc (Suc 0)"
      "answered toy_fs ''/d/x'' (Inr (toy_info ''x'')) (world_after fst toy_fs ?ops toy_world i)"
    by auto
  have "\<not> answered toy_fs ''/d/x'' (Inr (toy_info ''x'')) ?w"
    by (simp add: answered_def toy_fs_def toy_Stat_def)
  moreover have "world_after fst toy_fs ?ops toy_world i = (if i = 2 then ?w else toy_world)"
    using i(1) run
    by (cases i; cases "i - 1")
      (auto simp: world_after_def do_op_def Cached_def Cached_Stat_def stat_lookup_def empty_cache_def toy_fs_def
        toy_Stat_def toy_world_def locally_def Let_def)
  ultimately have "answered toy_fs ''/d/x'' (Inr (toy_info ''x'')) toy_world" using i(2) by (auto split: if_splits)
  with run st now show ?thesis by blast
qed

subsection \<open>Writes through the cache\<close>

lemma stat_lookup_invalidate:
  "n = normalize_path p \<or> n = path_Dir (normalize_path p) \<Longrightarrow> stat_lookup now n (invalidate p c) = None"
  by (auto simp: stat_lookup_def invalidate_def Let_def)

lemma stat_lookup_invalidate_mono: "stat_lookup now n c = None \<Longrightarrow> stat_lookup now n (invalidate p c) = None"
  by (auto simp: stat_lookup_def invalidate_def Let_def split: option.splits)

lemma Stat_miss: "stat_lookup (clock w) (normalize_path name) c = None \<Longrightarrow>
    fst (Cached_Stat clock fs name (w, c)) = fst (Stat fs name w)"
  by (simp add: Cached_Stat_def Let_def split: prod.splits)

text \<open>
  Property C16: a viewer reads its own writes. After Mkdir, RemoveAll, Rename or the Close of a
  file opened for writing, successful or not, the next Stat of the path, of any other
  spelling of it, and of its parent directory is answered by the file system below.
\<close>
theorem cached_reads_own_writes:
  assumes "normalize_path name' \<in> {normalize_path name, path_Dir (normalize_path name)}"
    and "s' \<in> {snd (Mkdir (Cached clock fs) name perm s), snd (RemoveAll (Cached clock fs) name s),
      snd (Rename (Cached clock fs) name other s), snd (Rename (Cached clock fs) other name s),
      snd (file_Close (Cached clock fs) \<lparr>cf_File = f, cf_name = name, cf_writable = True\<rparr> s)}"
  shows "fst (Stat (Cached clock fs) name' s') = fst (Stat fs name' (fst s'))"
proof -
  have "stat_lookup (clock (fst s')) (normalize_path name') (snd s') = None"
    using assms stat_lookup_invalidate [of "normalize_path name'" name] stat_lookup_invalidate_mono
    by (auto simp: Cached_def through_def cachedFile_Close_def split: prod.splits)
  then show ?thesis using Stat_miss [of clock "fst s'" name' "snd s'" fs] by (simp add: Cached_def)
qed

theorem cached_reads_own_writes_witness:
  "fst (Stat (Cached fst toy_fs) ''/d/x'' (snd (RemoveAll (Cached fst toy_fs) ''/d/x'' (toy_world, empty_cache))))
     = Inl fs_ErrNotExist"
proof -
  let ?s = "snd (RemoveAll (Cached fst toy_fs) ''/d/x'' (toy_world, empty_cache))"
  have "fst (Stat (Cached fst toy_fs) ''/d/x'' ?s) = fst (Stat toy_fs ''/d/x'' (fst ?s))"
    by (rule cached_reads_own_writes [where name = "''/d/x''" and s = "(toy_world, empty_cache)"]) simp_all
  also have "\<dots> = Inl fs_ErrNotExist"
    by (simp add: Cached_def through_def toy_fs_def toy_RemoveAll_def toy_Stat_def toy_world_def)
  finally show ?thesis .
qed

text \<open>
  Removing or renaming a directory does not invalidate what is below it. While the
  cached entry of a path other than the directory and its parent lives, Stat goes on reporting it
  after the directory was removed through the same cache.
\<close>
theorem cached_removed_child_still_visible:
  assumes "stats c (normalize_path child) = Some e"
    and "normalize_path child \<notin> {normalize_path dir, path_Dir (normalize_path dir)}"
    and "RemoveAll fs dir w = (err, w1)" and "clock w1 < se_expires e"
  shows "fst (Stat (Cached clock fs) child (snd (RemoveAll (Cached clock fs) dir (w, c)))) = se_result e"
  using assms by (simp add: Cached_def through_def Cached_Stat_def stat_lookup_def invalidate_def Let_def)

theorem cached_removed_child_still_visible_witness:
  "fst (Stat (Cached fst toy_fs) ''/d/x'' (snd (RemoveAll (Cached fst toy_fs) ''/d''
       (toy_world, stat_store 1000 ''/d/x'' (Inr (toy_info ''x'')) empty_cache)))) = Inr (toy_info ''x'')
     \<and> fst (Stat toy_fs ''/d/x'' (snd (RemoveAll toy_fs ''/d'' toy_world))) = Inl fs_ErrNotExist"
proof -
  let ?c = "stat_store 1000 ''/d/x'' (Inr (toy_info ''x'')) empty_cache"
  let ?e = "\<lparr>se_result = Inr (toy_info ''x''), se_expires = 1000 + statCacheTTL\<rparr>"
  obtain err w1 where r: "RemoveAll toy_fs ''/d'' toy_world = (err, w1)" by (metis prod.exhaust)
  then have "fst w1 = 1000" by (auto simp: toy_fs_def toy_RemoveAll_def toy_world_def)
  then have "fst (Stat (Cached fst toy_fs) ''/d/x'' (snd (RemoveAll (Cached fst toy_fs) ''/d'' (toy_world, ?c)))) = se_result ?e"
    using r by (intro cached_removed_child_still_visible [OF _ _ r]) (simp_all add: stat_store_def statCacheTTL_def)
  moreover have "fst (Stat toy_fs ''/d/x'' (snd (RemoveAll toy_fs ''/d'' toy_world))) = Inl fs_ErrNotExist"
    by (simp add: toy_fs_def toy_RemoveAll_def toy_Stat_def toy_world_def)
  ultimately show ?thesis by simp
qed

text \<open>
  The lock is free while the file system below answers: an invalidation that falls between the
  answer and its store is lost.
\<close>

lemma store_after_invalidate:
  "stat_lookup now (normalize_path p) (stat_store now0 (normalize_path p) r (invalidate p c)) =
     (if now < now0 + statCacheTTL then Some r else None)"
  by (simp add: stat_lookup_def stat_store_def)

end
