(* ===== verification/Share_Delete.thy ===== *)
theory Share_Delete
  imports Webdav_FS
begin

text \<open>
  \<open>internal/ownerfs/share_delete*.go\<close>: the shared directory with files opened so that they can be
  deleted meanwhile. \<open>webdav.Dir\<close> of the library is a parameter; elsewhere than on Windows the
  layer is that. On Windows \<open>OpenFile\<close> resolves the name itself. \<open>path/filepath\<close> is modelled
  for roots on a drive or without a volume name; UNC roots are left out. The system
  calls are parameters.
\<close>

definition bs :: char where "bs = CHR 0x5C"

definition FromSlash :: "string \<Rightarrow> string" where
  "FromSlash = map (\<lambda>c. if c = CHR ''/'' then bs else c)"

definition volume :: "string \<Rightarrow> string" where
  "volume p = (if 2 \<le> length p \<and> p ! 1 = CHR '':'' then take 2 p else [])"

definition filepath_Clean :: "string \<Rightarrow> string" where
  "filepath_Clean p = volume p @ clean_with bs (FromSlash (drop (length (volume p)) p))"

definition filepath_Join :: "string \<Rightarrow> string \<Rightarrow> string" where
  "filepath_Join a b =
     (if a = [] then (if b = [] then [] else filepath_Clean b)
      else if last a = bs \<or> last a = CHR ''/''
      then filepath_Clean (a @ dropWhile (\<lambda>c. c = bs \<or> c = CHR ''/'') b)
      else if last a = CHR '':'' then filepath_Clean (a @ b)
      else filepath_Clean (a @ bs # b))"

definition slashClean :: "string \<Rightarrow> string" where
  "slashClean name = (if name = [] \<or> hd name \<noteq> CHR ''/'' then CHR ''/'' # name else name)"

definition resolve :: "string \<Rightarrow> string \<Rightarrow> string" where
  "resolve d name =
     (if bs \<in> set name then []
      else if CHR 0x00 \<in> set name then []
      else
        let root = (if d = [] then ''.'' else d)
        in filepath_Join root (FromSlash (slashClean name)))"

subsection \<open>Opening a file\<close>

type_synonym dword = "32 word"

definition GENERIC_READ :: dword where "GENERIC_READ = 0x80000000"
definition GENERIC_WRITE :: dword where "GENERIC_WRITE = 0x40000000"
definition FILE_SHARE_READ :: dword where "FILE_SHARE_READ = 0x1"
definition FILE_SHARE_WRITE :: dword where "FILE_SHARE_WRITE = 0x2"
definition FILE_SHARE_DELETE :: dword where "FILE_SHARE_DELETE = 0x4"
definition FILE_ATTRIBUTE_NORMAL :: dword where "FILE_ATTRIBUTE_NORMAL = 0x80"
definition FILE_FLAG_BACKUP_SEMANTICS :: dword where "FILE_FLAG_BACKUP_SEMANTICS = 0x02000000"

datatype disposition = CREATE_NEW | CREATE_ALWAYS | OPEN_ALWAYS | TRUNCATE_EXISTING | OPEN_EXISTING

definition win_access :: "flags \<Rightarrow> dword" where
  "win_access flag =
     (let access =
        (if flag AND O_WRONLY \<noteq> 0 then GENERIC_WRITE
         else if flag AND O_RDWR \<noteq> 0 then GENERIC_READ OR GENERIC_WRITE
         else GENERIC_READ)
      in if flag AND O_APPEND \<noteq> 0 then access OR GENERIC_WRITE else access)"

definition win_disposition :: "flags \<Rightarrow> disposition" where
  "win_disposition flag =
     (if flag AND (O_CREATE OR O_EXCL) = O_CREATE OR O_EXCL then CREATE_NEW
      else if flag AND (O_CREATE OR O_TRUNC) = O_CREATE OR O_TRUNC then CREATE_ALWAYS
      else if flag AND O_CREATE \<noteq> 0 then OPEN_ALWAYS
      else if flag AND O_TRUNC \<noteq> 0 then TRUNCATE_EXISTING
      else OPEN_EXISTING)"

definition win_share :: dword where
  "win_share = FILE_SHARE_READ OR FILE_SHARE_WRITE OR FILE_SHARE_DELETE"

record ('w, 'f) win_sys =
  UTF16PtrFromString :: "string \<Rightarrow> error option"
  os_Stat_IsDir :: "string \<Rightarrow> 'w \<Rightarrow> bool"
  CreateFile :: "string \<Rightarrow> dword \<Rightarrow> dword \<Rightarrow> disposition \<Rightarrow> dword \<Rightarrow> 'w \<Rightarrow> (error + nat) \<times> 'w"
  CloseHandle :: "nat \<Rightarrow> 'w \<Rightarrow> 'w"
  NewFile :: "nat \<Rightarrow> string \<Rightarrow> 'f option"

definition PathError :: "string \<Rightarrow> error \<Rightarrow> error" where
  "PathError full e = WrapError (''open '' @ full @ '': '') e []"

definition os_ErrNotExist :: error where "os_ErrNotExist = fs_ErrNotExist"

definition win_OpenFile :: "('w, 'f) win_sys \<Rightarrow> ('w, 'f) FileSystem \<Rightarrow> string \<Rightarrow> string \<Rightarrow> flags \<Rightarrow> nat \<Rightarrow> 'w
    \<Rightarrow> (error + 'f) \<times> 'w" where
  "win_OpenFile sys dir d name flag perm w =
     (let full = resolve d name in
      if full = [] then (Inl os_ErrNotExist, w)
      else
        (case UTF16PtrFromString sys full of
           Some err \<Rightarrow> (Inl (PathError full err), w)
         | None \<Rightarrow>
             (let attrs = (if os_Stat_IsDir sys full w then FILE_FLAG_BACKUP_SEMANTICS else FILE_ATTRIBUTE_NORMAL)
              in (case CreateFile sys full (win_access flag) win_share (win_disposition flag) attrs w of
                    (Inl err, w1) \<Rightarrow> (Inl (PathError full err), w1)
                  | (Inr handle, w1) \<Rightarrow>
                      (case NewFile sys handle full of
                         None \<Rightarrow> (Inl (ErrorString ''ownerfs: NewFile returned nil''), CloseHandle sys handle w1)
                       | Some f \<Rightarrow>
                           if flag AND O_APPEND \<noteq> 0
                           then
                             (case file_Seek dir f 0 2 w1 of
                                ((_, Some err), w2) \<Rightarrow> (Inl err, snd (file_Close dir f w2))
                              | ((_, None), w2) \<Rightarrow> (Inr f, w2))
                           else (Inr f, w1))))))"

text \<open>The layer on Windows and elsewhere.\<close>

definition shareDeleteDir_windows :: "('w, 'f) win_sys \<Rightarrow> (string \<Rightarrow> ('w, 'f) FileSystem) \<Rightarrow> string \<Rightarrow> ('w, 'f) FileSystem" where
  "shareDeleteDir_windows sys webdav_Dir d = (webdav_Dir d)\<lparr>OpenFile := win_OpenFile sys (webdav_Dir d) d\<rparr>"

definition shareDeleteDir_other :: "(string \<Rightarrow> ('w, 'f) FileSystem) \<Rightarrow> string \<Rightarrow> ('w, 'f) FileSystem" where
  "shareDeleteDir_other webdav_Dir d = webdav_Dir d"

subsection \<open>The jail\<close>

definition plain_name :: "string \<Rightarrow> bool" where
  "plain_name e \<longleftrightarrow> proper e \<and> CHR ''/'' \<notin> set e \<and> bs \<notin> set e \<and> CHR '':'' \<notin> set e"

definition win_root :: "string list \<Rightarrow> string" where
  "win_root rs = ''C:'' @ bs # join_with bs rs"

lemma bs_slash [simp]: "bs \<noteq> CHR ''/''" "bs \<noteq> CHR '':''" "CHR ''/'' \<noteq> bs" "CHR '':'' \<noteq> bs"
  by (simp_all add: bs_def)

lemma FromSlash_plain: "CHR ''/'' \<notin> set s \<Longrightarrow> FromSlash s = s"
  by (auto simp: FromSlash_def intro: map_idI)

lemma FromSlash_append [simp]: "FromSlash (a @ b) = FromSlash a @ FromSlash b"
  by (simp add: FromSlash_def)

lemma FromSlash_idem [simp]: "FromSlash (FromSlash s) = FromSlash s"
  by (simp add: FromSlash_def)

lemma split_FromSlash: "bs \<notin> set s \<Longrightarrow> split_on bs (FromSlash s) = split_on (CHR ''/'') s"
  by (induction s) (auto simp: FromSlash_def split: list.splits)

lemma clean_elems_empty [simp]: "clean_elems r (a @ [] # b) = clean_elems r (a @ b)" "clean_elems r ([] # b) = clean_elems r b"
  by (simp_all add: clean_elems_def clean_elem_def)

text \<open>What \<open>resolve\<close> computes below a root on a drive: the cleaned elements of both.\<close>

lemma resolve_elems:
  assumes "rs \<noteq> []" and "list_all plain_name rs" and "bs \<notin> set name" and "CHR 0x00 \<notin> set name"
  shows "resolve (win_root rs) name = ''C:'' @ bs # join_with bs (clean_elems True (rs @ split_on (CHR ''/'') name))"
proof -
  have plain: "plain_name r" if "r \<in> set rs" for r using assms(2) that by (simp add: list_all_iff)
  have "last rs \<in> set rs" using assms(1) by simp
  then have ne: "last rs \<noteq> []" using plain [of "last rs"] by (auto simp: plain_name_def)
  have l: "last (join_with bs rs) = last (last rs)" "join_with bs rs \<noteq> []"
    using last_join_with [OF assms(1) ne] by auto
  have "last (last rs) \<in> set (last rs)" using ne by simp
  with plain [OF \<open>last rs \<in> set rs\<close>]
  have last: "last (win_root rs) \<noteq> bs" "last (win_root rs) \<noteq> CHR ''/''" "last (win_root rs) \<noteq> CHR '':''"
    using l by (auto simp: plain_name_def win_root_def)
  have s: "split_on bs (join_with bs rs) = rs"
    using assms(1) plain by (intro split_join) (auto simp: plain_name_def)
  have "CHR ''/'' \<notin> set (join_with bs rs)"
    using set_join_with [of bs rs] plain by (auto simp: plain_name_def)
  note noslash = FromSlash_plain [OF this]
  obtain t where t: "slashClean name = CHR ''/'' # t" "bs \<notin> set t"
      "clean_elems True (rs @ split_on (CHR ''/'') t) = clean_elems True (rs @ split_on (CHR ''/'') name)"
  proof (cases "name = [] \<or> hd name \<noteq> CHR ''/''")
    case True
    with that [of name] assms(3) show ?thesis by (auto simp: slashClean_def)
  next
    case False
    then obtain u where "name = CHR ''/'' # u" by (cases name) auto
    with that [of u] assms(3) show ?thesis by (simp add: slashClean_def)
  qed
  have x: "FromSlash (slashClean name) = bs # FromSlash t" using t(1) by (simp add: FromSlash_def)
  have b: "FromSlash (bs # u) = bs # FromSlash u" for u by (simp add: FromSlash_def)
  have "split_on bs (bs # join_with bs rs @ bs # bs # FromSlash t) = [] # rs @ [] # split_on (CHR ''/'') t"
    using t(2) by (simp add: split_on_append_sep s split_FromSlash)
  then have "clean_with bs (bs # join_with bs rs @ bs # bs # FromSlash t)
      = bs # join_with bs (clean_elems True (rs @ split_on (CHR ''/'') name))"
    using t(3) by (simp add: clean_with_def Let_def)
  then have "filepath_Clean (win_root rs @ bs # FromSlash (slashClean name))
      = ''C:'' @ bs # join_with bs (clean_elems True (rs @ split_on (CHR ''/'') name))"
    by (simp add: filepath_Clean_def volume_def win_root_def x b noslash)
  moreover have "win_root rs \<noteq> []" by (simp add: win_root_def)
  ultimately show ?thesis using last assms(3,4) by (simp add: resolve_def filepath_Join_def)
qed

text \<open>
  Property C12: the jail of \<open>resolve\<close> has a hole. Below a shared folder on a drive, the name
  \<open>/../\<close>\<open>file\<close> is resolved beside the folder, since \<open>slashClean\<close>, unlike the function of the
  library it stands for, does not clean the name; had the name been cleaned first, every
  name would be resolved below the folder.
\<close>
theorem resolve_escapes_root:
  assumes "rs \<noteq> []" and "list_all plain_name rs" and "plain_name file" and "CHR 0x00 \<notin> set file"
    and "bs \<notin> set name" and "CHR 0x00 \<notin> set name"
  shows "resolve (win_root rs) (''/../'' @ file) = ''C:'' @ bs # join_with bs (butlast rs @ [file])
    \<and> (\<exists>es. resolve (win_root rs) (path_Clean (CHR ''/'' # name)) = ''C:'' @ bs # join_with bs (rs @ es))"
proof
  have proper_rs: "list_all proper rs" using assms(2) by (simp add: list_all_iff plain_name_def)
  have "split_on (CHR ''/'') (''/../'' @ file) = [[], ''..'', file]"
    using assms(3) by (simp add: plain_name_def)
  moreover have "clean_elems True (rs @ [[], ''..'', file]) = butlast rs @ [file]"
    using assms(1,3) proper_rs
    by (cases rs rule: rev_cases)
      (auto simp: clean_elems_def clean_fold_id clean_elem_def plain_name_def proper_def split: list.splits)
  moreover have "bs \<notin> set (''/../'' @ file)" "CHR 0x00 \<notin> set (''/../'' @ file)"
    using assms(3,4) by (auto simp: plain_name_def bs_def)
  ultimately show "resolve (win_root rs) (''/../'' @ file) = ''C:'' @ bs # join_with bs (butlast rs @ [file])"
    using resolve_elems [OF assms(1,2)] by simp
next
  have proper_rs: "list_all proper rs" using assms(2) by (simp add: list_all_iff plain_name_def)
  let ?es = "clean_elems True (split_on (CHR ''/'') name)"
  let ?n = "path_Clean (CHR ''/'' # name)"
  have n: "?n = CHR ''/'' # join_with (CHR ''/'') ?es" by (rule clean_rooted)
  have sub: "set e \<subseteq> set name" if "e \<in> set ?es" for e
    using that clean_elems_subset split_on_subset by blast
  have "set ?n \<subseteq> insert (CHR ''/'') (set name)"
    using set_join_with [of "CHR ''/''" ?es] sub n by auto
  then have clean: "bs \<notin> set ?n" "CHR 0x00 \<notin> set ?n" using assms(5,6) by auto
  have es: "list_all proper ?es" by (rule clean_elems_proper)
  have slash: "\<forall>w \<in> set ?es. CHR ''/'' \<notin> set w" using clean_elems_subset split_on_no_sep by blast
  have "clean_elems True (rs @ split_on (CHR ''/'') ?n) = rs @ ?es"
  proof (cases "?es = []")
    case True
    then have "split_on (CHR ''/'') ?n = [[], []]" by (simp add: n)
    then show ?thesis using True proper_rs clean_elems_empty(1) [of True rs "[]"] by (simp add: clean_elems_id)
  next
    case False
    have "split_on (CHR ''/'') ?n = [] # ?es"
      by (simp only: n split_on.simps split_join [OF False slash] if_True refl)
    moreover have "list_all proper (rs @ ?es)" using proper_rs es by simp
    ultimately show ?thesis by (simp only: clean_elems_empty clean_elems_id)
  qed
  with resolve_elems [OF assms(1,2) clean]
  show "\<exists>es. resolve (win_root rs) ?n = ''C:'' @ bs # join_with bs (rs @ es)" by auto
qed

text \<open>With \<open>C:\<close> and the folder \<open>share\<close>: the private key beside it can be opened.\<close>

theorem resolve_escapes_root_witness:
  "resolve (win_root [''u'', ''share'']) ''/../identity.key'' = ''C:'' @ bs # ''u'' @ bs # ''identity.key''"
  using resolve_escapes_root [of "[''u'', ''share'']" "''identity.key''" "[]"]
  by (simp add: plain_name_def proper_def bs_def)

text \<open>Every handle is opened so that the local user can delete or rename the file.\<close>

lemma win_share_deletes: "win_share AND FILE_SHARE_DELETE = FILE_SHARE_DELETE"
  by (simp add: win_share_def FILE_SHARE_READ_def FILE_SHARE_WRITE_def FILE_SHARE_DELETE_def)

text \<open>An open for reading with truncation asks to truncate without the access to do so.\<close>

lemma truncate_without_write:
  "win_disposition O_TRUNC = TRUNCATE_EXISTING \<and> win_access O_TRUNC AND GENERIC_WRITE = 0"
  by (simp add: win_disposition_def win_access_def flag_defs GENERIC_READ_def GENERIC_WRITE_def Let_def)

end
