(* ===== verification/Owner_Stack.thy ===== *)
theory Owner_Stack
  imports Owner_Filter Owner_Cache Share_Delete
begin

text \<open>
  The file system that \<open>cmd/dav-owner/main.go\<close> serves: the layers of \<open>internal/ownerfs\<close> in the
  order in which it composes them, over either form of the shared directory.
\<close>

definition served_fs :: "('w \<Rightarrow> int) \<Rightarrow> (string \<Rightarrow> string) \<Rightarrow> (string \<Rightarrow> ('w, 'f) FileSystem) \<Rightarrow> string
    \<Rightarrow> ('w \<times> CachedFS, 'f filtered cachedFile) FileSystem" where
  "served_fs clock nfc ShareDeleteDir dir = Cached clock (FilterJunk (NormalizeNFC nfc (ShareDeleteDir dir)))"

text \<open>A call that names junk or works on an open file.\<close>

fun junk_only :: "'u op \<Rightarrow> bool" where
  "junk_only (Local f) = False"
| "junk_only a = (op_names a = [] \<or> list_ex IsJunk (op_names a))"

definition discards :: "(nat \<Rightarrow> 'f filtered cachedFile option) \<Rightarrow> bool" where
  "discards tab \<longleftrightarrow> (\<forall>h cf. tab h = Some cf \<longrightarrow> cf_File cf = discardFile)"

lemma on_discard:
  assumes "discards tab" and "\<And>cf s. cf_File cf = discardFile \<Longrightarrow> fst (snd (f cf s)) = fst s"
  shows "fst (on_file tab h f s) = fst s"
  using assms by (auto simp: on_file_def discards_def split: option.splits)

lemma Cached_Stat_junk: "IsJunk n \<Longrightarrow> fst (snd (Cached_Stat clock (FilterJunk fs) n s)) = fst s"
  by (auto simp: Cached_Stat_def FilterJunk_def Let_def split: prod.splits option.splits)

lemma Readdir_discard: "cf_File cf = discardFile \<Longrightarrow>
    fst (snd (cachedFile_Readdir clock (FilterJunk fs) cf k s)) = fst s"
  by (auto simp: cachedFile_Readdir_def FilterJunk_def discard_Readdir_def Let_def split: prod.splits option.splits)

lemma Close_discard: "cf_File cf = discardFile \<Longrightarrow>
    fst (snd (cachedFile_Close (FilterJunk fs) cf s)) = fst s"
  by (auto simp: cachedFile_Close_def FilterJunk_def split: prod.splits)

lemma junk_step:
  assumes "junk_only a" and "discards tab" and "do_op locally (Cached clock (FilterJunk fs)) a (tab, s) = (tab1, s1)"
  shows "discards tab1 \<and> fst s1 = fst s"
proof (cases a)
  case (OOpen h n fl p)
  with assms show ?thesis
    by (auto simp: do_op_def Cached_def Cached_OpenFile_def FilterJunk_def filteredFS_OpenFile_def Let_def
        discards_def split: prod.splits if_splits)
next
  case (OStat n)
  with assms Cached_Stat_junk [of n clock fs s] show ?thesis by (auto simp: do_op_def Cached_def)
next
  case (OReaddir h k)
  with assms have "s1 = on_file tab h (\<lambda>x. cachedFile_Readdir clock (FilterJunk fs) x k) s" "tab1 = tab"
    by (auto simp: do_op_def Cached_def)
  with assms(2) on_discard [OF assms(2), of "\<lambda>x. cachedFile_Readdir clock (FilterJunk fs) x k" h s]
  show ?thesis by (simp add: Readdir_discard)
next
  case (OClose h)
  with assms have "s1 = on_file tab h (cachedFile_Close (FilterJunk fs)) s" "tab1 = tab(h := None)"
    by (auto simp: do_op_def Cached_def)
  with assms(2) on_discard [OF assms(2), of "cachedFile_Close (FilterJunk fs)" h s]
  show ?thesis by (auto simp: Close_discard discards_def)
qed (use assms in \<open>auto simp: do_op_def Cached_def FilterJunk_def through_def on_file_def discards_def
    split: prod.splits option.splits if_splits\<close>)

text \<open>
  Property C13: through the whole stack a client that names nothing but junk does not touch the
  shared folder: whatever it opens, writes, lists, removes or renames, and whatever the cache
  holds, the disk is afterwards what it was.
\<close>
theorem junk_session_leaves_disk:
  assumes "\<forall>a \<in> set ops. junk_only a"
  shows "fst (snd (run_ops locally (served_fs clock nfc ShareDeleteDir dir) ops (Map.empty, w, c))) = w"
proof -
  have "discards (fst (run_ops locally (Cached clock (FilterJunk fs)) ops s))
      \<and> fst (snd (run_ops locally (Cached clock (FilterJunk fs)) ops s)) = fst (snd s)"
    if "discards (fst s)" for s and fs :: "('a, 'b) FileSystem"
    using that assms
  proof (induction ops arbitrary: s)
    case Nil
    then show ?case by simp
  next
    case (Cons a ops)
    obtain tab w0 where s: "s = (tab, w0)" by (metis prod.exhaust)
    obtain tab1 w1 where d: "do_op locally (Cached clock (FilterJunk fs)) a s = (tab1, w1)" by (metis prod.exhaust)
    from junk_step [of a tab clock fs w0 tab1 w1] Cons.prems s d have "discards tab1" "fst w1 = fst w0" by auto
    with Cons.IH [of "(tab1, w1)"] Cons.prems(2) d s show ?case by simp
  qed
  from this [of "(Map.empty, w, c)"] show ?thesis by (simp add: served_fs_def discards_def)
qed

theorem junk_session_leaves_disk_witness:
  "fst (snd (run_ops locally (served_fs fst (\<lambda>s. s) (\<lambda>_. toy_fs) ''d'')
       [OOpen 0 ''/._x'' O_WRONLY 0, OWrite 0 ''junk'', OClose 0, ORemoveAll ''/Thumbs.db''] (Map.empty, toy_world, empty_cache)))
     = toy_world"
proof -
  have "IsJunk ''/._x''" "IsJunk ''/Thumbs.db''" by code_simp+
  then show ?thesis by (intro junk_session_leaves_disk) simp
qed

end
