(* ===== verification/Claudy_Log.thy ===== *)
theory Claudy_Log
  imports Go_Path
begin

text \<open>
  The log of a child process in \<open>cmd/claudy/main.go\<close>: the ring of its last lines, the status that
  is read off them, and the goroutine that cuts a pipe into lines. \<open>sp_cmd\<close> is the handle of the
  running process, if any; \<open>sp_started\<close> is in nanoseconds, zero for the zero time.
\<close>

record subprocess =
  sp_role :: string
  sp_room :: string
  sp_dir :: string
  sp_localAddr :: string
  sp_started :: int
  sp_cmd :: "nat option"
  sp_mountPath :: string
  logLines :: "string list"
  lastStatus :: string

definition allLogs :: "subprocess \<Rightarrow> string list" where
  "allLogs s = logLines s"

definition sp_snapshot :: "int \<Rightarrow> subprocess \<Rightarrow> string \<times> int \<times> string list \<times> string" where
  "sp_snapshot now s =
     (let uptimeSecs = (if sp_started s \<noteq> 0 then (now - sp_started s) div 1000000000 else 0);
          n = length (logLines s);
          logs = (if n > 30 then drop (n - 30) (logLines s) else if n > 0 then logLines s else [])
      in (lastStatus s, uptimeSecs, logs, sp_mountPath s))"

definition status_after :: "string \<Rightarrow> string \<Rightarrow> string" where
  "status_after line st =
     (if Contains line ''waiting for viewer'' then ''waiting''
      else if Contains line ''paired with owner'' \<or> Contains line ''paired with viewer''
      then if st \<noteq> ''connected'' then ''paired'' else st
      else if Contains line ''tunnel up'' then ''connected''
      else if Contains line ''state=failed'' \<or> Contains line ''state=closed''
      then if st \<noteq> ''connected'' then ''reconnecting'' else st
      else if Contains line ''ice selected''
      then if Contains line ''local=relay'' \<or> Contains line ''remote=relay'' then ''connected (via relay)'' else st
      else st)"

definition pushLogLine :: "string \<Rightarrow> subprocess \<Rightarrow> subprocess" where
  "pushLogLine line s =
     (let ls = logLines s @ [line];
          ls' = (if length ls > 200 then drop (length ls - 200) ls else ls)
      in s\<lparr>logLines := ls', lastStatus := status_after line (lastStatus s)\<rparr>)"

subsection \<open>Cutting a pipe into lines\<close>

definition nl :: char where "nl = CHR 0x0A"
definition cr :: char where "cr = CHR 0x0D"

fun IndexByte :: "string \<Rightarrow> char \<Rightarrow> nat option" where
  "IndexByte [] c = None"
| "IndexByte (x # s) c = (if x = c then Some 0 else map_option Suc (IndexByte s c))"

definition TrimRight :: "string \<Rightarrow> char \<Rightarrow> string" where
  "TrimRight s c = rev (dropWhile (\<lambda>x. x = c) (rev s))"

lemma IndexByte_less: "IndexByte s c = Some i \<Longrightarrow> i < length s"
  by (induction s arbitrary: i) (auto split: if_splits)

text \<open>The inner loop of \<open>pipeToLog\<close>, with what is left of \<open>partial\<close>.\<close>

function drain_lines :: "string \<Rightarrow> subprocess \<Rightarrow> string \<times> subprocess" where
  "drain_lines part s =
     (case IndexByte part nl of
        None \<Rightarrow> (part, s)
      | Some i \<Rightarrow> drain_lines (drop (i + 1) part) (pushLogLine (TrimRight (take i part) cr) s))"
  by pat_completeness auto
termination
  by (relation "measure (\<lambda>(part, s). length part)") (auto dest: IndexByte_less)

declare drain_lines.simps [simp del]

text \<open>One element per call of \<open>Read\<close>: the bytes, and whether it reported an error.\<close>

fun pipeToLog :: "string \<Rightarrow> (string \<times> bool) list \<Rightarrow> subprocess \<Rightarrow> subprocess" where
  "pipeToLog part [] s = s"
| "pipeToLog part ((chunk, err) # reads) s =
     (case (if chunk \<noteq> [] then drain_lines (part @ chunk) s else (part, s)) of
        (part1, s1) \<Rightarrow>
          if err then (if part1 \<noteq> [] then pushLogLine part1 s1 else s1)
          else pipeToLog part1 reads s1)"

subsection \<open>Properties\<close>

lemma IndexByte_split:
  "split_on c s = (case IndexByte s c of None \<Rightarrow> [s] | Some i \<Rightarrow> take i s # split_on c (drop (i + 1) s))"
proof (induction s)
  case Nil
  then show ?case by simp
next
  case (Cons x s)
  then show ?case by (cases "IndexByte s c") auto
qed

lemma drain_lines_split:
  "drain_lines part s =
     (last (split_on nl part), fold pushLogLine (map (\<lambda>l. TrimRight l cr) (butlast (split_on nl part))) s)"
proof (induction part s rule: drain_lines.induct)
  case (1 part s)
  show ?case
  proof (cases "IndexByte part nl")
    case None
    then show ?thesis by (simp add: drain_lines.simps IndexByte_split [of nl part])
  next
    case (Some i)
    with 1 [OF Some] show ?thesis
      by (simp add: drain_lines.simps [of part] IndexByte_split [of nl part])
  qed
qed

lemma split_on_append: "split_on c (s @ t) = butlast (split_on c s) @ split_on c (last (split_on c s) @ t)"
proof (induction s)
  case Nil
  then show ?case by simp
next
  case (Cons x s)
  then show ?case by (cases "split_on c s") auto
qed

text \<open>The lines of a text: all complete ones without their carriage returns, and the rest.\<close>

definition log_lines :: "string \<Rightarrow> string list" where
  "log_lines text =
     (let ls = split_on nl text
      in map (\<lambda>l. TrimRight l cr) (butlast ls) @ (if last ls = [] then [] else [last ls]))"

lemma pipeToLog_lines_from:
  "nl \<notin> set part \<Longrightarrow> pipeToLog part (map (\<lambda>c. (c, False)) cs @ [(c, True)]) s
     = fold pushLogLine (log_lines (part @ concat cs @ c)) s"
proof (induction cs arbitrary: part s)
  case Nil
  have "split_on nl part = [part]" using Nil by simp
  then show ?case by (cases "c = []") (simp_all add: drain_lines_split log_lines_def Let_def)
next
  case (Cons d cs)
  let ?rest = "last (split_on nl (part @ d))"
  have rest: "nl \<notin> set ?rest" using split_on_no_sep [of ?rest nl "part @ d"] by (simp add: last_in_set)
  show ?case
  proof (cases "d = []")
    case True
    then show ?thesis using Cons by simp
  next
    case False
    let ?s = "fold pushLogLine (map (\<lambda>l. TrimRight l cr) (butlast (split_on nl (part @ d)))) s"
    have "pipeToLog part (map (\<lambda>c. (c, False)) (d # cs) @ [(c, True)]) s
        = pipeToLog ?rest (map (\<lambda>c. (c, False)) cs @ [(c, True)]) ?s"
      using False by (simp add: drain_lines_split)
    also have "\<dots> = fold pushLogLine (log_lines (?rest @ concat cs @ c)) ?s"
      by (rule Cons.IH [OF rest])
    also have "\<dots> = fold pushLogLine (log_lines (part @ concat (d # cs) @ c)) s"
      using split_on_append [of nl "part @ d" "concat cs @ c"]
      by (simp add: log_lines_def Let_def butlast_append)
    finally show ?thesis .
  qed
qed

definition lastn :: "nat \<Rightarrow> 'a list \<Rightarrow> 'a list" where
  "lastn n xs = drop (length xs - n) xs"

lemma lastn_snoc: "0 < n \<Longrightarrow> lastn n (lastn n xs @ [x]) = lastn n (xs @ [x])"
  by (cases "length xs < n") (auto simp: lastn_def Suc_diff_le)

lemma logLines_push: "logLines (pushLogLine l s) = lastn 200 (logLines s @ [l])"
  by (simp add: pushLogLine_def lastn_def Let_def)

lemma logLines_fold: "logLines s = lastn 200 xs \<Longrightarrow> logLines (fold pushLogLine ls s) = lastn 200 (xs @ ls)"
proof (induction ls arbitrary: s xs)
  case Nil
  then show ?case by simp
next
  case (Cons l ls)
  then have "logLines (pushLogLine l s) = lastn 200 (xs @ [l])" by (simp add: logLines_push lastn_snoc)
  from Cons.IH [OF this] show ?case by simp
qed

text \<open>
  The log is the tail of what the child wrote, however the pipe delivered it. When a
  pipe has been read to its end, in chunks of any sizes, the ring holds exactly the last 200
  lines of the text, and the view of the UI its last 30.
\<close>
theorem log_is_tail:
  "allLogs (pipeToLog [] (map (\<lambda>c. (c, False)) cs @ [(c, True)]) (s\<lparr>logLines := []\<rparr>))
       = lastn 200 (log_lines (concat cs @ c))
   \<and> fst (snd (snd (sp_snapshot now (pipeToLog [] (map (\<lambda>c. (c, False)) cs @ [(c, True)]) (s\<lparr>logLines := []\<rparr>)))))
       = lastn 30 (log_lines (concat cs @ c))"
proof -
  let ?s = "pipeToLog [] (map (\<lambda>c. (c, False)) cs @ [(c, True)]) (s\<lparr>logLines := []\<rparr>)"
  have "?s = fold pushLogLine (log_lines (concat cs @ c)) (s\<lparr>logLines := []\<rparr>)"
    using pipeToLog_lines_from [of "[]" cs c] by simp
  then have l: "logLines ?s = lastn 200 (log_lines (concat cs @ c))"
    using logLines_fold [of "s\<lparr>logLines := []\<rparr>" "[]"] by (simp add: lastn_def)
  have "lastn 30 (lastn 200 xs) = lastn 30 xs" for xs :: "string list"
    by (simp add: lastn_def) (rule arg_cong [where f = "\<lambda>n. drop n xs"], arith)
  moreover have "fst (snd (snd (sp_snapshot now ?s))) = lastn 30 (logLines ?s)"
    by (simp add: sp_snapshot_def Let_def lastn_def)
  ultimately show ?thesis using l by (simp add: allLogs_def)
qed

text \<open>
  The status \<open>connected\<close> is not left on a failure. Once a child is reported as
  connected, no lines keep it from being so reported, failures of the peer connection included,
  except those that announce a waiting owner or a selected path; after a relayed path was
  selected the same failure is reported.
\<close>
theorem connected_hides_failures:
  assumes "lastStatus s = ''connected''"
    and "\<forall>l \<in> set ls. \<not> Contains l ''waiting for viewer'' \<and> \<not> Contains l ''ice selected''"
    and "lastStatus t = ''connected (via relay)''"
  shows "lastStatus (fold pushLogLine ls s) = ''connected''
    \<and> lastStatus (pushLogLine ''pc state=failed'' t) = ''reconnecting''"
proof
  show "lastStatus (fold pushLogLine ls s) = ''connected''"
    using assms(1,2)
  proof (induction ls arbitrary: s)
    case Nil
    then show ?case by simp
  next
    case (Cons l ls)
    then have "lastStatus (pushLogLine l s) = ''connected''"
      by (simp add: pushLogLine_def status_after_def Let_def)
    with Cons show ?case by simp
  qed
next
  have "status_after ''pc state=failed'' ''connected (via relay)'' = ''reconnecting''" by code_simp
  then show "lastStatus (pushLogLine ''pc state=failed'' t) = ''reconnecting''"
    using assms(3) by (simp add: pushLogLine_def Let_def)
qed

definition fresh_child :: "string \<Rightarrow> subprocess" where
  "fresh_child st = \<lparr>sp_role = ''connect'', sp_room = ''abc234'', sp_dir = [], sp_localAddr = ''127.0.0.1:8080'',
     sp_started = 1, sp_cmd = Some 0, sp_mountPath = [], logLines = [], lastStatus = st\<rparr>"

theorem connected_hides_failures_witness:
  "lastStatus (fold pushLogLine [''pc state=failed'', ''pc state=closed''] (fresh_child ''connected'')) = ''connected''"
proof -
  have "\<not> Contains ''pc state=failed'' ''waiting for viewer''" "\<not> Contains ''pc state=failed'' ''ice selected''"
    "\<not> Contains ''pc state=closed'' ''waiting for viewer''" "\<not> Contains ''pc state=closed'' ''ice selected''"
    by code_simp+
  then show ?thesis
    using connected_hides_failures [of "fresh_child ''connected''" "[''pc state=failed'', ''pc state=closed'']"
        "fresh_child ''connected (via relay)''"]
    by (simp add: fresh_child_def)
qed

text \<open>A line that a pipe delivers after the process was stopped changes the status again.\<close>

lemma stopped_is_overwritten: "lastStatus (pushLogLine ''tunnel up'' s) = ''connected''"
proof -
  have "Contains ''tunnel up'' ''tunnel up''" "\<not> Contains ''tunnel up'' ''waiting for viewer''"
    "\<not> Contains ''tunnel up'' ''paired with owner''" "\<not> Contains ''tunnel up'' ''paired with viewer''"
    by code_simp+
  then show ?thesis by (simp add: pushLogLine_def status_after_def Let_def)
qed

end
