(* ===== verification/Claudy_Mount.thy ===== *)
theory Claudy_Mount
  imports Claudy_Log Go_Text Go_Format
begin

text \<open>
  Mounting in \<open>cmd/claudy/main.go\<close>. The operating system is an argument; a command that the code runs
  is a pair of a program and its arguments, and what it prints and returns comes from the
  environment. The commands are collected in the order in which they are run.
\<close>

datatype goos = darwin | windows | linux | other_os string

type_synonym command = "string \<times> string list"

record mount_env =
  me_LookPath_gio :: "error option"
  me_uid :: nat
  me_list :: "string \<times> error option"
  me_mount :: "string \<times> error option"

definition unmountBin :: "goos \<Rightarrow> string" where
  "unmountBin os = (case os of windows \<Rightarrow> ''net'' | linux \<Rightarrow> ''gio'' | _ \<Rightarrow> ''umount'')"

definition unmountArgs :: "goos \<Rightarrow> string \<Rightarrow> string list" where
  "unmountArgs os mountPath =
     (case os of
        windows \<Rightarrow> [''use'', mountPath, ''/delete'', ''/y'']
      | linux \<Rightarrow>
          (case Index mountPath ''dav:host='' of
             Some i \<Rightarrow>
               (case Cut (drop (i + length ''dav:host='') mountPath) '',port='' of
                  (host, port, ok) \<Rightarrow>
                    if ok then [''mount'', ''-u'', ''dav://'' @ host @ '':'' @ port @ ''/'']
                    else [''mount'', ''-u'', mountPath])
           | None \<Rightarrow> [''mount'', ''-u'', mountPath])
      | _ \<Rightarrow> [mountPath])"

fun net_use_drive :: "string list \<Rightarrow> string" where
  "net_use_drive [] = []"
| "net_use_drive (l # ls) =
     (let line = TrimSpace l
      in if HasPrefix line ''Drive '' \<and> 2 \<le> length (Fields line) then Fields line ! 1 else net_use_drive ls)"

definition parseNetUseDrive :: "string \<Rightarrow> string" where
  "parseNetUseDrive s = net_use_drive (split_on nl s)"

definition is_drive :: "string \<Rightarrow> bool" where
  "is_drive tok \<longleftrightarrow> length tok = 2 \<and> tok ! 1 = CHR '':''
     \<and> ((CHR ''A'' \<le> tok ! 0 \<and> tok ! 0 \<le> CHR ''Z'') \<or> (CHR ''a'' \<le> tok ! 0 \<and> tok ! 0 \<le> CHR ''z''))"

fun stale_drives :: "string list \<Rightarrow> string list" where
  "stale_drives [] = []"
| "stale_drives (line # ls) =
     (if \<not> Contains line ''127.0.0.1'' then stale_drives ls
      else
        (case find is_drive (Fields line) of
           None \<Rightarrow> stale_drives ls
         | Some drive \<Rightarrow> drive # stale_drives ls))"

definition cleanStaleClaudyDrives :: "string \<times> error option \<Rightarrow> command list" where
  "cleanStaleClaudyDrives res =
     (''net'', [''use''])
     # (if snd res \<noteq> None then []
        else map (\<lambda>d. (''net'', [''use'', d, ''/delete'', ''/y''])) (stale_drives (split_on nl (fst res))))"

definition set_mount :: "string \<Rightarrow> string \<Rightarrow> subprocess \<Rightarrow> subprocess" where
  "set_mount path line sp = pushLogLine line (sp\<lparr>sp_mountPath := path\<rparr>)"

definition cmd_error :: "string \<Rightarrow> string \<Rightarrow> error \<Rightarrow> error" where
  "cmd_error name out e = WrapError (name @ '': '' @ TrimSpace out @ '': '') e []"

definition gvfs_path :: "nat \<Rightarrow> string \<Rightarrow> string" where
  "gvfs_path uid localAddr =
     (case Cut localAddr '':'' of (host, port, ok) \<Rightarrow>
        ''/run/user/'' @ dec_string uid @ ''/gvfs/dav:host='' @ host @ '',port='' @ port)"

definition os_name :: "goos \<Rightarrow> string" where
  "os_name os = (case os of darwin \<Rightarrow> ''darwin'' | windows \<Rightarrow> ''windows'' | linux \<Rightarrow> ''linux'' | other_os n \<Rightarrow> n)"

definition mount :: "goos \<Rightarrow> mount_env \<Rightarrow> string \<Rightarrow> string \<Rightarrow> subprocess \<Rightarrow> error option \<times> command list \<times> subprocess" where
  "mount os env localAddr room sp =
     (let (out, err) = me_mount env in
      case os of
        darwin \<Rightarrow>
          (let path = ''/tmp/claudy-'' @ room;
               cmd = (''mount_webdav'', [''-v'', ''claudy-'' @ room, ''http://'' @ localAddr @ ''/'', path])
           in case err of
                Some e \<Rightarrow> (Some (cmd_error ''mount_webdav'' out e), [cmd], sp)
              | None \<Rightarrow> (None, [cmd, (''open'', [path])], set_mount path (''mounted at '' @ path) sp))
      | windows \<Rightarrow>
          (let clean = cleanStaleClaudyDrives (me_list env);
               cmd = (''net'', [''use'', ''*'', ''http://'' @ localAddr @ ''/'', ''/persistent:no''])
           in case err of
                Some e \<Rightarrow> (Some (cmd_error ''net use'' out e), clean @ [cmd], sp)
              | None \<Rightarrow>
                  (let drive = parseNetUseDrive out
                   in (None, clean @ [cmd] @ (if drive \<noteq> [] then [(''explorer'', [drive])] else []),
                       set_mount drive (''mounted as '' @ drive) sp)))
      | linux \<Rightarrow>
          (case me_LookPath_gio env of
             Some e \<Rightarrow>
               (Some (ErrorString (''gio not found; install glib-networking + gvfs-backends, or open http://''
                  @ localAddr @ '' in Files via '' @ [CHR 0x27] @ ''Connect to Server'' @ [CHR 0x27])), [], sp)
           | None \<Rightarrow>
               (let cmd = (''gio'', [''mount'', ''dav://'' @ localAddr @ ''/'']);
                    path = gvfs_path (me_uid env) localAddr
                in case err of
                     Some e \<Rightarrow> (Some (cmd_error ''gio mount'' out e), [cmd], sp)
                   | None \<Rightarrow> (None, [cmd, (''xdg-open'', [path])], set_mount path (''mounted at '' @ path) sp)))
      | other_os n \<Rightarrow>
          (Some (ErrorString (''automatic mount not supported on '' @ n @ ''; open http://'' @ localAddr @ '' manually'')),
           [], sp))"

subsection \<open>Properties\<close>

lemma HasPrefix_self: "HasPrefix (p @ t) p"
  by (simp add: HasPrefix_def)

lemma Index_first: "p = c # q \<Longrightarrow> c \<notin> set a \<Longrightarrow> Index (a @ p @ t) p = Some (length a)"
proof (induction a)
  case Nil
  then show ?case by (simp add: HasPrefix_def)
next
  case (Cons x a)
  then have "\<not> HasPrefix ((x # a) @ p @ t) p" by (auto simp: HasPrefix_def)
  with Cons show ?case by simp
qed

lemma Cut_first: "p = c # q \<Longrightarrow> c \<notin> set a \<Longrightarrow> Cut (a @ p @ t) p = (a, t, True)"
  using Index_first [of p c q a t] by (simp add: Cut_def)

lemma unmountArgs_gvfs:
  assumes "CHR ''d'' \<notin> set pre" and "CHR '','' \<notin> set host"
  shows "unmountArgs linux (pre @ ''dav:host='' @ host @ '',port='' @ port)
    = [''mount'', ''-u'', ''dav://'' @ host @ '':'' @ port @ ''/'']"
proof -
  have i: "Index (pre @ ''dav:host='' @ host @ '',port='' @ port) ''dav:host='' = Some (length pre)"
    using Index_first [of "''dav:host=''" "CHR ''d''" "''av:host=''" pre "host @ '',port='' @ port"] assms(1) by simp
  have c: "Cut (host @ '',port='' @ port) '',port='' = (host, port, True)"
    using Cut_first [of "'',port=''" "CHR '',''" "''port=''" host port] assms(2) by simp
  have d: "drop (length pre + length ''dav:host='') (pre @ ''dav:host='' @ r) = r" for r by simp
  show ?thesis
    by (simp only: unmountArgs_def goos.case i option.case d c prod.case if_True)
qed

text \<open>
  What was mounted with gio is unmounted by its own URL. For a proxy address
  \<open>host:port\<close>, a successful mount records a path from which the unmount command is rebuilt, and
  it names the URL that was mounted.
\<close>
lemma gio_unmount_names_mount:
  assumes "mount linux env (host @ '':'' @ port) room sp = (None, cmds, sp')"
    and "CHR '':'' \<notin> set host" and "CHR '','' \<notin> set host"
  shows "\<exists>url. (''gio'', [''mount'', url]) \<in> set cmds \<and> unmountBin linux = ''gio''
    \<and> unmountArgs linux (sp_mountPath sp') = [''mount'', ''-u'', url]"
proof -
  let ?pre = "''/run/user/'' @ dec_string (me_uid env) @ ''/gvfs/''"
  have path: "gvfs_path (me_uid env) (host @ '':'' @ port) = ?pre @ ''dav:host='' @ host @ '',port='' @ port"
    using Cut_first [of "'':''" "CHR '':''" "[]" host port] assms(2) by (simp add: gvfs_path_def)
  have sp: "sp_mountPath sp' = gvfs_path (me_uid env) (host @ '':'' @ port)"
    and cmd: "(''gio'', [''mount'', ''dav://'' @ host @ '':'' @ port @ ''/'']) \<in> set cmds"
    using assms(1) by (auto simp: mount_def set_mount_def pushLogLine_def Let_def split: option.splits prod.splits)
  have d: "CHR ''d'' \<notin> set ?pre" using dec_string_digits [of "me_uid env"] by auto
  have "unmountArgs linux (sp_mountPath sp') = [''mount'', ''-u'', ''dav://'' @ host @ '':'' @ port @ ''/'']"
    using unmountArgs_gvfs [OF d assms(3), of port] by (simp only: sp path append_assoc)
  with cmd show ?thesis by (auto simp: unmountBin_def)
qed

text \<open>Only drives on a line that mentions the local host are removed, each by a drive letter.\<close>

lemma stale_drives_local:
  "d \<in> set (stale_drives ls) \<Longrightarrow> is_drive d \<and> (\<exists>l \<in> set ls. Contains l ''127.0.0.1'' \<and> d \<in> set (Fields l))"
proof (induction ls)
  case Nil
  then show ?case by simp
next
  case (Cons l ls)
  then show ?case
  proof (cases "find is_drive (Fields l)")
    case None
    with Cons show ?thesis by (auto split: if_splits)
  next
    case (Some e)
    then have "is_drive e \<and> e \<in> set (Fields l)" by (auto simp: find_Some_iff)
    with Some Cons show ?thesis by (auto split: if_splits)
  qed
qed

text \<open>A host whose address only starts like the local one is taken for it.\<close>

lemma stale_drives_other_host: "stale_drives [''OK Y: //127.0.0.100/share''] = [''Y:'']"
  by code_simp

text \<open>A Windows that does not speak English prints no \<open>Drive\<close>: the path stays empty, and nothing is unmounted.\<close>

lemma net_use_other_locale: "parseNetUseDrive ''Laufwerk Z: ist jetzt verbunden.'' = []"
  by code_simp

end
