(* ===== verification/Claudy_Files.thy ===== *)
theory Claudy_Files
  imports Claudy_Log Go_Text
begin

text \<open>
  The file browser of \<open>cmd/claudy/files.go\<close> and the upload handler. The HTTP client is a
  parameter, a record of \<open>http.NewRequest\<close> and \<open>Do\<close>; a response carries what the decoder of its
  XML body yields. The library's functions on dates and on MIME types are parameters too.
\<close>

record FileEntry =
  fe_Name :: string
  fe_Size :: int
  fe_Modified :: string
  fe_IsDir :: bool

record FilesList =
  fl_Path :: string
  fl_Entries :: "FileEntry list"

record davProp =
  DisplayName :: string
  Collection :: bool
  ContentLength :: string
  LastModified :: string

record davPropstat =
  ps_Prop :: davProp
  ps_Status :: string

record davResponse =
  Href :: string
  Propstat :: "davPropstat list"

record http_response =
  StatusCode :: nat
  StatusText :: string
  h_ContentType :: string
  h_ContentLength :: string
  multistatus :: "error + davResponse list"
  content :: string

record http_client =
  NewRequest :: "string \<Rightarrow> string \<Rightarrow> error option"
  Do :: "string \<Rightarrow> string \<Rightarrow> string \<Rightarrow> error + http_response"

definition connectURL :: "subprocess option \<Rightarrow> string \<Rightarrow> error + string" where
  "connectURL connect p =
     (case connect of
        None \<Rightarrow> Inl (ErrorString (''not connected '' @ [CHR 0xE2, CHR 0x80, CHR 0x94] @ '' start Connect first''))
      | Some sp \<Rightarrow>
          if sp_localAddr sp = [] then Inl (ErrorString ''local proxy not yet listening'')
          else
            let p1 = (if p = [] then ''/'' else p);
                p2 = (if \<not> HasPrefix p1 ''/'' then CHR ''/'' # p1 else p1);
                parts = map PathEscape (split_on (CHR ''/'') p2)
            in Inr (''http://'' @ sp_localAddr sp @ join_with (CHR ''/'') parts))"

definition canonical_path :: "string \<Rightarrow> string" where
  "canonical_path p =
     (let q = path_Clean (CHR ''/'' # TrimSuffix (TrimPrefix p ''/'') ''/'') in if q = [] then ''/'' else q)"

definition zero_prop :: davProp where
  "zero_prop = \<lparr>DisplayName = [], Collection = False, ContentLength = [], LastModified = []\<rparr>"

text \<open>The dates: RFC 1123 with a zone name or number, rewritten to RFC 3339.\<close>

type_synonym dates = "(string \<Rightarrow> string option) \<times> (string \<Rightarrow> string option)"

definition reformat :: "dates \<Rightarrow> string \<Rightarrow> string" where
  "reformat ds m =
     (if m = [] then []
      else (case fst ds m of Some t \<Rightarrow> t
            | None \<Rightarrow> (case snd ds m of Some t \<Rightarrow> t | None \<Rightarrow> m)))"

definition href_path :: "string \<Rightarrow> string" where
  "href_path h =
     (let href = (case PathUnescape h of None \<Rightarrow> h | Some x \<Rightarrow> x)
      in path_Clean (CHR ''/'' # TrimSuffix (TrimPrefix href ''/'') ''/''))"

definition file_entry :: "dates \<Rightarrow> davResponse \<Rightarrow> FileEntry" where
  "file_entry ds r =
     (let pr = (case find (\<lambda>ps. Contains (ps_Status ps) ''200'') (Propstat r) of
                  None \<Rightarrow> zero_prop | Some ps \<Rightarrow> ps_Prop ps)
      in \<lparr>fe_Name = (if DisplayName pr = [] then path_Base (href_path (Href r)) else DisplayName pr),
          fe_Size = ParseInt (ContentLength pr), fe_Modified = reformat ds (LastModified pr),
          fe_IsDir = Collection pr\<rparr>)"

fun list_entries :: "dates \<Rightarrow> string \<Rightarrow> davResponse list \<Rightarrow> FileEntry list" where
  "list_entries ds canon [] = []"
| "list_entries ds canon (r # rs) =
     (if href_path (Href r) = canon then list_entries ds canon rs
      else file_entry ds r # list_entries ds canon rs)"

definition propfind_body :: string where
  "propfind_body = ''<?xml version=\"1.0\" encoding=\"utf-8\"?><D:propfind xmlns:D=\"DAV:\"><D:allprop/></D:propfind>''"

definition listFiles :: "http_client \<Rightarrow> dates \<Rightarrow> subprocess option \<Rightarrow> string \<Rightarrow> error + FilesList" where
  "listFiles cl ds connect p =
     (case connectURL connect p of
        Inl e \<Rightarrow> Inl e
      | Inr u \<Rightarrow>
          (case NewRequest cl ''PROPFIND'' u of
             Some e \<Rightarrow> Inl e
           | None \<Rightarrow>
               (case Do cl ''PROPFIND'' u propfind_body of
                  Inl e \<Rightarrow> Inl (WrapError ''PROPFIND: '' e [])
                | Inr resp \<Rightarrow>
                    if StatusCode resp \<noteq> 207 then Inl (ErrorString (''PROPFIND returned '' @ StatusText resp))
                    else
                      (case multistatus resp of
                         Inl e \<Rightarrow> Inl (WrapError ''decode multistatus: '' e [])
                       | Inr rs \<Rightarrow>
                           Inr \<lparr>fl_Path = canonical_path p, fl_Entries = list_entries ds (canonical_path p) rs\<rparr>))))"

text \<open>A request whose answer is a status only: PUT, MKCOL and DELETE.\<close>

definition simple_request :: "http_client \<Rightarrow> string \<Rightarrow> string \<Rightarrow> subprocess option \<Rightarrow> string \<Rightarrow> error + http_response" where
  "simple_request cl method body connect p =
     (case connectURL connect p of
        Inl e \<Rightarrow> Inl e
      | Inr u \<Rightarrow>
          (case NewRequest cl method u of
             Some e \<Rightarrow> Inl e
           | None \<Rightarrow>
               (case Do cl method u body of
                  Inl e \<Rightarrow> Inl (WrapError (method @ '': '') e [])
                | Inr resp \<Rightarrow> Inr resp)))"

definition status_error :: "string \<Rightarrow> string \<Rightarrow> http_response \<Rightarrow> error option" where
  "status_error method p resp =
     (if 400 \<le> StatusCode resp then Some (ErrorString (method @ '' '' @ p @ '': '' @ StatusText resp)) else None)"

definition uploadFile :: "http_client \<Rightarrow> subprocess option \<Rightarrow> string \<Rightarrow> string \<Rightarrow> error option" where
  "uploadFile cl connect p body =
     (case simple_request cl ''PUT'' body connect p of
        Inl e \<Rightarrow> Some e | Inr resp \<Rightarrow> status_error ''PUT'' p resp)"

definition mkdir :: "http_client \<Rightarrow> subprocess option \<Rightarrow> string \<Rightarrow> error option" where
  "mkdir cl connect p =
     (case simple_request cl ''MKCOL'' [] connect p of
        Inl e \<Rightarrow> Some e
      | Inr resp \<Rightarrow> if StatusCode resp = 405 then None else status_error ''MKCOL'' p resp)"

definition rm :: "http_client \<Rightarrow> subprocess option \<Rightarrow> string \<Rightarrow> error option" where
  "rm cl connect p =
     (case simple_request cl ''DELETE'' [] connect p of
        Inl e \<Rightarrow> Some e | Inr resp \<Rightarrow> status_error ''DELETE'' p resp)"

text \<open>\<open>path.Ext\<close>, and what \<open>downloadFile\<close> writes: the headers and the body.\<close>

definition path_Ext :: "string \<Rightarrow> string" where
  "path_Ext p =
     (let name = last (split_on (CHR ''/'') p)
      in if CHR ''.'' \<in> set name then CHR ''.'' # last (split_on (CHR ''.'') name) else [])"

record download =
  dl_ContentType :: string
  dl_Disposition :: string
  dl_ContentLength :: "string option"
  dl_body :: string

definition downloadFile :: "http_client \<Rightarrow> (string \<Rightarrow> string) \<Rightarrow> subprocess option \<Rightarrow> string \<Rightarrow> error + download" where
  "downloadFile cl TypeByExtension connect p =
     (case connectURL connect p of
        Inl e \<Rightarrow> Inl e
      | Inr u \<Rightarrow>
          (case Do cl ''GET'' u [] of
             Inl e \<Rightarrow> Inl (WrapError ''GET: '' e [])
           | Inr resp \<Rightarrow>
               if StatusCode resp \<noteq> 200 then Inl (ErrorString (''GET '' @ p @ '': '' @ StatusText resp))
               else
                 let filename = path_Base p;
                     byExt = TypeByExtension (path_Ext filename);
                     contentType = (if h_ContentType resp \<noteq> [] then h_ContentType resp
                       else if byExt \<noteq> [] then byExt else ''application/octet-stream'')
                 in Inr \<lparr>dl_ContentType = contentType,
                      dl_Disposition = ''attachment; filename*=UTF-8'' @ [CHR 0x27, CHR 0x27] @ PathEscape filename,
                      dl_ContentLength = (if h_ContentLength resp \<noteq> [] then Some (h_ContentLength resp) else None),
                      dl_body = content resp\<rparr>))"

subsection \<open>Uploading\<close>

text \<open>
  A part of the multipart body, or the error that reading it yields; the end of the list is
  \<open>io.EOF\<close>. \<open>filepath.Base\<close> is that of Unix. The result is the number of files or the
  status and text of the error.
\<close>

datatype upload_part = BadPart error | Part string string string

fun upload_parts :: "http_client \<Rightarrow> subprocess option \<Rightarrow> string \<Rightarrow> upload_part list \<Rightarrow> nat \<Rightarrow> (nat \<times> error) + nat" where
  "upload_parts cl connect dir [] uploaded = Inr uploaded"
| "upload_parts cl connect dir (BadPart e # ps) uploaded = Inl (400, e)"
| "upload_parts cl connect dir (Part form filename body # ps) uploaded =
     (if form \<noteq> ''file'' then upload_parts cl connect dir ps uploaded
      else if filename = [] then upload_parts cl connect dir ps uploaded
      else
        (case uploadFile cl connect (dir @ path_Base filename) body of
           Some e \<Rightarrow> Inl (500, e)
         | None \<Rightarrow> upload_parts cl connect dir ps (uploaded + 1)))"

definition upload_dir :: "string \<Rightarrow> string" where
  "upload_dir p =
     (let d = (if p = [] then ''/'' else p) in if \<not> HasSuffix d ''/'' then d @ ''/'' else d)"

subsection \<open>Properties\<close>

text \<open>
  Property C37: the URL of a file names that file. If \<open>connectURL\<close> succeeds, the URL is the one of
  the local proxy followed by a path that starts with a slash, contains no separator of a
  query or a fragment, and unescapes to exactly the requested path, whatever bytes are in
  it.
\<close>
theorem connectURL_names_path:
  assumes "connectURL (Some sp) p = Inr u"
  shows "\<exists>path. u = ''http://'' @ sp_localAddr sp @ path \<and> CHR ''?'' \<notin> set path \<and> CHR ''#'' \<notin> set path
    \<and> take 1 path = ''/''
    \<and> PathUnescape path = Some (if take 1 p = ''/'' then p else CHR ''/'' # p)"
proof -
  let ?q = "if take 1 p = ''/'' then p else CHR ''/'' # p"
  let ?path = "join_with (CHR ''/'') (map PathEscape (split_on (CHR ''/'') ?q))"
  have u: "u = ''http://'' @ sp_localAddr sp @ ?path"
    using assms by (cases "p = []") (auto simp: connectURL_def HasPrefix_def Let_def split: if_splits)
  have "set ?path \<subseteq> insert (CHR ''/'') (\<Union> (set ` set (map PathEscape (split_on (CHR ''/'') ?q))))"
    using set_join_with by fastforce
  moreover have "CHR ''?'' \<notin> set (PathEscape w)" "CHR ''#'' \<notin> set (PathEscape w)" for w
    using escape_no_separator [of w] by auto
  ultimately have sep: "CHR ''?'' \<notin> set ?path" "CHR ''#'' \<notin> set ?path" by auto
  have un: "PathUnescape ?path = Some ?q" by (simp only: unescape_join join_split)
  obtain r where r: "?q = CHR ''/'' # r"
    by (cases "take 1 p = ''/''") (use that in \<open>cases p; auto\<close>)+
  obtain v vs where "split_on (CHR ''/'') r = v # vs" by (cases "split_on (CHR ''/'') r") auto
  then have "split_on (CHR ''/'') ?q = [] # v # vs" using r by simp
  then have "take 1 ?path = ''/''" by (simp only: list.map PathEscape_def join_with.simps) simp
  with u sep un show ?thesis by blast
qed

theorem connectURL_names_path_witness:
  "connectURL (Some (fresh_child ''connected'')) ''a?b c/#'' = Inr ''http://127.0.0.1:8080/a%3Fb%20c/%23''
     \<and> PathUnescape ''/a%3Fb%20c/%23'' = Some ''/a?b c/#''"
proof -
  have c: "connectURL (Some (fresh_child ''connected'')) ''a?b c/#'' = Inr ''http://127.0.0.1:8080/a%3Fb%20c/%23''"
    by code_simp
  from connectURL_names_path [OF c] c show ?thesis by (auto simp: fresh_child_def)
qed

text \<open>The listing is that of the children: the answers in their order, without the folder itself.\<close>

lemma list_entries_filter:
  "list_entries ds canon rs = map (file_entry ds) [r \<leftarrow> rs. href_path (Href r) \<noteq> canon]"
  by (induction rs) auto

text \<open>
  The name of an uploaded file is cut to its last component, but \<open>..\<close> is one: the target is then
  the parent of the chosen folder.
\<close>

lemma upload_target_dotdot: "upload_dir ''/pub'' @ path_Base ''..'' = ''/pub/..''"
  by code_simp

lemma upload_target_base: "upload_dir ''/pub'' @ path_Base ''../../x'' = ''/pub/x''"
  by code_simp

text \<open>Creating a directory that exists is no error, removing a file that does not is one.\<close>

lemma mkdir_exists: "simple_request cl ''MKCOL'' [] connect p = Inr resp \<Longrightarrow> StatusCode resp = 405 \<Longrightarrow> mkdir cl connect p = None"
  by (simp add: mkdir_def)

lemma rm_missing: "simple_request cl ''DELETE'' [] connect p = Inr resp \<Longrightarrow> StatusCode resp = 404 \<Longrightarrow> rm cl connect p \<noteq> None"
  by (simp add: rm_def status_error_def)

end
