(* ===== verification/Claudy_App.thy ===== *)
theory Claudy_App
  imports Claudy_Mount Claudy_Files "HOL-Library.AList"
begin

text \<open>
  The controller of \<open>cmd/claudy/main.go\<close>. Children are mutable and shared by pointer, so the
  state holds a heap of them; the pointer of a child is also its process number. A Go map is
  an association list whose order stands for its iteration order. \<open>a_running\<close> is what the
  operating system knows: the children that are alive. \<open>a_cmds\<close> collects the commands run.
\<close>

record app =
  a_connect :: "nat option"
  a_shareDir :: string
  a_slots :: "(string \<times> nat) list"
  a_forceRelay :: bool
  a_procs :: "nat \<Rightarrow> subprocess option"
  a_running :: "nat set"
  a_next :: nat
  a_cmds :: "command list"

definition newAppState :: app where
  "newAppState = \<lparr>a_connect = None, a_shareDir = [], a_slots = [], a_forceRelay = False,
     a_procs = Map.empty, a_running = {}, a_next = 0, a_cmds = []\<rparr>"

subsection \<open>Rooms\<close>

definition alphabet :: string where
  "alphabet = ''abcdefghjkmnpqrstuvwxyz23456789''"

definition lcg :: "64 word \<Rightarrow> 64 word" where
  "lcg now = now * 6364136223846793005 + 1442695040888963407"

fun room_chars :: "nat \<Rightarrow> 64 word \<Rightarrow> string" where
  "room_chars 0 now = []"
| "room_chars (Suc n) now =
     (let now1 = lcg now in alphabet ! (unat (drop_bit 32 now1) mod length alphabet) # room_chars n now1)"

definition randomRoom :: "64 word \<Rightarrow> string" where
  "randomRoom now = room_chars 6 now"

definition normalize_room :: "string \<Rightarrow> string" where
  "normalize_room room = ToLower (TrimSpace room)"

subsection \<open>Children\<close>

record launch_env =
  le_stdout :: "error option"
  le_stderr :: "error option"
  le_start :: "error option"

definition launch :: "launch_env \<Rightarrow> string \<Rightarrow> string list \<Rightarrow> subprocess \<Rightarrow> app \<Rightarrow> (error + nat) \<times> app" where
  "launch le bin args sp a =
     (case le_stdout le of
        Some e \<Rightarrow> (Inl (WrapError ''stdout pipe: '' e []), a)
      | None \<Rightarrow>
          (case le_stderr le of
             Some e \<Rightarrow> (Inl (WrapError ''stderr pipe: '' e []), a)
           | None \<Rightarrow>
               (case le_start le of
                  Some e \<Rightarrow> (Inl (WrapError ''spawn: '' e []), a)
                | None \<Rightarrow>
                    (Inr (a_next a),
                     a\<lparr>a_procs := (a_procs a)(a_next a \<mapsto> sp\<lparr>sp_cmd := Some (a_next a)\<rparr>),
                       a_running := insert (a_next a) (a_running a), a_next := Suc (a_next a),
                       a_cmds := a_cmds a @ [(bin, args)]\<rparr>))))"

definition with_proc :: "nat \<Rightarrow> (subprocess \<Rightarrow> subprocess) \<Rightarrow> app \<Rightarrow> app" where
  "with_proc p f a = a\<lparr>a_procs := (a_procs a)(p := map_option f (a_procs a p))\<rparr>"

text \<open>The goroutine that waits for the exit of a child.\<close>

definition proc_exit :: "nat \<Rightarrow> error option \<Rightarrow> app \<Rightarrow> app" where
  "proc_exit p err a =
     (let a1 = with_proc p (\<lambda>sp. sp\<lparr>sp_cmd := None, lastStatus := ''stopped''\<rparr>)
                 (a\<lparr>a_running := a_running a - {p}\<rparr>)
      in (case err of None \<Rightarrow> a1
          | Some e \<Rightarrow> with_proc p (pushLogLine (''child exited: '' @ err_text e)) a1))"

text \<open>\<open>stop\<close>: the signal, and the kill if that does not help within three seconds.\<close>

definition sp_stop :: "nat \<Rightarrow> app \<Rightarrow> app" where
  "sp_stop p a =
     (let cmd = Option.bind (a_procs a p) sp_cmd;
          a1 = with_proc p (\<lambda>sp. sp\<lparr>sp_cmd := None, lastStatus := ''stopped''\<rparr>) a
      in (case cmd of None \<Rightarrow> a1 | Some pid \<Rightarrow> a1\<lparr>a_running := a_running a1 - {pid}\<rparr>))"

definition waitForStatus :: "(string \<Rightarrow> bool) \<Rightarrow> string list \<Rightarrow> bool" where
  "waitForStatus pred polls = list_ex pred polls"

subsection \<open>The share side\<close>

definition startShare :: "(string \<Rightarrow> string) \<Rightarrow> error + string \<Rightarrow> bool \<Rightarrow> string \<Rightarrow> app \<Rightarrow> error option \<times> app" where
  "startShare quote absdir isDir dir a =
     (if dir = [] then (Some (ErrorString ''dir is required''), a)
      else
        (case absdir of
           Inl e \<Rightarrow> (Some (WrapError ''resolve dir: '' e []), a)
         | Inr ab \<Rightarrow>
             if \<not> isDir then (Some (ErrorString (quote ab @ '' is not a directory'')), a)
             else (None, a\<lparr>a_shareDir := ab\<rparr>)))"

definition owner_args :: "string \<Rightarrow> bool \<Rightarrow> string \<Rightarrow> string \<Rightarrow> string list" where
  "owner_args signalURL forceRelay room dir =
     [''-signal'', signalURL, ''-room'', room, ''-dir'', dir, ''-peer-alias'', ''viewer-'' @ room]
     @ (if forceRelay then [''-force-relay''] else [])"

text \<open>The two critical sections of \<open>addViewer\<close> with the launch between them.\<close>

definition addViewer_launch :: "launch_env \<Rightarrow> string \<Rightarrow> string \<Rightarrow> 64 word \<Rightarrow> app \<Rightarrow> (error + string \<times> nat) \<times> app" where
  "addViewer_launch le ownerBin signalURL now a =
     (let dir = a_shareDir a in
      if dir = [] then (Inl (ErrorString ''no folder selected; call /api/share/start first''), a)
      else
        let room = randomRoom now;
            sp = \<lparr>sp_role = ''share'', sp_room = room, sp_dir = dir, sp_localAddr = [], sp_started = sint now,
                   sp_cmd = None, sp_mountPath = [], logLines = [], lastStatus = ''starting''\<rparr>
        in (case launch le ownerBin (owner_args signalURL (a_forceRelay a) room dir) sp a of
              (Inl e, a1) \<Rightarrow> (Inl e, a1)
            | (Inr p, a1) \<Rightarrow> (Inr (room, p), a1)))"

definition addViewer_insert :: "string \<Rightarrow> nat \<Rightarrow> app \<Rightarrow> app" where
  "addViewer_insert room p a = a\<lparr>a_slots := AList.update room p (a_slots a)\<rparr>"

definition addViewer :: "launch_env \<Rightarrow> string \<Rightarrow> string \<Rightarrow> 64 word \<Rightarrow> app \<Rightarrow> (error + string) \<times> app" where
  "addViewer le ownerBin signalURL now a =
     (case addViewer_launch le ownerBin signalURL now a of
        (Inl e, a1) \<Rightarrow> (Inl e, a1)
      | (Inr (room, p), a1) \<Rightarrow> (Inr room, addViewer_insert room p a1))"

definition removeViewer :: "string \<Rightarrow> app \<Rightarrow> app" where
  "removeViewer room a =
     (let sp = map_of (a_slots a) room;
          a1 = a\<lparr>a_slots := AList.delete room (a_slots a)\<rparr>
      in (case sp of None \<Rightarrow> a1 | Some p \<Rightarrow> sp_stop p a1))"

definition stopShare :: "app \<Rightarrow> app" where
  "stopShare a =
     fold (\<lambda>(room, p). sp_stop p) (a_slots a) (a\<lparr>a_slots := [], a_shareDir := []\<rparr>)"

subsection \<open>The connect side\<close>

definition client_args :: "string \<Rightarrow> bool \<Rightarrow> string \<Rightarrow> string \<Rightarrow> string list" where
  "client_args signalURL forceRelay room localAddr =
     [''-signal'', signalURL, ''-room'', room, ''-local'', localAddr, ''-peer-alias'', ''owner-'' @ room]
     @ (if forceRelay then [''-force-relay''] else [])"

definition startConnect_check :: "(string \<Rightarrow> string) \<Rightarrow> app \<Rightarrow> error option" where
  "startConnect_check quote a =
     (case a_connect a of
        None \<Rightarrow> None
      | Some p \<Rightarrow>
          Some (ErrorString (''already connected to ''
            @ quote (case a_procs a p of None \<Rightarrow> [] | Some sp \<Rightarrow> sp_room sp))))"

definition startConnect_launch :: "launch_env \<Rightarrow> string \<Rightarrow> string \<Rightarrow> int \<Rightarrow> nat \<Rightarrow> string \<Rightarrow> app \<Rightarrow> (error + nat) \<times> app" where
  "startConnect_launch le clientBin signalURL now port room0 a =
     (let room = normalize_room room0 in
      if room = [] then (Inl (ErrorString ''room code is required''), a)
      else
        let localAddr = ''127.0.0.1:'' @ dec_string port;
            sp = \<lparr>sp_role = ''connect'', sp_room = room, sp_dir = [], sp_localAddr = localAddr, sp_started = now,
                   sp_cmd = None, sp_mountPath = [], logLines = [], lastStatus = ''starting''\<rparr>
        in launch le clientBin (client_args signalURL (a_forceRelay a) room localAddr) sp a)"

definition startConnect_insert :: "nat \<Rightarrow> app \<Rightarrow> app" where
  "startConnect_insert p a = a\<lparr>a_connect := Some p\<rparr>"

definition startConnect :: "(string \<Rightarrow> string) \<Rightarrow> launch_env \<Rightarrow> string \<Rightarrow> string \<Rightarrow> int \<Rightarrow> nat \<Rightarrow> string \<Rightarrow> app
    \<Rightarrow> error option \<times> app" where
  "startConnect quote le clientBin signalURL now port room a =
     (case startConnect_check quote a of
        Some e \<Rightarrow> (Some e, a)
      | None \<Rightarrow>
          (case startConnect_launch le clientBin signalURL now port room a of
             (Inl e, a1) \<Rightarrow> (Some e, a1)
           | (Inr p, a1) \<Rightarrow> (None, startConnect_insert p a1)))"

definition stopConnect :: "goos \<Rightarrow> app \<Rightarrow> app" where
  "stopConnect os a =
     (case a_connect a of
        None \<Rightarrow> a
      | Some p \<Rightarrow>
          (let a1 = a\<lparr>a_connect := None\<rparr>;
               mountPath = (case a_procs a1 p of None \<Rightarrow> [] | Some sp \<Rightarrow> sp_mountPath sp);
               a2 = (if mountPath \<noteq> []
                     then a1\<lparr>a_cmds := a_cmds a1 @ [(unmountBin os, unmountArgs os mountPath)]\<rparr> else a1)
           in sp_stop p a2))"

definition stopAll :: "goos \<Rightarrow> app \<Rightarrow> app" where
  "stopAll os a = stopShare (stopConnect os a)"

text \<open>
  The mount supervisor: one element per round of its loop, with the states that its poll for a
  connection sees in 60 seconds and what the mount does; the list ends at the deadline.
\<close>

record round_env =
  re_polls :: "string list"
  re_mount :: mount_env

definition connected_state :: "string \<Rightarrow> bool" where
  "connected_state st \<longleftrightarrow> st = ''connected'' \<or> st = ''connected (via relay)''"

fun mount_supervisor :: "goos \<Rightarrow> string \<Rightarrow> string \<Rightarrow> nat \<Rightarrow> round_env list \<Rightarrow> app \<Rightarrow> app" where
  "mount_supervisor os localAddr room p [] a =
     with_proc p (pushLogLine ''mount supervisor giving up after 5 minutes'') a"
| "mount_supervisor os localAddr room p (r # rs) a =
     (if a_connect a \<noteq> Some p then a
      else if \<not> waitForStatus connected_state (re_polls r)
      then mount_supervisor os localAddr room p rs
             (with_proc p (pushLogLine (''waiting for tunnel '' @ [CHR 0xE2, CHR 0x80, CHR 0x94] @ '' still trying to mount'')) a)
      else
        (case a_procs a p of
           None \<Rightarrow> a
         | Some sp \<Rightarrow>
             if sp_mountPath sp \<noteq> [] then a
             else
               (case mount os (re_mount r) localAddr room sp of
                  (Some err, cmds, sp1) \<Rightarrow>
                    mount_supervisor os localAddr room p rs
                      (with_proc p (\<lambda>_. pushLogLine (''mount attempt failed: '' @ err_text err @ '' ''
                           @ [CHR 0xE2, CHR 0x80, CHR 0x94] @ '' will retry on next reconnect'') sp1)
                        (a\<lparr>a_cmds := a_cmds a @ cmds\<rparr>))
                | (None, cmds, sp1) \<Rightarrow> with_proc p (\<lambda>_. sp1) (a\<lparr>a_cmds := a_cmds a @ cmds\<rparr>))))"

end
