(* ===== verification/Claudy_App_Run.thy ===== *)
theory Claudy_App_Run
  imports Claudy_App
begin

text \<open>
  What holds of the controller of \<open>cmd/claudy\<close> over its runs: which children are alive, and which
  of them it knows.
\<close>

subsection \<open>Room codes\<close>

lemma alphabet_code:
  "\<forall>c \<in> set alphabet. ToLower (ToUpper [c]) = [c] \<and> hd (ToUpper [c]) \<notin> hd ` set white_space
     \<and> hd (ToUpper [c]) \<notin> last ` set white_space"
  by code_simp

lemma room_chars_alphabet: "set (room_chars n now) \<subseteq> set alphabet"
proof (induction n arbitrary: now)
  case 0
  then show ?case by simp
next
  case (Suc n)
  have "alphabet ! (unat (drop_bit 32 (lcg now)) mod length alphabet) \<in> set alphabet"
    by (intro nth_mem mod_less_divisor) (simp add: alphabet_def)
  with Suc show ?case by (simp add: Let_def)
qed

lemma length_room_chars: "length (room_chars n now) = n"
  by (induction n arbitrary: now) (simp_all add: Let_def)

text \<open>
  A room code survives being dictated. Whatever the clock says, the code that a share
  draws is found again when the friend types it in capitals, with any white space around it.
\<close>
theorem room_code_dictated:
  assumes "set as \<subseteq> set white_space" and "set bs \<subseteq> set white_space"
  shows "normalize_room (concat as @ ToUpper (randomRoom now) @ concat bs) = randomRoom now"
proof -
  let ?u = "ToUpper (randomRoom now)"
  have chars: "ToLower (ToUpper [c]) = [c] \<and> hd (ToUpper [c]) \<notin> hd ` set white_space
      \<and> hd (ToUpper [c]) \<notin> last ` set white_space" if "c \<in> set (randomRoom now)" for c
    using that room_chars_alphabet [of 6 now] alphabet_code unfolding randomRoom_def by blast
  have ne: "randomRoom now \<noteq> []" using length_room_chars [of 6 now] by (auto simp: randomRoom_def)
  have first: "hd (ToUpper s) = hd (ToUpper [hd s])" and final: "last (ToUpper s) = hd (ToUpper [last s])" if "s \<noteq> []" for s
    using that by (simp_all add: ToUpper_def hd_map last_map)
  have "hd ?u \<notin> hd ` set white_space" using first [OF ne] chars [of "hd (randomRoom now)"] ne by simp
  moreover have "last ?u \<notin> last ` set white_space" using final [OF ne] chars [of "last (randomRoom now)"] ne by simp
  moreover have "?u \<noteq> []" using ne by (simp add: ToUpper_def)
  ultimately have "TrimSpace (concat as @ ?u @ concat bs) = ?u" using TrimSpace_pad assms by blast
  moreover have "ToLower (ToUpper s) = s" if "\<forall>c \<in> set s. ToLower (ToUpper [c]) = [c]" for s
    using that
  proof (induction s)
    case Nil
    then show ?case by (simp add: ToLower_def ToUpper_def)
  next
    case (Cons x s)
    have "ToLower (ToUpper (x # s)) = ToLower (ToUpper [x]) @ ToLower (ToUpper s)"
      by (simp only: ToLower_def ToUpper_def list.map append.simps)
    also have "\<dots> = x # s" using Cons by simp
    finally show ?case .
  qed
  ultimately show ?thesis using chars by (simp only: normalize_room_def) blast
qed

theorem room_code_dictated_witness:
  "normalize_room ('' '' @ ToUpper (randomRoom 42) @ [CHR 0xC2, CHR 0xA0]) = randomRoom 42 \<and> length (randomRoom 42) = 6"
  using room_code_dictated [of "['' '']" "[[CHR 0xC2, CHR 0xA0]]" 42] length_room_chars [of 6 42]
  by (simp add: white_space_def randomRoom_def)

subsection \<open>Which children are alive\<close>

text \<open>A handle is the child's own, and a child that is alive has one.\<close>

definition app_ok :: "app \<Rightarrow> bool" where
  "app_ok a \<longleftrightarrow>
     (\<forall>p sp. a_procs a p = Some sp \<longrightarrow> p < a_next a \<and> sp_cmd sp \<in> {None, Some p})
     \<and> (\<forall>p \<in> a_running a. \<exists>sp. a_procs a p = Some sp \<and> sp_cmd sp = Some p)"

definition known :: "app \<Rightarrow> nat set" where
  "known a = snd ` set (a_slots a) \<union> set_option (a_connect a)"

lemma app_ok_running_less: "app_ok a \<Longrightarrow> p \<in> a_running a \<Longrightarrow> p < a_next a"
  by (auto simp: app_ok_def)

lemma with_proc_simps [simp]:
  "a_running (with_proc p f a) = a_running a" "a_slots (with_proc p f a) = a_slots a"
  "a_connect (with_proc p f a) = a_connect a" "a_next (with_proc p f a) = a_next a"
  "a_shareDir (with_proc p f a) = a_shareDir a"
  by (simp_all add: with_proc_def)

lemma with_proc_ok:
  assumes "app_ok a" and "\<And>sp. a_procs a p = Some sp \<Longrightarrow> sp_cmd (f sp) = sp_cmd sp"
  shows "app_ok (with_proc p f a)"
  using assms by (fastforce simp: app_ok_def with_proc_def)

lemma sp_cmd_push [simp]: "sp_cmd (pushLogLine l sp) = sp_cmd sp"
  by (simp add: pushLogLine_def Let_def)

lemma proc_exit_ok:
  assumes "app_ok a"
  shows "app_ok (proc_exit p err a)"
proof -
  have "app_ok (with_proc p (\<lambda>sp. sp\<lparr>sp_cmd := None, lastStatus := ''stopped''\<rparr>) (a\<lparr>a_running := a_running a - {p}\<rparr>))"
    using assms by (fastforce simp: app_ok_def with_proc_def)
  then show ?thesis by (auto simp: proc_exit_def Let_def intro: with_proc_ok split: option.splits)
qed

lemma proc_exit_running: "a_running (proc_exit p err a) = a_running a - {p}" "known (proc_exit p err a) = known a"
  by (auto simp: proc_exit_def known_def Let_def with_proc_def split: option.splits)

lemma sp_stop_running:
  assumes "app_ok a"
  shows "a_running (sp_stop p a) = a_running a - {p}"
proof (cases "p \<in> a_running a")
  case True
  with assms obtain sp where "a_procs a p = Some sp" "sp_cmd sp = Some p" by (auto simp: app_ok_def)
  then show ?thesis by (simp add: sp_stop_def Let_def)
next
  case False
  have "Option.bind (a_procs a p) sp_cmd \<in> {None, Some p}"
    using assms by (cases "a_procs a p") (auto simp: app_ok_def)
  with False show ?thesis by (auto simp: sp_stop_def Let_def)
qed

lemma sp_stop_ok:
  assumes "app_ok a"
  shows "app_ok (sp_stop p a)"
proof -
  have "a_procs (sp_stop p a) = (a_procs a)(p := map_option (\<lambda>sp. sp\<lparr>sp_cmd := None, lastStatus := ''stopped''\<rparr>) (a_procs a p))"
    "a_next (sp_stop p a) = a_next a"
    by (auto simp: sp_stop_def with_proc_def Let_def split: option.splits)
  with assms sp_stop_running [OF assms, of p] show ?thesis by (fastforce simp: app_ok_def)
qed

lemma sp_stop_known [simp]: "a_slots (sp_stop p a) = a_slots a" "a_connect (sp_stop p a) = a_connect a"
  "a_next (sp_stop p a) = a_next a"
  by (auto simp: sp_stop_def Let_def split: option.splits)

lemma stop_all_slots:
  "app_ok a \<Longrightarrow> app_ok (fold (\<lambda>(room, p). sp_stop p) slots a)
     \<and> a_running (fold (\<lambda>(room, p). sp_stop p) slots a) = a_running a - snd ` set slots
     \<and> a_slots (fold (\<lambda>(room, p). sp_stop p) slots a) = a_slots a
     \<and> a_connect (fold (\<lambda>(room, p). sp_stop p) slots a) = a_connect a"
proof (induction slots arbitrary: a)
  case Nil
  then show ?case by simp
next
  case (Cons rp slots)
  obtain room p where rp: "rp = (room, p)" by (metis prod.exhaust)
  from Cons.IH [OF sp_stop_ok [OF Cons.prems]] sp_stop_running [OF Cons.prems] rp show ?case by auto
qed

lemma launch_ok:
  assumes "app_ok a" and "launch le bin args sp a = (Inr p, a1)"
  shows "app_ok a1 \<and> p = a_next a \<and> a_running a1 = insert p (a_running a)
    \<and> a_slots a1 = a_slots a \<and> a_connect a1 = a_connect a \<and> a_shareDir a1 = a_shareDir a
    \<and> a_next a1 = Suc (a_next a)"
proof -
  have a1: "p = a_next a" "a1 = a\<lparr>a_procs := (a_procs a)(a_next a \<mapsto> sp\<lparr>sp_cmd := Some (a_next a)\<rparr>),
      a_running := insert (a_next a) (a_running a), a_next := Suc (a_next a), a_cmds := a_cmds a @ [(bin, args)]\<rparr>"
    using assms(2) by (auto simp: launch_def split: option.splits)
  have "a_next a \<notin> a_running a" using app_ok_running_less [OF assms(1)] by blast
  then have "app_ok a1" using assms(1) by (auto simp: app_ok_def a1(2) less_Suc_eq)
  with a1 show ?thesis by simp
qed

lemma launch_fails: "launch le bin args sp a = (Inl e, a1) \<Longrightarrow> a1 = a"
  by (auto simp: launch_def split: option.splits)

lemma mount_keeps_cmd: "mount os env localAddr room sp = (r, cmds, sp1) \<Longrightarrow> sp_cmd sp1 = sp_cmd sp"
  by (auto simp: mount_def set_mount_def Let_def split: goos.splits option.splits prod.splits)

lemma supervisor_keeps:
  "app_ok a \<Longrightarrow> app_ok (mount_supervisor os la room p rs a)
     \<and> a_running (mount_supervisor os la room p rs a) = a_running a
     \<and> known (mount_supervisor os la room p rs a) = known a"
proof (induction rs arbitrary: a)
  case Nil
  then show ?case by (simp add: with_proc_ok known_def)
next
  case (Cons r rs)
  have log: "app_ok (with_proc p (pushLogLine l) b)" if "app_ok b" for l b
    using that by (rule with_proc_ok) simp
  show ?case
  proof (cases "a_connect a = Some p \<and> waitForStatus connected_state (re_polls r) \<and> a_procs a p \<noteq> None
      \<and> sp_mountPath (the (a_procs a p)) = []")
    case False
    then show ?thesis
      using Cons.prems Cons.IH [OF log [OF Cons.prems]] by (auto simp: known_def split: option.splits)
  next
    case True
    then obtain sp where sp: "a_procs a p = Some sp" by auto
    obtain e cmds sp1 where m: "mount os (re_mount r) la room sp = (e, cmds, sp1)" by (metis prod.exhaust)
    let ?b = "a\<lparr>a_cmds := a_cmds a @ cmds\<rparr>"
    have b: "app_ok ?b" using Cons.prems by (simp add: app_ok_def)
    have set: "app_ok (with_proc p (\<lambda>_. sp2) ?b)" if "sp_cmd sp2 = sp_cmd sp1" for sp2
      using with_proc_ok [OF b, of p "\<lambda>_. sp2"] sp mount_keeps_cmd [OF m] that by simp
    show ?thesis
    proof (cases e)
      case None
      with True sp m set [of sp1] show ?thesis by (simp add: known_def)
    next
      case (Some err)
      let ?sp2 = "pushLogLine (''mount attempt failed: '' @ err_text err @ '' ''
         @ [CHR 0xE2, CHR 0x80, CHR 0x94] @ '' will retry on next reconnect'') sp1"
      from Cons.IH [OF set [of ?sp2]] True sp m Some show ?thesis by (simp add: known_def)
    qed
  qed
qed

subsection \<open>Runs\<close>

text \<open>
  The operations as the handlers run them, each to its end, with exits of children, log lines
  and mount supervisors between them. A new viewer takes the slot of its room code whether or not the
  code is in use; the first argument collects the children that lost their slot in this way.
\<close>

definition displaced :: "string \<Rightarrow> app \<Rightarrow> nat set" where
  "displaced room a = set_option (map_of (a_slots a) room)"

inductive app_reach :: "nat set \<Rightarrow> app \<Rightarrow> bool" where
  reach_init: "app_reach {} newAppState"
| reach_relay: "app_reach L a \<Longrightarrow> app_reach L (a\<lparr>a_forceRelay := b\<rparr>)"
| reach_share: "app_reach L a \<Longrightarrow> app_reach L (snd (startShare quote absdir isDir dir a))"
| reach_add: "app_reach L a \<Longrightarrow> addViewer le bin url now a = (Inr room, a1) \<Longrightarrow> app_reach (L \<union> displaced room a) a1"
| reach_add_fails: "app_reach L a \<Longrightarrow> addViewer le bin url now a = (Inl e, a1) \<Longrightarrow> app_reach L a1"
| reach_remove: "app_reach L a \<Longrightarrow> app_reach L (removeViewer room a)"
| reach_unshare: "app_reach L a \<Longrightarrow> app_reach L (stopShare a)"
| reach_connect: "app_reach L a \<Longrightarrow> app_reach L (snd (startConnect quote le bin url t port room a))"
| reach_disconnect: "app_reach L a \<Longrightarrow> app_reach L (stopConnect os a)"
| reach_exit: "app_reach L a \<Longrightarrow> app_reach L (proc_exit p err a)"
| reach_log: "app_reach L a \<Longrightarrow> app_reach L (with_proc p (pushLogLine l) a)"
| reach_mount: "app_reach L a \<Longrightarrow> app_reach L (mount_supervisor os la room p rs a)"

text \<open>Every child that is alive is known or has lost its slot, and no child twice.\<close>

definition app_inv :: "nat set \<Rightarrow> app \<Rightarrow> bool" where
  "app_inv L a \<longleftrightarrow> app_ok a \<and> distinct (map fst (a_slots a)) \<and> distinct (map snd (a_slots a))
     \<and> set_option (a_connect a) \<inter> snd ` set (a_slots a) = {}
     \<and> a_running a \<subseteq> known a \<union> L \<and> L \<inter> known a = {} \<and> known a \<union> L \<subseteq> {..<a_next a}"

lemma update_values:
  "distinct (map snd xs) \<Longrightarrow> p \<notin> snd ` set xs \<Longrightarrow>
     distinct (map snd (AList.update k p xs)) \<and> snd ` set (AList.update k p xs) = insert p (snd ` set xs - set_option (map_of xs k))"
proof (induction xs)
  case (Cons x xs)
  have "set_option (map_of xs k) \<subseteq> snd ` set xs" by (force dest: map_of_SomeD)
  with Cons show ?case by (cases x) auto
qed simp

lemma addViewer_cases:
  assumes "addViewer le bin url now a = (r, a1)"
  obtains (fails) e where "r = Inl e" "a1 = a"
  | (adds) args sp p a2 where "r = Inr (randomRoom now)" "launch le bin args sp a = (Inr p, a2)"
      "a1 = addViewer_insert (randomRoom now) p a2"
proof (cases "addViewer_launch le bin url now a")
  case (Pair q a2)
  show ?thesis
  proof (cases q)
    case (Inl e)
    with Pair have "a2 = a"
      by (auto simp: addViewer_launch_def Let_def launch_fails split: if_splits sum.splits prod.splits)
    with Pair Inl assms show ?thesis by (intro fails [of e]) (simp_all add: addViewer_def)
  next
    case (Inr rp)
    obtain room p where rp: "rp = (room, p)" by (metis prod.exhaust)
    with Pair Inr obtain args sp where l: "launch le bin args sp a = (Inr p, a2)" "room = randomRoom now"
      by (auto simp: addViewer_launch_def Let_def split: if_splits sum.splits prod.splits)
    with Pair Inr rp assms show ?thesis by (intro adds [OF _ l(1)]) (simp_all add: addViewer_def)
  qed
qed

lemma app_inv_add:
  assumes "app_inv L a" and "addViewer le bin url now a = (Inr room, a1)"
  shows "app_inv (L \<union> displaced room a) a1"
  using assms(2)
proof (cases rule: addViewer_cases)
  case (adds args sp p a2)
  have ok: "app_ok a" using assms(1) by (simp add: app_inv_def)
  note k = launch_ok [OF ok adds(2)]
  have "known a \<union> L \<subseteq> {..<a_next a}" using assms(1) by (simp add: app_inv_def)
  with k have new: "p \<notin> snd ` set (a_slots a)" "p \<notin> set_option (a_connect a)" "p \<notin> L" by (auto simp: known_def)
  let ?d = "displaced room a"
  have v: "distinct (map snd (AList.update room p (a_slots a)))"
      "snd ` set (AList.update room p (a_slots a)) = insert p (snd ` set (a_slots a) - ?d)"
    using update_values [OF _ new(1), of room] assms(1) by (auto simp: app_inv_def displaced_def)
  have d: "?d \<subseteq> snd ` set (a_slots a)" by (force simp: displaced_def dest: map_of_SomeD)
  have a1: "a_slots a1 = AList.update room p (a_slots a)" "a_running a1 = insert p (a_running a)"
      "a_connect a1 = a_connect a" "a_next a1 = Suc (a_next a)" "app_ok a1"
    using adds k by (auto simp: addViewer_insert_def app_ok_def)
  have f: "distinct (map fst (AList.update room p (a_slots a)))"
    using assms(1) by (simp add: app_inv_def distinct_update)
  have old: "set_option (a_connect a) \<inter> snd ` set (a_slots a) = {}" "a_running a \<subseteq> known a \<union> L"
      "L \<inter> known a = {}" "known a \<union> L \<subseteq> {..<a_next a}"
    using assms(1) by (simp_all add: app_inv_def)
  have kn: "known a1 = insert p (known a - ?d)" using v(2) a1(1,3) old(1) d by (auto simp: known_def)
  have "known a1 \<union> (L \<union> ?d) \<subseteq> {..<a_next a1}"
  proof -
    have "?d \<subseteq> known a" using d by (auto simp: known_def)
    then have "known a1 \<union> (L \<union> ?d) \<subseteq> insert p (known a \<union> L)" using kn by blast
    moreover have "{..<a_next a1} = insert p {..<a_next a}" using a1(4) k by auto
    ultimately show ?thesis using old(4) by blast
  qed
  moreover have "(L \<union> ?d) \<inter> known a1 = {}" using kn old(3) new d by auto
  moreover have "a_running a1 \<subseteq> known a1 \<union> (L \<union> ?d)" using kn old(2) a1(2) by auto
  moreover have "set_option (a_connect a1) \<inter> snd ` set (a_slots a1) = {}"
    using v(2) a1(1,3) old(1) new(2) by auto
  ultimately show ?thesis unfolding app_inv_def using a1 v(1) f by simp
qed simp

lemma delete_idem: "k \<notin> fst ` set xs \<Longrightarrow> AList.delete k xs = xs"
  by (induction xs) auto

lemma delete_subset: "snd ` set (AList.delete k xs) \<subseteq> snd ` set xs"
  by (induction xs) auto

lemma delete_distinct_values: "distinct (map snd xs) \<Longrightarrow> distinct (map snd (AList.delete k xs))"
proof (induction xs)
  case (Cons x xs)
  from Cons.prems have "snd x \<notin> snd ` set xs" "distinct (map snd xs)" by simp_all
  moreover from this have "snd x \<notin> snd ` set (AList.delete k xs)" using delete_subset [of k xs] by blast
  ultimately show ?case using Cons.IH by simp
qed simp

lemma delete_values: "map_of xs k = Some p \<Longrightarrow> distinct (map fst xs) \<Longrightarrow>
    snd ` set xs \<subseteq> insert p (snd ` set (AList.delete k xs))"
  by (induction xs) (auto simp: delete_idem split: if_splits)

lemma app_inv_remove:
  assumes "app_inv L a"
  shows "app_inv L (removeViewer room a)"
proof -
  let ?a1 = "a\<lparr>a_slots := AList.delete room (a_slots a)\<rparr>"
  have ok: "app_ok ?a1" using assms by (simp add: app_inv_def app_ok_def)
  have d: "distinct (map fst (AList.delete room (a_slots a)))" "distinct (map snd (AList.delete room (a_slots a)))"
    using assms by (simp_all add: app_inv_def distinct_delete delete_distinct_values)
  show ?thesis
  proof (cases "map_of (a_slots a) room")
    case None
    then have "AList.delete room (a_slots a) = a_slots a"
      by (simp add: map_of_eq_None_iff delete_idem)
    with None assms show ?thesis by (simp add: removeViewer_def)
  next
    case (Some p)
    let ?b = "sp_stop p ?a1"
    have b: "removeViewer room a = ?b" using Some by (simp add: removeViewer_def Let_def)
    have "snd ` set (a_slots a) \<subseteq> insert p (snd ` set (AList.delete room (a_slots a)))"
      using delete_values [OF Some] assms by (simp add: app_inv_def)
    then have big: "known a \<subseteq> insert p (known ?b)" by (auto simp: known_def)
    have small: "known ?b \<subseteq> known a" using delete_subset [of room "a_slots a"] by (auto simp: known_def)
    have old: "set_option (a_connect a) \<inter> snd ` set (a_slots a) = {}" "a_running a \<subseteq> known a \<union> L"
        "L \<inter> known a = {}" "known a \<union> L \<subseteq> {..<a_next a}"
      using assms by (simp_all add: app_inv_def)
    have run: "a_running ?b = a_running a - {p}" using sp_stop_running [OF ok, of p] by simp
    have "a_running ?b \<subseteq> known ?b \<union> L" using run big old(2) by auto
    moreover have "L \<inter> known ?b = {}" "known ?b \<union> L \<subseteq> {..<a_next ?b}" using small old(3,4) by auto
    moreover have "set_option (a_connect ?b) \<inter> snd ` set (a_slots ?b) = {}"
      using old(1) delete_subset [of room "a_slots a"] by simp blast
    ultimately show ?thesis unfolding b app_inv_def using d sp_stop_ok [OF ok, of p] by simp
  qed
qed

lemma stopShare_inv:
  assumes "app_inv L a"
  shows "app_inv L (stopShare a) \<and> a_running (stopShare a) = a_running a - snd ` set (a_slots a)
    \<and> a_connect (stopShare a) = a_connect a \<and> a_slots (stopShare a) = []"
proof -
  have ok: "app_ok (a\<lparr>a_slots := [], a_shareDir := []\<rparr>)" using assms by (simp add: app_inv_def app_ok_def)
  have n: "a_next (fold (\<lambda>(room, p). sp_stop p) slots b) = a_next b" for slots :: "(string \<times> nat) list" and b
    by (induction slots arbitrary: b) auto
  from stop_all_slots [OF ok, of "a_slots a"] n assms show ?thesis
    by (auto simp: stopShare_def app_inv_def known_def)
qed

lemma stopConnect_inv:
  assumes "app_inv L a"
  shows "app_inv L (stopConnect os a) \<and> a_running (stopConnect os a) = a_running a - set_option (a_connect a)
    \<and> a_slots (stopConnect os a) = a_slots a"
proof (cases "a_connect a")
  case None
  with assms show ?thesis by (simp add: stopConnect_def)
next
  case (Some p)
  obtain b where b: "stopConnect os a = sp_stop p b" "app_ok b" "a_running b = a_running a" "a_slots b = a_slots a"
      "a_connect b = None" "a_next b = a_next a"
  proof
    let ?m = "(case a_procs a p of None \<Rightarrow> [] | Some sp \<Rightarrow> sp_mountPath sp)"
    let ?b = "a\<lparr>a_connect := None, a_cmds := a_cmds a @ (if ?m \<noteq> [] then [(unmountBin os, unmountArgs os ?m)] else [])\<rparr>"
    show "stopConnect os a = sp_stop p ?b" using Some by (simp add: stopConnect_def Let_def)
    show "app_ok ?b" using assms by (simp add: app_inv_def app_ok_def)
  qed simp_all
  with assms Some sp_stop_running [OF b(2), of p] sp_stop_ok [OF b(2), of p]
  show ?thesis by (auto simp: app_inv_def known_def)
qed

lemma startConnect_inv:
  assumes "app_inv L a"
  shows "app_inv L (snd (startConnect quote le bin url t port room a))"
proof (cases "startConnect_check quote a")
  case None
  then have free: "a_connect a = None" by (simp add: startConnect_check_def split: option.splits)
  obtain r a1 where l: "startConnect_launch le bin url t port room a = (r, a1)" by (metis prod.exhaust)
  show ?thesis
  proof (cases r)
    case (Inl e)
    with l have "a1 = a" by (auto simp: startConnect_launch_def Let_def launch_fails split: if_splits)
    with Inl l None assms show ?thesis by (simp add: startConnect_def)
  next
    case (Inr p)
    with l obtain args sp where "launch le bin args sp a = (Inr p, a1)"
      by (auto simp: startConnect_launch_def Let_def split: if_splits)
    from launch_ok [OF _ this] assms Inr l None free show ?thesis
      by (auto simp: startConnect_def startConnect_insert_def app_inv_def known_def app_ok_def)
  qed
next
  case (Some e)
  with assms show ?thesis by (simp add: startConnect_def)
qed

lemma reach_inv: "app_reach L a \<Longrightarrow> app_inv L a"
proof (induction rule: app_reach.induct)
  case reach_init
  then show ?case by (simp add: app_inv_def app_ok_def newAppState_def known_def)
next
  case (reach_relay L a b)
  then show ?case by (simp add: app_inv_def app_ok_def known_def)
next
  case (reach_share L a quote absdir isDir dir)
  then show ?case by (auto simp: startShare_def app_inv_def app_ok_def known_def split: sum.splits)
next
  case (reach_add L a le bin url now room a1)
  then show ?case by (simp add: app_inv_add)
next
  case (reach_add_fails L a le bin url now e a1)
  from reach_add_fails(2) show ?case by (cases rule: addViewer_cases) (use reach_add_fails in simp_all)
next
  case (reach_remove L a room)
  then show ?case by (simp add: app_inv_remove)
next
  case (reach_unshare L a)
  then show ?case by (simp add: stopShare_inv)
next
  case (reach_connect L a quote le bin url t port room)
  then show ?case by (simp add: startConnect_inv)
next
  case (reach_disconnect L a os)
  then show ?case by (simp add: stopConnect_inv)
next
  case (reach_exit L a p err)
  have same: "a_slots (proc_exit p err a) = a_slots a" "a_next (proc_exit p err a) = a_next a"
    "a_connect (proc_exit p err a) = a_connect a"
    by (simp_all add: proc_exit_def Let_def split: option.splits)
  have "app_ok (proc_exit p err a)" using reach_exit.IH by (simp add: app_inv_def proc_exit_ok)
  with reach_exit.IH same proc_exit_running [of p err a] show ?case by (auto simp: app_inv_def)
next
  case (reach_log L a p l)
  then show ?case by (auto simp: app_inv_def known_def intro: with_proc_ok)
next
  case (reach_mount L a os la room p rs)
  have "a_slots (mount_supervisor os la room p rs b) = a_slots b \<and> a_next (mount_supervisor os la room p rs b) = a_next b
      \<and> a_connect (mount_supervisor os la room p rs b) = a_connect b" for b
    by (induction rs arbitrary: b) (simp_all split: option.splits prod.splits)
  with reach_mount supervisor_keeps [of a os la room p rs] show ?case by (simp add: app_inv_def)
qed

lemma stopAll_stops:
  assumes "app_inv L a"
  shows "a_running (stopAll os a) = a_running a \<inter> L"
proof -
  note c = stopConnect_inv [OF assms, of os]
  then have "a_running (stopAll os a) = a_running (stopConnect os a) - snd ` set (a_slots a)"
    using stopShare_inv [of L "stopConnect os a"] by (simp add: stopAll_def)
  with c have "a_running (stopAll os a) = a_running a - known a" by (auto simp: known_def)
  then show ?thesis using assms by (auto simp: app_inv_def)
qed

text \<open>
  Property C34: the controller knows its children and stops them all, but for those whose room code
  was drawn a second time. In every state that handlers, one after the other, exits of children and
  mount supervisors can lead to, each child that is alive belongs to a slot, is the connection, or
  lost its slot to a later viewer with the same code; the last are none of the others. \<open>stopAll\<close> stops
  exactly the former, and leaves exactly the latter alive. So if no code is drawn again while it is in
  use, no child is lost and stopping stops everything.
\<close>
theorem children_known_and_stopped:
  assumes "app_reach L a"
  shows "a_running a \<subseteq> snd ` set (a_slots a) \<union> set_option (a_connect a) \<union> L
    \<and> L \<inter> (snd ` set (a_slots a) \<union> set_option (a_connect a)) = {}
    \<and> a_running (stopAll os a) = a_running a \<inter> L"
proof -
  have i: "app_inv L a" by (rule reach_inv [OF assms])
  with stopAll_stops [OF i] show ?thesis by (simp add: app_inv_def known_def)
qed

definition calm_launch :: launch_env where
  "calm_launch = \<lparr>le_stdout = None, le_stderr = None, le_start = None\<rparr>"

definition one_share :: app where
  "one_share = snd (addViewer calm_launch ''owner'' ''ws://s'' 42
     (snd (startShare (\<lambda>s. s) (Inr ''/pub'') True ''/pub'' newAppState)))"

text \<open>A second viewer whose code the clock makes the same.\<close>

definition same_share :: app where
  "same_share = snd (addViewer calm_launch ''owner'' ''ws://s'' 42 one_share)"

lemma one_share_simps:
  "a_running one_share = {0}" "a_slots one_share = [(randomRoom 42, 0)]" "a_shareDir one_share = ''/pub''"
  "a_connect one_share = None" "a_next one_share = 1"
  by (simp_all add: one_share_def addViewer_def addViewer_launch_def addViewer_insert_def startShare_def newAppState_def
        launch_def calm_launch_def Let_def)

lemma one_share_reach: "app_reach {} one_share"
proof -
  obtain a where a: "snd (startShare (\<lambda>s. s) (Inr ''/pub'') True ''/pub'' newAppState) = a" by simp
  then have r: "app_reach {} a" using reach_share [OF reach_init] by metis
  have "a_slots a = []" using a by (auto simp: startShare_def newAppState_def)
  moreover have "addViewer calm_launch ''owner'' ''ws://s'' 42 a = (Inr (randomRoom 42), one_share)"
    unfolding one_share_def a
    using a by (auto simp: addViewer_def addViewer_launch_def startShare_def newAppState_def launch_def calm_launch_def Let_def)
  ultimately show ?thesis using reach_add [OF r] by (fastforce simp: displaced_def)
qed

theorem children_known_and_stopped_witness:
  "a_running one_share = {0} \<and> a_running (stopAll linux one_share) = {}
    \<and> a_running same_share = {0, 1} \<and> a_running (stopAll linux same_share) = {0}"
proof -
  have add: "addViewer calm_launch ''owner'' ''ws://s'' 42 one_share = (Inr (randomRoom 42), same_share)"
    by (simp add: same_share_def addViewer_def addViewer_launch_def launch_def calm_launch_def one_share_simps Let_def)
  have d: "displaced (randomRoom 42) one_share = {0}" by (simp add: displaced_def one_share_simps)
  have run: "a_running same_share = {0, 1}"
    by (auto simp: same_share_def addViewer_def addViewer_launch_def addViewer_insert_def launch_def calm_launch_def
        one_share_simps Let_def)
  have "app_reach {0} same_share" using reach_add [OF one_share_reach add] d by simp
  from children_known_and_stopped [OF this, of linux] children_known_and_stopped [OF one_share_reach, of linux] run
  show ?thesis by (simp add: one_share_simps)
qed

subsection \<open>Handlers that overlap\<close>

lemma stopAll_keeps:
  assumes "app_ok a" and "p \<in> a_running a" and "p \<notin> snd ` set (a_slots a)" and "a_connect a = Some q" and "q \<noteq> p"
  shows "p \<in> a_running (stopAll os a)"
proof -
  let ?m = "(case a_procs a q of None \<Rightarrow> [] | Some sp \<Rightarrow> sp_mountPath sp)"
  let ?b = "a\<lparr>a_connect := None, a_cmds := a_cmds a @ (if ?m \<noteq> [] then [(unmountBin os, unmountArgs os ?m)] else [])\<rparr>"
  have b: "app_ok ?b" using assms(1) by (simp add: app_ok_def)
  have s: "stopConnect os a = sp_stop q ?b" using assms(4) by (simp add: stopConnect_def Let_def)
  have ok: "app_ok (sp_stop q ?b)" by (rule sp_stop_ok [OF b])
  have "app_ok ((sp_stop q ?b)\<lparr>a_slots := [], a_shareDir := []\<rparr>)" using ok by (simp add: app_ok_def)
  from stop_all_slots [OF this, of "a_slots a"] sp_stop_running [OF b, of q] assms s show ?thesis
    by (simp add: stopAll_def stopShare_def)
qed

text \<open>
  Property C35: two overlapping connects lose a child. The check for a connection and its
  registration are two critical sections: when two requests pass the check before either
  registers, the first child is alive, unknown to the controller, and survives even the shutdown.
\<close>
theorem connect_race_leaks:
  assumes "app_reach L a" and "startConnect_check quote a = None"
    and "startConnect_launch le bin url t port room a = (Inr p1, a1)"
    and "startConnect_launch le' bin url t' port' room' a1 = (Inr p2, a2)"
  shows "startConnect_check quote a1 = None
    \<and> a_connect (startConnect_insert p2 (startConnect_insert p1 a2)) = Some p2 \<and> p1 \<noteq> p2
    \<and> p1 \<in> a_running (stopAll os (startConnect_insert p2 (startConnect_insert p1 a2)))"
proof -
  have i: "app_inv L a" by (rule reach_inv [OF assms(1)])
  obtain args sp where l1: "launch le bin args sp a = (Inr p1, a1)"
    using assms(3) by (auto simp: startConnect_launch_def Let_def split: if_splits)
  obtain args' sp' where l2: "launch le' bin args' sp' a1 = (Inr p2, a2)"
    using assms(4) by (auto simp: startConnect_launch_def Let_def split: if_splits)
  have ok: "app_ok a" using i by (simp add: app_inv_def)
  note k1 = launch_ok [OF ok l1]
  then have ok1: "app_ok a1" by blast
  note k2 = launch_ok [OF ok1 l2]
  have free: "startConnect_check quote a1 = None"
    using assms(2) k1 by (simp add: startConnect_check_def split: option.splits)
  let ?a3 = "startConnect_insert p2 (startConnect_insert p1 a2)"
  have a3: "app_ok ?a3" "a_running ?a3 = insert p2 (insert p1 (a_running a))" "a_slots ?a3 = a_slots a"
      "a_connect ?a3 = Some p2"
    using k1 k2 by (auto simp: startConnect_insert_def app_ok_def)
  have ne: "p1 \<noteq> p2" using app_ok_running_less [OF ok1, of p1] k1 k2 by auto
  have "p1 \<notin> snd ` set (a_slots a)" using i k1 by (auto simp: app_inv_def known_def)
  from stopAll_keeps [OF a3(1) _ _ a3(4), of p1] a3 ne this have "p1 \<in> a_running (stopAll os ?a3)" by simp
  with free a3(4) ne show ?thesis by blast
qed

theorem connect_race_leaks_witness:
  "0 \<in> a_running (stopAll linux (startConnect_insert 1 (startConnect_insert 0
     (snd (startConnect_launch calm_launch ''c'' ''s'' 1 8081 ''b''
       (snd (startConnect_launch calm_launch ''c'' ''s'' 1 8080 ''a'' newAppState)))))))"
proof -
  obtain r1 a1 where l1: "startConnect_launch calm_launch ''c'' ''s'' 1 8080 ''a'' newAppState = (r1, a1)"
    by (metis prod.exhaust)
  obtain r2 a2 where l2: "startConnect_launch calm_launch ''c'' ''s'' 1 8081 ''b'' a1 = (r2, a2)"
    by (metis prod.exhaust)
  have rooms: "normalize_room ''a'' = ''a''" "normalize_room ''b'' = ''b''" by code_simp+
  have r1: "r1 = Inr 0" and n: "a_next a1 = 1"
    using l1 by (auto simp: startConnect_launch_def launch_def calm_launch_def newAppState_def rooms Let_def)
  have r2: "r2 = Inr 1"
    using l2 n by (auto simp: startConnect_launch_def launch_def calm_launch_def rooms Let_def)
  have "startConnect_check (\<lambda>s. s) newAppState = None" by (simp add: startConnect_check_def newAppState_def)
  from connect_race_leaks [OF reach_init this l1 [unfolded r1] l2 [unfolded r2]] l1 l2 show ?thesis by simp
qed

text \<open>
  In the same way a slot that is launched while the share is being stopped survives that: its
  child goes on serving the folder although no folder is shared any more.
\<close>

lemma add_survives_stop:
  assumes "app_reach L a" and "addViewer_launch le bin url now a = (Inr (room, p), a1)"
  shows "p \<in> a_running (addViewer_insert room p (stopShare a1))
    \<and> a_shareDir (addViewer_insert room p (stopShare a1)) = []"
proof -
  have i: "app_inv L a" by (rule reach_inv [OF assms(1)])
  obtain args sp where l: "launch le bin args sp a = (Inr p, a1)"
    using assms(2) by (auto simp: addViewer_launch_def Let_def split: if_splits sum.splits prod.splits)
  have ok: "app_ok a" using i by (simp add: app_inv_def)
  note k = launch_ok [OF ok l]
  then have "app_ok a1" by blast
  then have "app_ok (a1\<lparr>a_slots := [], a_shareDir := []\<rparr>)" by (simp add: app_ok_def)
  from stop_all_slots [OF this, of "a_slots a1"] k i have "p \<in> a_running (stopShare a1)"
    by (auto simp: stopShare_def app_inv_def known_def)
  moreover have "a_shareDir (fold (\<lambda>(room, p). sp_stop p) slots b) = a_shareDir b"
    for slots :: "(string \<times> nat) list" and b
    by (induction slots arbitrary: b) (auto simp: sp_stop_def Let_def split: option.splits)
  ultimately show ?thesis by (simp add: addViewer_insert_def stopShare_def)
qed

end
