(* ===== verification/Claudy_Api.thy ===== *)
theory Claudy_Api
  imports Claudy_App_Run
begin

text \<open>
  The HTTP API of \<open>cmd/claudy/main.go\<close>: a request, the response, and the new state of the
  controller. What the operating system, the clock, the folder picker and the local proxy answer
  during the request is its environment. Bodies are decoded by the library: a request carries the
  result. Its path is there twice, as \<open>URL.Path\<close> and as \<open>URL.EscapedPath\<close>. A response is what the
  handler writes; that the server leaves out the body for \<open>HEAD\<close> is not shown.
\<close>

record json_body =
  jb_force_relay :: bool
  jb_dir :: string
  jb_room :: string

record request =
  rq_method :: string
  rq_path :: string
  rq_escaped :: string
  rq_query_path :: string
  rq_json :: "error + json_body"
  rq_parts :: "error + upload_part list"

record slot_info =
  si_Room :: string
  si_State :: string
  si_MountPath :: string
  si_UptimeSecs :: int
  si_RecentLogs :: "string list"

record status =
  st_Share :: "(string \<times> slot_info list) option"
  st_Connect :: "slot_info option"
  st_ForceRelay :: bool

datatype body =
    NoBody
  | Redirect string
  | Page string
  | StatusBody status
  | SettingsBody bool
  | TextBody string
  | DirBody string
  | RoomBody string
  | ListBody FilesList
  | FileBody download
  | UploadedBody nat

type_synonym response = "nat \<times> body"

record api_env =
  ev_os :: goos
  ev_rand :: "64 word"
  ev_now :: int
  ev_port :: nat
  ev_launch :: launch_env
  ev_binDir :: string
  ev_signal :: "string option"
  ev_page :: "error + string"
  ev_pick :: "error + string"
  ev_abs :: "error + string"
  ev_isDir :: bool
  ev_http :: http_client
  ev_dates :: dates
  ev_mime :: "string \<Rightarrow> string"
  ev_quote :: "string \<Rightarrow> string"
  ev_log_header :: string

definition http_Error :: "error \<Rightarrow> nat \<Rightarrow> response" where
  "http_Error e code = (code, TextBody (err_text e @ [nl]))"

definition defaultSignalURL :: "string option \<Rightarrow> string" where
  "defaultSignalURL v =
     (case v of Some s \<Rightarrow> if s \<noteq> [] then s else ''ws://23.172.217.149:7042/signal''
      | None \<Rightarrow> ''ws://23.172.217.149:7042/signal'')"

definition ownerName :: "goos \<Rightarrow> string" where
  "ownerName os = (case os of windows \<Rightarrow> ''claudy-dav-owner.exe'' | _ \<Rightarrow> ''claudy-dav-owner'')"

definition clientName :: "goos \<Rightarrow> string" where
  "clientName os = (case os of windows \<Rightarrow> ''claudy-dav-client.exe'' | _ \<Rightarrow> ''claudy-dav-client'')"

definition errCanceled :: error where "errCanceled = Sentinel ''main.errCanceled'' ''canceled''"

subsection \<open>The status\<close>

definition slot_info_of :: "int \<Rightarrow> subprocess \<Rightarrow> slot_info" where
  "slot_info_of now sp =
     (case sp_snapshot now sp of (state, up, logs, mp) \<Rightarrow>
        \<lparr>si_Room = sp_room sp, si_State = state, si_MountPath = mp, si_UptimeSecs = up, si_RecentLogs = logs\<rparr>)"

definition app_snapshot :: "int \<Rightarrow> app \<Rightarrow> status" where
  "app_snapshot now a =
     (let slots = List.map_filter (\<lambda>(room, p). a_procs a p) (a_slots a)
      in \<lparr>st_Share = (if a_shareDir a \<noteq> [] \<or> a_slots a \<noteq> []
                      then Some (a_shareDir a, map (\<lambda>sp. (slot_info_of now sp)\<lparr>si_MountPath := []\<rparr>) slots) else None),
          st_Connect = map_option (slot_info_of now) (Option.bind (a_connect a) (a_procs a)),
          st_ForceRelay = a_forceRelay a\<rparr>)"

definition log_text :: "string list \<Rightarrow> string" where
  "log_text ls = concat (map (\<lambda>l. l @ [nl]) ls)"

definition logs_dump :: "string \<Rightarrow> app \<Rightarrow> string" where
  "logs_dump header a =
     (let connect = Option.bind (a_connect a) (a_procs a);
          slots = List.map_filter (\<lambda>(room, p). a_procs a p) (a_slots a)
      in header
         @ (case connect of None \<Rightarrow> []
            | Some sp \<Rightarrow> ''=== Connect (room: '' @ sp_room sp @ '') ==='' @ [nl] @ log_text (allLogs sp) @ [nl])
         @ (if a_shareDir a \<noteq> [] \<or> a_slots a \<noteq> []
            then ''=== Share '' @ [CHR 0xE2, CHR 0x80, CHR 0x94] @ '' folder: '' @ a_shareDir a @ '' ==='' @ [nl, nl]
              @ concat (map (\<lambda>sp. ''--- slot room: '' @ sp_room sp @ '' ---'' @ [nl] @ log_text (allLogs sp) @ [nl]) slots)
            else [])
         @ (if connect = None \<and> a_slots a = [] then ''(no active sessions)'' @ [nl] else []))"

subsection \<open>The handlers\<close>

definition connect_proc :: "app \<Rightarrow> subprocess option" where
  "connect_proc a = Option.bind (a_connect a) (a_procs a)"

definition method_error :: "string \<Rightarrow> response" where
  "method_error t = (405, TextBody (t @ [nl]))"

definition reply :: "api_env \<Rightarrow> app \<Rightarrow> response \<times> app" where
  "reply ev a = ((200, StatusBody (app_snapshot (ev_now ev) a)), a)"

definition h_page :: "api_env \<Rightarrow> request \<Rightarrow> response" where
  "h_page ev rq =
     (if rq_path rq \<noteq> ''/'' then (404, TextBody (''404 page not found'' @ [nl]))
      else (case ev_page ev of Inl e \<Rightarrow> http_Error e 500 | Inr data \<Rightarrow> (200, Page data)))"

definition h_settings :: "request \<Rightarrow> app \<Rightarrow> response \<times> app" where
  "h_settings rq a =
     (if rq_method rq = ''GET'' then ((200, SettingsBody (a_forceRelay a)), a)
      else if rq_method rq \<noteq> ''POST'' then (method_error ''GET or POST'', a)
      else
        (case rq_json rq of
           Inl e \<Rightarrow> (http_Error e 400, a)
         | Inr j \<Rightarrow> ((200, SettingsBody (jb_force_relay j)), a\<lparr>a_forceRelay := jb_force_relay j\<rparr>)))"

definition h_pick_dir :: "api_env \<Rightarrow> request \<Rightarrow> response" where
  "h_pick_dir ev rq =
     (if rq_method rq \<noteq> ''POST'' then method_error ''POST required''
      else
        (case ev_pick ev of
           Inl e \<Rightarrow> if err_is e errCanceled then (204, NoBody) else http_Error e 500
         | Inr dir \<Rightarrow> (200, DirBody dir)))"

definition h_share_start :: "api_env \<Rightarrow> request \<Rightarrow> app \<Rightarrow> response \<times> app" where
  "h_share_start ev rq a =
     (if rq_method rq \<noteq> ''POST'' then (method_error ''POST required'', a)
      else
        (case rq_json rq of
           Inl e \<Rightarrow> (http_Error e 400, a)
         | Inr j \<Rightarrow>
             (case startShare (ev_quote ev) (ev_abs ev) (ev_isDir ev) (jb_dir j) a of
                (Some e, a1) \<Rightarrow> (http_Error e 500, a1)
              | (None, a1) \<Rightarrow> reply ev a1)))"

definition h_share_add :: "api_env \<Rightarrow> request \<Rightarrow> app \<Rightarrow> response \<times> app" where
  "h_share_add ev rq a =
     (if rq_method rq \<noteq> ''POST'' then (method_error ''POST required'', a)
      else
        (case addViewer (ev_launch ev) (path_Join (ev_binDir ev) (ownerName (ev_os ev))) (defaultSignalURL (ev_signal ev))
                (ev_rand ev) a of
           (Inl e, a1) \<Rightarrow> (http_Error e 500, a1)
         | (Inr room, a1) \<Rightarrow> ((200, RoomBody room), a1)))"

definition h_share_remove :: "api_env \<Rightarrow> request \<Rightarrow> app \<Rightarrow> response \<times> app" where
  "h_share_remove ev rq a =
     (if rq_method rq \<noteq> ''POST'' then (method_error ''POST required'', a)
      else
        (case rq_json rq of
           Inl e \<Rightarrow> (http_Error e 400, a)
         | Inr j \<Rightarrow> reply ev (removeViewer (normalize_room (jb_room j)) a)))"

definition h_share_stop :: "api_env \<Rightarrow> request \<Rightarrow> app \<Rightarrow> response \<times> app" where
  "h_share_stop ev rq a =
     (if rq_method rq \<noteq> ''POST'' then (method_error ''POST required'', a) else reply ev (stopShare a))"

definition h_connect :: "api_env \<Rightarrow> request \<Rightarrow> app \<Rightarrow> response \<times> app" where
  "h_connect ev rq a =
     (if rq_method rq \<noteq> ''POST'' then (method_error ''POST required'', a)
      else
        (case rq_json rq of
           Inl e \<Rightarrow> (http_Error e 400, a)
         | Inr j \<Rightarrow>
             (case startConnect (ev_quote ev) (ev_launch ev) (path_Join (ev_binDir ev) (clientName (ev_os ev)))
                     (defaultSignalURL (ev_signal ev)) (ev_now ev) (ev_port ev) (jb_room j) a of
                (Some e, a1) \<Rightarrow> (http_Error e 500, a1)
              | (None, a1) \<Rightarrow> reply ev a1)))"

definition h_connect_stop :: "api_env \<Rightarrow> request \<Rightarrow> app \<Rightarrow> response \<times> app" where
  "h_connect_stop ev rq a =
     (if rq_method rq \<noteq> ''POST'' then (method_error ''POST required'', a)
      else reply ev (stopConnect (ev_os ev) a))"

definition h_files :: "api_env \<Rightarrow> request \<Rightarrow> app \<Rightarrow> response" where
  "h_files ev rq a =
     (if rq_method rq = ''GET'' then
        (case listFiles (ev_http ev) (ev_dates ev) (connect_proc a) (rq_query_path rq) of
           Inl e \<Rightarrow> http_Error e 500 | Inr l \<Rightarrow> (200, ListBody l))
      else if rq_method rq = ''DELETE'' then
        (case rm (ev_http ev) (connect_proc a) (rq_query_path rq) of
           Some e \<Rightarrow> http_Error e 500 | None \<Rightarrow> (204, NoBody))
      else method_error ''GET or DELETE'')"

text \<open>A download that fails is only logged: nothing was written, which is an empty response.\<close>

definition h_files_get :: "api_env \<Rightarrow> request \<Rightarrow> app \<Rightarrow> response" where
  "h_files_get ev rq a =
     (if rq_method rq \<noteq> ''GET'' then method_error ''GET required''
      else
        (case downloadFile (ev_http ev) (ev_mime ev) (connect_proc a) (rq_query_path rq) of
           Inl e \<Rightarrow> (200, NoBody) | Inr d \<Rightarrow> (200, FileBody d)))"

definition h_files_upload :: "api_env \<Rightarrow> request \<Rightarrow> app \<Rightarrow> response" where
  "h_files_upload ev rq a =
     (if rq_method rq \<noteq> ''POST'' then method_error ''POST required''
      else
        (case rq_parts rq of
           Inl e \<Rightarrow> http_Error (WrapError ''expected multipart/form-data: '' e []) 400
         | Inr parts \<Rightarrow>
             (case upload_parts (ev_http ev) (connect_proc a) (upload_dir (rq_query_path rq)) parts 0 of
                Inl (code, e) \<Rightarrow> http_Error e code
              | Inr n \<Rightarrow> (200, UploadedBody n))))"

definition h_files_mkdir :: "api_env \<Rightarrow> request \<Rightarrow> app \<Rightarrow> response" where
  "h_files_mkdir ev rq a =
     (if rq_method rq \<noteq> ''POST'' then method_error ''POST required''
      else
        (case mkdir (ev_http ev) (connect_proc a) (rq_query_path rq) of
           Some e \<Rightarrow> http_Error e 500 | None \<Rightarrow> (204, NoBody)))"

text \<open>
  The multiplexer of \<open>net/http\<close>. It answers a request for a path that is not clean with a redirect to
  the clean one, which \<open>Redirect\<close> holds (\<open>CONNECT\<close> apart), and a request for \<open>*\<close> with an error;
  else it compares the segments of the path, unescaped one by one, with those of the patterns.
\<close>

definition cleanPath :: "string \<Rightarrow> string" where
  "cleanPath p =
     (if p = [] then ''/''
      else
        let q = (if hd p = CHR ''/'' then p else CHR ''/'' # p);
            np = path_Clean q
        in if last q = CHR ''/'' \<and> np \<noteq> ''/'' then np @ ''/'' else np)"

definition seg_unescape :: "string \<Rightarrow> string" where
  "seg_unescape w = (case PathUnescape w of None \<Rightarrow> w | Some u \<Rightarrow> u)"

definition mux_path :: "string \<Rightarrow> string" where
  "mux_path p =
     (let segs = map seg_unescape (split_on (CHR ''/'') p)
      in if list_all (\<lambda>w. CHR ''/'' \<notin> set w) segs then join_with (CHR ''/'') segs else [])"

definition httpHandlers :: "api_env \<Rightarrow> request \<Rightarrow> app \<Rightarrow> response \<times> app" where
  "httpHandlers ev rq a =
     (let path = (if rq_method rq = ''CONNECT'' then rq_escaped rq else cleanPath (rq_escaped rq));
          p = mux_path path in
      if rq_path rq = ''*'' then ((400, NoBody), a)
      else if path \<noteq> rq_escaped rq then ((301, Redirect path), a)
      else if p = ''/api/status'' then reply ev a
      else if p = ''/api/settings'' then h_settings rq a
      else if p = ''/api/logs'' then ((200, TextBody (logs_dump (ev_log_header ev) a)), a)
      else if p = ''/api/pick-dir'' then (h_pick_dir ev rq, a)
      else if p = ''/api/share/start'' then h_share_start ev rq a
      else if p = ''/api/share/add'' then h_share_add ev rq a
      else if p = ''/api/share/remove'' then h_share_remove ev rq a
      else if p = ''/api/share/stop'' then h_share_stop ev rq a
      else if p = ''/api/connect'' then h_connect ev rq a
      else if p = ''/api/connect/stop'' then h_connect_stop ev rq a
      else if p = ''/api/files'' then (h_files ev rq a, a)
      else if p = ''/api/files/get'' then (h_files_get ev rq a, a)
      else if p = ''/api/files/upload'' then (h_files_upload ev rq a, a)
      else if p = ''/api/files/mkdir'' then (h_files_mkdir ev rq a, a)
      else (h_page ev rq, a))"

subsection \<open>Routes\<close>

text \<open>
  Comparing with the path of a pattern is comparing the segments, and a redirect leads to a clean path.
\<close>

lemma mux_path_segments:
  assumes "q \<noteq> []"
  shows "mux_path p = q \<longleftrightarrow> map seg_unescape (split_on (CHR ''/'') p) = split_on (CHR ''/'') q"
proof
  let ?s = "map seg_unescape (split_on (CHR ''/'') p)"
  have ne: "?s \<noteq> []" using split_on_ne [of "CHR ''/''" p] by simp
  assume q: "mux_path p = q"
  show "?s = split_on (CHR ''/'') q"
  proof (cases "list_all (\<lambda>w. CHR ''/'' \<notin> set w) ?s")
    case True
    then have "split_on (CHR ''/'') (join_with (CHR ''/'') ?s) = ?s"
      by (intro split_join [OF ne]) (simp only: list_all_iff)
    moreover have "q = join_with (CHR ''/'') ?s" using q True unfolding mux_path_def Let_def by simp
    ultimately show ?thesis by simp
  next
    case False
    then have "mux_path p = []" unfolding mux_path_def Let_def by simp
    with q assms show ?thesis by simp
  qed
next
  let ?s = "map seg_unescape (split_on (CHR ''/'') p)"
  assume s: "?s = split_on (CHR ''/'') q"
  then have "\<forall>w \<in> set ?s. CHR ''/'' \<notin> set w" using split_on_no_sep by metis
  then have "list_all (\<lambda>w. CHR ''/'' \<notin> set w) ?s" by (simp only: list_all_iff)
  then show "mux_path p = q" unfolding mux_path_def Let_def s by simp
qed

lemma cleanPath_idem: "cleanPath (cleanPath p) = cleanPath p"
proof -
  have "cleanPath (cleanPath (CHR ''/'' # r)) = cleanPath (CHR ''/'' # r)" for r
  proof -
    define es where "es = clean_elems True (split_on (CHR ''/'') r)"
    let ?np = "CHR ''/'' # join_with (CHR ''/'') es"
    have np: "path_Clean (CHR ''/'' # r) = ?np" by (simp add: clean_rooted es_def)
    have pr: "list_all proper es" unfolding es_def by (rule clean_elems_proper)
    have sep: "\<forall>w \<in> set es. CHR ''/'' \<notin> set w"
      unfolding es_def using clean_elems_subset split_on_no_sep by blast
    show ?thesis
    proof (cases "es = []")
      case True
      then have "cleanPath (CHR ''/'' # r) = ''/''" using np by (simp add: cleanPath_def)
      moreover have "cleanPath ''/'' = ''/''" by code_simp
      ultimately show ?thesis by simp
    next
      case False
      have c: "path_Clean ?np = ?np" "path_Clean (?np @ ''/'') = ?np"
        using Clean_proper [OF pr sep False, of "[]"] Clean_proper [OF pr sep False, of "''/''"] by simp_all
      have "last es \<in> set es" using False by simp
      with pr sep have l: "last es \<noteq> []" "CHR ''/'' \<notin> set (last es)" by (auto simp: list_all_iff proper_def)
      then have e: "last (join_with (CHR ''/'') es) \<noteq> CHR ''/''" "join_with (CHR ''/'') es \<noteq> []"
        using last_join_with [OF False l(1)] by (auto dest: last_in_set)
      have "cleanPath ?np = ?np" using c(1) e by (simp add: cleanPath_def)
      moreover have "cleanPath (?np @ ''/'') = ?np @ ''/''" using c(2) e(2) by (simp add: cleanPath_def)
      moreover have "cleanPath (CHR ''/'' # r) \<in> {?np, ?np @ ''/''}" using np by (simp add: cleanPath_def Let_def)
      ultimately show ?thesis by auto
    qed
  qed
  moreover have "\<exists>r. cleanPath p = cleanPath (CHR ''/'' # r)"
  proof (cases "p = []")
    case True
    moreover have "cleanPath [] = cleanPath ''/''" by code_simp
    ultimately show ?thesis by blast
  next
    case False
    then show ?thesis by (intro exI [of _ "if hd p = CHR ''/'' then tl p else p"]) (cases p; simp add: cleanPath_def)
  qed
  ultimately show ?thesis by metis
qed

subsection \<open>Properties\<close>

lemmas handler_defs =
  h_settings_def h_share_start_def h_share_add_def h_share_remove_def h_share_stop_def h_connect_def
  h_connect_stop_def reply_def

lemma handlers_not_post:
  assumes "rq_method rq \<noteq> ''POST''"
  shows "snd (h_settings rq a) = a" "snd (h_share_start ev rq a) = a" "snd (h_share_add ev rq a) = a"
    "snd (h_share_remove ev rq a) = a" "snd (h_share_stop ev rq a) = a" "snd (h_connect ev rq a) = a"
    "snd (h_connect_stop ev rq a) = a" "snd (reply ev a) = a"
  using assms by (simp_all add: handler_defs)

text \<open>
  The child that a request displaces: the answer names the room code of the new viewer, whose slot it
  may have had.
\<close>

definition overwritten :: "api_env \<Rightarrow> request \<Rightarrow> app \<Rightarrow> nat set" where
  "overwritten ev rq a =
     (case snd (fst (httpHandlers ev rq a)) of RoomBody room \<Rightarrow> displaced room a | _ \<Rightarrow> {})"

text \<open>Every handler is a step of the controller's runs.\<close>

lemma reach_post:
  assumes "app_reach L a"
  shows "app_reach L (snd (h_settings rq a))" "app_reach L (snd (h_share_start ev rq a))"
    "app_reach L (snd (h_share_remove ev rq a))" "app_reach L (snd (h_share_stop ev rq a))" "app_reach L (snd (h_connect ev rq a))"
    "app_reach L (snd (h_connect_stop ev rq a))" "app_reach L (snd (reply ev a))"
proof -
  show "app_reach L (snd (h_settings rq a))"
    using assms reach_relay by (simp add: h_settings_def split: sum.splits)
  have "app_reach L a1" if "startShare q ab d dir a = (r, a1)" for q ab d dir r a1
    using reach_share [OF assms, of q ab d dir] that by simp
  then show "app_reach L (snd (h_share_start ev rq a))"
    using assms by (auto simp: h_share_start_def reply_def split: sum.splits prod.splits option.splits)
  show "app_reach L (snd (h_share_remove ev rq a))"
    using assms reach_remove by (simp add: h_share_remove_def reply_def split: sum.splits)
  show "app_reach L (snd (h_share_stop ev rq a))"
    using assms reach_unshare by (simp add: h_share_stop_def reply_def)
  have "app_reach L a1" if "startConnect q le bin url t port room a = (r, a1)" for q le bin url t port room r a1
    using reach_connect [OF assms, of q le bin url t port room] that by simp
  then show "app_reach L (snd (h_connect ev rq a))"
    using assms by (auto simp: h_connect_def reply_def split: sum.splits prod.splits option.splits)
  show "app_reach L (snd (h_connect_stop ev rq a))"
    using assms reach_disconnect by (simp add: h_connect_stop_def reply_def)
  show "app_reach L (snd (reply ev a))" using assms by (simp add: reply_def)
qed

text \<open>Adding a viewer displaces the child of the same code, and answers with that code.\<close>

lemma reach_add_post:
  assumes "app_reach L a"
  shows "(\<exists>room. snd (fst (h_share_add ev rq a)) = RoomBody room \<and> room = randomRoom (ev_rand ev)
      \<and> app_reach (L \<union> displaced room a) (snd (h_share_add ev rq a)))
    \<or> (\<forall>room. snd (fst (h_share_add ev rq a)) \<noteq> RoomBody room) \<and> app_reach L (snd (h_share_add ev rq a))"
proof -
  obtain r a1 where v: "addViewer (ev_launch ev) (path_Join (ev_binDir ev) (ownerName (ev_os ev)))
      (defaultSignalURL (ev_signal ev)) (ev_rand ev) a = (r, a1)" by (metis prod.exhaust)
  show ?thesis
  proof (cases r)
    case (Inl e)
    with v reach_add_fails [OF assms] have "app_reach L a1" by metis
    with v Inl assms show ?thesis by (simp add: h_share_add_def http_Error_def method_error_def)
  next
    case (Inr room)
    have "room = randomRoom (ev_rand ev)" using v Inr by (cases rule: addViewer_cases) simp_all
    moreover have "app_reach (L \<union> displaced room a) a1" using v Inr reach_add [OF assms] by metis
    ultimately show ?thesis using v Inr assms by (simp add: h_share_add_def method_error_def)
  qed
qed

text \<open>No other answer holds a room code.\<close>

lemma other_bodies:
  "snd (fst (h_settings rq a)) \<noteq> RoomBody room" "snd (fst (h_share_start ev rq a)) \<noteq> RoomBody room"
  "snd (fst (h_share_remove ev rq a)) \<noteq> RoomBody room" "snd (fst (h_share_stop ev rq a)) \<noteq> RoomBody room"
  "snd (fst (h_connect ev rq a)) \<noteq> RoomBody room" "snd (fst (h_connect_stop ev rq a)) \<noteq> RoomBody room"
  "snd (fst (reply ev a)) \<noteq> RoomBody room" "snd (h_pick_dir ev rq) \<noteq> RoomBody room"
  "snd (h_files ev rq a) \<noteq> RoomBody room" "snd (h_files_get ev rq a) \<noteq> RoomBody room"
  "snd (h_files_upload ev rq a) \<noteq> RoomBody room" "snd (h_files_mkdir ev rq a) \<noteq> RoomBody room"
  "snd (h_page ev rq) \<noteq> RoomBody room"
  by (simp_all add: handler_defs h_pick_dir_def h_files_def h_files_get_def h_files_upload_def h_files_mkdir_def
      h_page_def http_Error_def method_error_def split: sum.splits option.splits prod.splits)

text \<open>A request is answered by adding a viewer, or displaces nobody and leads from run to run.\<close>

lemma handled:
  assumes "app_reach L a"
  shows "httpHandlers ev rq a = h_share_add ev rq a
    \<or> (\<forall>room. snd (fst (httpHandlers ev rq a)) \<noteq> RoomBody room) \<and> app_reach L (snd (httpHandlers ev rq a))"
  unfolding httpHandlers_def Let_def
  by (simp add: reach_post [OF assms] other_bodies assms)

lemma handler_reach:
  assumes "app_reach L a"
  shows "app_reach (L \<union> overwritten ev rq a) (snd (httpHandlers ev rq a))
    \<and> overwritten ev rq a \<subseteq> displaced (randomRoom (ev_rand ev)) a"
  using handled [OF assms, of ev rq]
proof
  assume h: "httpHandlers ev rq a = h_share_add ev rq a"
  from reach_add_post [OF assms, of ev rq] show ?thesis
  proof
    assume "\<exists>room. snd (fst (h_share_add ev rq a)) = RoomBody room \<and> room = randomRoom (ev_rand ev)
      \<and> app_reach (L \<union> displaced room a) (snd (h_share_add ev rq a))"
    with h show ?thesis by (auto simp: overwritten_def)
  next
    assume n: "(\<forall>room. snd (fst (h_share_add ev rq a)) \<noteq> RoomBody room) \<and> app_reach L (snd (h_share_add ev rq a))"
    then have "overwritten ev rq a = {}" using h by (simp add: overwritten_def split: body.splits)
    with n h show ?thesis by simp
  qed
next
  assume n: "(\<forall>room. snd (fst (httpHandlers ev rq a)) \<noteq> RoomBody room) \<and> app_reach L (snd (httpHandlers ev rq a))"
  then have "overwritten ev rq a = {}" by (simp add: overwritten_def split: body.splits)
  with n show ?thesis by simp
qed

text \<open>
  Property C36: only POST changes the controller, and a request loses no child but the one whose room
  code a new viewer draws again. A request of any other method leaves the state as it is, on every
  path. A request of any kind leads from a state that handlers can reach to one, with at most one more
  child displaced: the one in the slot of the code that the clock gives, if the request adds a viewer.
  If that code is not in use, no child is displaced.
\<close>
theorem api_changes_by_post_only:
  assumes "app_reach L a" and "httpHandlers ev rq a = (r, a')"
  shows "(rq_method rq = ''POST'' \<or> a' = a) \<and> app_reach (L \<union> overwritten ev rq a) a'
    \<and> overwritten ev rq a \<subseteq> displaced (randomRoom (ev_rand ev)) a
    \<and> (randomRoom (ev_rand ev) \<in> fst ` set (a_slots a) \<or> app_reach L a')"
proof -
  have a': "a' = snd (httpHandlers ev rq a)" using assms(2) by simp
  have "snd (httpHandlers ev rq a) = a" if "rq_method rq \<noteq> ''POST''"
    by (simp only: httpHandlers_def Let_def if_distrib [of snd] snd_conv handlers_not_post [OF that] if_cancel)
  moreover have "displaced (randomRoom (ev_rand ev)) a = {}" if "randomRoom (ev_rand ev) \<notin> fst ` set (a_slots a)"
    using that by (simp add: displaced_def map_of_eq_None_iff [symmetric])
  moreover have "app_reach L a'" if "displaced (randomRoom (ev_rand ev)) a = {}"
    using handler_reach [OF assms(1), of ev rq] that a' by (metis Un_empty_right subset_empty)
  ultimately show ?thesis using a' handler_reach [OF assms(1), of ev rq] by blast
qed

definition toy_env :: api_env where
  "toy_env = \<lparr>ev_os = linux, ev_rand = 43, ev_now = 0, ev_port = 8080, ev_launch = calm_launch, ev_binDir = [],
     ev_signal = None, ev_page = Inr [], ev_pick = Inr [], ev_abs = Inr ''/pub'', ev_isDir = True,
     ev_http = \<lparr>NewRequest = \<lambda>m u. None, Do = \<lambda>m u b. Inl errCanceled\<rparr>,
     ev_dates = (\<lambda>_. None, \<lambda>_. None), ev_mime = \<lambda>_. [], ev_quote = \<lambda>s. s, ev_log_header = []\<rparr>"

definition toy_request :: "string \<Rightarrow> string \<Rightarrow> request" where
  "toy_request m p = \<lparr>rq_method = m, rq_path = p, rq_escaped = p, rq_query_path = [],
     rq_json = Inr \<lparr>jb_force_relay = True, jb_dir = [], jb_room = []\<rparr>, rq_parts = Inr []\<rparr>"

lemma toy_paths:
  "cleanPath ''/api/settings'' = ''/api/settings''" "mux_path ''/api/settings'' = ''/api/settings''"
  "cleanPath ''/api/share/start'' = ''/api/share/start''" "mux_path ''/api/share/start'' = ''/api/share/start''"
  "cleanPath ''/api/share/add'' = ''/api/share/add''" "mux_path ''/api/share/add'' = ''/api/share/add''"
  by code_simp+

theorem api_changes_by_post_only_witness:
  "snd (httpHandlers toy_env (toy_request ''GET'' ''/api/settings'') newAppState) = newAppState
     \<and> a_forceRelay (snd (httpHandlers toy_env (toy_request ''POST'' ''/api/settings'') newAppState))"
proof -
  obtain r a' where h: "httpHandlers toy_env (toy_request ''GET'' ''/api/settings'') newAppState = (r, a')"
    by (metis prod.exhaust)
  from api_changes_by_post_only [OF reach_init h] h
  have "snd (httpHandlers toy_env (toy_request ''GET'' ''/api/settings'') newAppState) = newAppState"
    by (simp add: toy_request_def)
  then show ?thesis by (simp add: httpHandlers_def h_settings_def toy_request_def toy_paths Let_def)
qed

end
