(* ===== verification/Claudy_Main.thy ===== *)
theory Claudy_Main
  imports Claudy_Api
begin

text \<open>
  The rest of \<open>cmd/claudy/main.go\<close>: the folder picker, the browser and \<open>main\<close>. A program that the
  code runs prints something and may fail; a failure that is an exit status carries what the program
  wrote to its standard error.
\<close>

subsection \<open>The folder picker\<close>

definition errPickerUnavailable :: error where
  "errPickerUnavailable = Sentinel ''main.errPickerUnavailable'' ''native folder picker unavailable''"

record exec_result =
  ex_out :: string
  ex_err :: "error option"
  ex_exit :: "string option"

text \<open>\<open>ex_exit\<close> is \<open>Stderr\<close> of an \<open>exec.ExitError\<close>, \<open>None\<close> for an error of another kind.\<close>

definition pickFolderDarwin :: "exec_result \<Rightarrow> error + string" where
  "pickFolderDarwin r =
     (case ex_err r of
        Some err \<Rightarrow>
          (case ex_exit r of
             Some stderr \<Rightarrow> if Contains stderr ''User canceled'' then Inl errCanceled
                            else Inl (WrapError ''osascript: '' err [])
           | None \<Rightarrow> Inl (WrapError ''osascript: '' err []))
      | None \<Rightarrow> Inr (TrimSpace (ex_out r)))"

text \<open>On Windows the standard error is collected apart.\<close>

definition pickFolderWindows :: "exec_result \<Rightarrow> string \<Rightarrow> error + string" where
  "pickFolderWindows r stderr =
     (case ex_err r of
        Some err \<Rightarrow> Inl (WrapError ''powershell: '' err ('' (stderr: '' @ TrimSpace stderr @ '')''))
      | None \<Rightarrow>
          let path = TrimSpace (ex_out r)
          in if path = [] then Inl errCanceled else Inr path)"

definition chosen_or_canceled :: "exec_result \<Rightarrow> error + string" where
  "chosen_or_canceled r =
     (case ex_err r of
        Some err \<Rightarrow> Inl errCanceled
      | None \<Rightarrow>
          let path = TrimSpace (ex_out r)
          in if path = [] then Inl errCanceled else Inr path)"

record pick_env =
  pk_osascript :: exec_result
  pk_powershell :: "exec_result \<times> string"
  pk_LookPath_zenity :: "error option"
  pk_zenity :: exec_result
  pk_LookPath_kdialog :: "error option"
  pk_kdialog :: exec_result

definition pickFolderLinux :: "pick_env \<Rightarrow> error + string" where
  "pickFolderLinux pe =
     (if pk_LookPath_zenity pe = None then chosen_or_canceled (pk_zenity pe)
      else if pk_LookPath_kdialog pe = None then chosen_or_canceled (pk_kdialog pe)
      else Inl errPickerUnavailable)"

definition pickFolder :: "goos \<Rightarrow> pick_env \<Rightarrow> error + string" where
  "pickFolder os pe =
     (case os of
        darwin \<Rightarrow> pickFolderDarwin (pk_osascript pe)
      | windows \<Rightarrow> pickFolderWindows (fst (pk_powershell pe)) (snd (pk_powershell pe))
      | linux \<Rightarrow> pickFolderLinux pe
      | other_os s \<Rightarrow> Inl errPickerUnavailable)"

subsection \<open>The browser and main\<close>

definition openBrowser :: "goos \<Rightarrow> string \<Rightarrow> command list" where
  "openBrowser os url =
     (case os of
        darwin \<Rightarrow> [(''open'', [url])]
      | windows \<Rightarrow> [(''rundll32'', [''url.dll,FileProtocolHandler'', url])]
      | linux \<Rightarrow> [(''xdg-open'', [url])]
      | other_os s \<Rightarrow> [])"

text \<open>Requests that the server answers one after the other, each in its environment.\<close>

definition serve :: "(api_env \<times> request) list \<Rightarrow> app \<Rightarrow> app" where
  "serve rqs a = fold (\<lambda>(ev, rq) a. snd (httpHandlers ev rq a)) rqs a"

record claudy_run =
  cr_binDir :: string
  cr_url :: string
  cr_browser :: "command list"
  cr_app :: app

datatype claudy_end = ClaudyExit nat | ClaudyEnd claudy_run

text \<open>
  \<open>main\<close>: the requests that come until the signal, \<open>stopAll\<close>, and the requests that are still
  served until \<open>Shutdown\<close> has closed the listener and waited for the open ones.
\<close>

definition claudy_main :: "goos \<Rightarrow> error + string \<Rightarrow> error + string \<Rightarrow> bool \<Rightarrow> (api_env \<times> request) list
    \<Rightarrow> (api_env \<times> request) list \<Rightarrow> claudy_end" where
  "claudy_main os exe listen noBrowser before late =
     (case exe of
        Inl err \<Rightarrow> ClaudyExit 1
      | Inr exePath \<Rightarrow>
          let binDir = path_Dir exePath;
              a = newAppState
          in (case listen of
                Inl err \<Rightarrow> ClaudyExit 1
              | Inr addr \<Rightarrow>
                  let url = ''http://'' @ addr @ ''/'';
                      cmds = (if noBrowser then [] else openBrowser os url);
                      a1 = serve before a;
                      a2 = stopAll os a1;
                      a3 = serve late a2
                  in ClaudyEnd \<lparr>cr_binDir = binDir, cr_url = url, cr_browser = cmds, cr_app = a3\<rparr>))"

subsection \<open>Properties of the picker\<close>

text \<open>
  Property C40: the picker on Linux returns the chosen folder only up to white space. If the dialog
  prints the chosen path, any bytes, and a newline, then what is shared is that path without the white
  space around it, that of Unicode, no-break and ideographic spaces included; so it is the chosen
  folder exactly if its path neither begins nor ends with a white space rune. A path of white space
  only counts as a cancellation, and so does a dialog that fails.
\<close>
theorem picked_folder_is_trimmed:
  assumes "pk_LookPath_zenity pe = None \<and> r = pk_zenity pe \<or>
      pk_LookPath_zenity pe \<noteq> None \<and> pk_LookPath_kdialog pe = None \<and> r = pk_kdialog pe"
    and "ex_out r = chosen @ [nl]"
  shows "pickFolder linux pe = (if ex_err r \<noteq> None \<or> TrimSpace chosen = [] then Inl errCanceled else Inr (TrimSpace chosen))
    \<and> (pickFolder linux pe = Inr chosen \<longleftrightarrow> ex_err r = None \<and> chosen \<noteq> []
         \<and> \<not> (\<exists>t \<in> set white_space. HasPrefix chosen t \<or> HasSuffix chosen t))"
proof -
  have t: "TrimSpace (chosen @ [nl]) = TrimSpace chosen" using TrimSpace_newline by (simp add: nl_def)
  have "pickFolder linux pe = chosen_or_canceled r"
    using assms(1) by (auto simp: pickFolder_def pickFolderLinux_def)
  with t assms(2) TrimSpace_fixed [of chosen] show ?thesis
    by (auto simp: chosen_or_canceled_def Let_def split: option.splits)
qed

text \<open>A folder whose name ends with a no-break space.\<close>

definition nbsp_picker :: pick_env where
  "nbsp_picker = \<lparr>pk_osascript = \<lparr>ex_out = [], ex_err = None, ex_exit = None\<rparr>,
      pk_powershell = (\<lparr>ex_out = [], ex_err = None, ex_exit = None\<rparr>, []), pk_LookPath_zenity = None,
      pk_zenity = \<lparr>ex_out = ''/srv/old'' @ [CHR 0xC2, CHR 0xA0] @ [nl], ex_err = None, ex_exit = None\<rparr>,
      pk_LookPath_kdialog = None, pk_kdialog = \<lparr>ex_out = [], ex_err = None, ex_exit = None\<rparr>\<rparr>"

theorem picked_folder_is_trimmed_witness:
  "pickFolder linux nbsp_picker = Inr ''/srv/old''"
proof -
  have "TrimSpace (''/srv/old'' @ [CHR 0xC2, CHR 0xA0]) = ''/srv/old''" by code_simp
  then show ?thesis
    using picked_folder_is_trimmed [of nbsp_picker "pk_zenity nbsp_picker" "''/srv/old'' @ [CHR 0xC2, CHR 0xA0]"]
    by (simp add: nbsp_picker_def)
qed

subsection \<open>The API is well-typed\<close>

text \<open>
  What a client may rely on when it decodes a response: the bodies that belong to a status code and
  a path. Errors are text, the two empty answers have no body, a redirect names a clean path, and a
  success has the body that the page expects of that path. The exceptions are a download that fails,
  which is an empty success, and a request for \<open>*\<close>, which is an error without a text.
\<close>

definition download_failed :: "api_env \<Rightarrow> request \<Rightarrow> app \<Rightarrow> bool" where
  "download_failed ev rq a \<longleftrightarrow>
     (\<exists>e. downloadFile (ev_http ev) (ev_mime ev) (connect_proc a) (rq_query_path rq) = Inl e)"

definition success_body :: "bool \<Rightarrow> request \<Rightarrow> body \<Rightarrow> bool" where
  "success_body failed rq b \<longleftrightarrow>
     (let p = mux_path (rq_escaped rq) in
      case b of
        StatusBody st \<Rightarrow> p \<in> {''/api/status'', ''/api/share/start'', ''/api/share/remove'', ''/api/share/stop'',
          ''/api/connect'', ''/api/connect/stop''}
      | SettingsBody r \<Rightarrow> p = ''/api/settings''
      | TextBody t \<Rightarrow> p = ''/api/logs''
      | DirBody d \<Rightarrow> p = ''/api/pick-dir''
      | RoomBody r \<Rightarrow> p = ''/api/share/add''
      | ListBody l \<Rightarrow> p = ''/api/files''
      | FileBody d \<Rightarrow> p = ''/api/files/get'' \<and> \<not> failed
      | UploadedBody n \<Rightarrow> p = ''/api/files/upload''
      | Page d \<Rightarrow> rq_path rq = ''/''
      | NoBody \<Rightarrow> p = ''/api/files/get'' \<and> failed
      | Redirect q \<Rightarrow> False)"

definition response_ok :: "bool \<Rightarrow> request \<Rightarrow> response \<Rightarrow> bool" where
  "response_ok failed rq r \<longleftrightarrow>
     (if fst r = 200 then success_body failed rq (snd r)
      else if fst r = 204 then snd r = NoBody \<and> mux_path (rq_escaped rq) \<in> {''/api/pick-dir'', ''/api/files'', ''/api/files/mkdir''}
      else if fst r = 301 then \<exists>q. snd r = Redirect q \<and> q \<noteq> rq_escaped rq \<and> cleanPath q = q
      else fst r \<in> {400, 404, 405, 500, 502} \<and> ((\<exists>t. snd r = TextBody t) \<or> r = (400, NoBody) \<and> rq_path rq = ''*''))"

lemma error_ok [simp]:
  "code \<in> {400, 404, 405, 500, 502} \<Longrightarrow> response_ok f rq (http_Error e code)" "response_ok f rq (method_error t)"
  by (auto simp: response_ok_def http_Error_def method_error_def)

lemma reply_ok: "success_body f rq (StatusBody (app_snapshot (ev_now ev) a)) \<Longrightarrow> response_ok f rq (fst (reply ev a))"
  by (simp add: response_ok_def reply_def)

text \<open>
  Property C24: the API is type-safe. Whatever the request and the state of the controller, the
  response has a status code of the API and, for it, the kind of body that the page decodes on
  that path: a status, a setting, a room, a listing, a file or a count with 200, nothing with 204,
  another, clean path with 301, text with an error. A success on the path of downloads has a file
  as its body if \<open>downloadFile\<close> returned no error, and no body if it did; the only error without a text is the
  answer to a request for \<open>*\<close>.
\<close>
theorem api_responses_typed:
  "response_ok (download_failed ev rq a) rq (fst (httpHandlers ev rq a))"
proof -
  have up: "code \<in> {400, 500}" if "upload_parts cl c dir ps n = Inl (code, e)" for cl c dir ps n code e
    using that by (induction cl c dir ps n rule: upload_parts.induct) (auto split: if_splits option.splits)
  let ?p = "mux_path (rq_escaped rq)" and ?f = "download_failed ev rq a"
  have page: "response_ok ?f rq (h_page ev rq)"
    by (auto simp: h_page_def response_ok_def success_body_def http_Error_def split: sum.splits)
  have settings: "?p = ''/api/settings'' \<Longrightarrow> response_ok ?f rq (fst (h_settings rq a))"
    by (auto simp: h_settings_def response_ok_def success_body_def http_Error_def method_error_def split: sum.splits)
  have logs: "?p = ''/api/logs'' \<Longrightarrow> response_ok ?f rq (200, TextBody t)" for t
    by (simp add: response_ok_def success_body_def)
  have pick: "?p = ''/api/pick-dir'' \<Longrightarrow> response_ok ?f rq (h_pick_dir ev rq)"
    by (auto simp: h_pick_dir_def response_ok_def success_body_def http_Error_def method_error_def split: sum.splits)
  have add: "?p = ''/api/share/add'' \<Longrightarrow> response_ok ?f rq (fst (h_share_add ev rq a))"
    by (auto simp: h_share_add_def response_ok_def success_body_def http_Error_def method_error_def
        split: sum.splits prod.splits)
  have st: "?p \<in> {''/api/status'', ''/api/share/start'', ''/api/share/remove'', ''/api/share/stop'', ''/api/connect'',
      ''/api/connect/stop''} \<Longrightarrow> response_ok ?f rq (fst (reply ev b))" for b
    by (rule reply_ok) (simp add: success_body_def)
  then have status: "?p = ''/api/status'' \<Longrightarrow> response_ok ?f rq (fst (reply ev a))" by simp
  have start: "?p = ''/api/share/start'' \<Longrightarrow> response_ok ?f rq (fst (h_share_start ev rq a))"
    using st by (auto simp: h_share_start_def split: sum.splits prod.splits option.splits)
  have rest: "?p = ''/api/share/remove'' \<Longrightarrow> response_ok ?f rq (fst (h_share_remove ev rq a))"
    "?p = ''/api/share/stop'' \<Longrightarrow> response_ok ?f rq (fst (h_share_stop ev rq a))"
    "?p = ''/api/connect/stop'' \<Longrightarrow> response_ok ?f rq (fst (h_connect_stop ev rq a))"
    using st by (auto simp: h_share_remove_def h_share_stop_def h_connect_stop_def split: sum.splits)
  have conn: "?p = ''/api/connect'' \<Longrightarrow> response_ok ?f rq (fst (h_connect ev rq a))"
    using st by (auto simp: h_connect_def split: sum.splits prod.splits option.splits)
  have files: "?p = ''/api/files'' \<Longrightarrow> response_ok ?f rq (h_files ev rq a)"
    by (auto simp: h_files_def response_ok_def success_body_def http_Error_def method_error_def
        split: sum.splits option.splits)
  have get: "?p = ''/api/files/get'' \<Longrightarrow> response_ok ?f rq (h_files_get ev rq a)"
    by (auto simp: h_files_get_def response_ok_def success_body_def method_error_def download_failed_def split: sum.splits)
  have upl: "?p = ''/api/files/upload'' \<Longrightarrow> response_ok ?f rq (h_files_upload ev rq a)"
    by (auto simp: h_files_upload_def response_ok_def success_body_def http_Error_def method_error_def
        dest!: up split: sum.splits prod.splits)
  have mk: "?p = ''/api/files/mkdir'' \<Longrightarrow> response_ok ?f rq (h_files_mkdir ev rq a)"
    by (auto simp: h_files_mkdir_def response_ok_def http_Error_def method_error_def split: option.splits)
  have star: "rq_path rq = ''*'' \<Longrightarrow> response_ok ?f rq (400, NoBody)" by (simp add: response_ok_def)
  let ?c = "if rq_method rq = ''CONNECT'' then rq_escaped rq else cleanPath (rq_escaped rq)"
  have moved: "?c \<noteq> rq_escaped rq \<Longrightarrow> response_ok ?f rq (301, Redirect ?c)"
    by (auto simp: response_ok_def cleanPath_idem split: if_splits)
  show ?thesis
  proof (cases "rq_path rq = ''*'' \<or> ?c \<noteq> rq_escaped rq")
    case True
    then show ?thesis
      using star moved unfolding httpHandlers_def Let_def by (cases "rq_path rq = ''*''") simp_all
  next
    case False
    then have c: "rq_path rq \<noteq> ''*''" "?c = rq_escaped rq" by blast+
    show ?thesis
      using page settings logs pick add status start rest conn files get upl mk c(1)
      unfolding httpHandlers_def Let_def c(2) by (simp del: error_ok split del: if_split) (simp split: if_splits)
  qed
qed

subsection \<open>Shutdown\<close>

text \<open>The children that the requests displace, one after the other.\<close>

fun all_overwritten :: "(api_env \<times> request) list \<Rightarrow> app \<Rightarrow> nat set" where
  "all_overwritten [] a = {}"
| "all_overwritten ((ev, rq) # rqs) a = overwritten ev rq a \<union> all_overwritten rqs (snd (httpHandlers ev rq a))"

text \<open>No request draws a room code that is in use.\<close>

fun rooms_fresh :: "(api_env \<times> request) list \<Rightarrow> app \<Rightarrow> bool" where
  "rooms_fresh [] a = True"
| "rooms_fresh ((ev, rq) # rqs) a =
     (randomRoom (ev_rand ev) \<notin> fst ` set (a_slots a) \<and> rooms_fresh rqs (snd (httpHandlers ev rq a)))"

lemma serve_reach: "app_reach L a \<Longrightarrow> app_reach (L \<union> all_overwritten rqs a) (serve rqs a)"
proof (induction rqs arbitrary: L a)
  case (Cons r rqs)
  obtain ev rq where r: "r = (ev, rq)" by fastforce
  have "app_reach (L \<union> overwritten ev rq a) (snd (httpHandlers ev rq a))"
    using handler_reach [OF Cons.prems] by blast
  from Cons.IH [OF this] r show ?case by (simp add: serve_def Un_assoc)
qed (simp add: serve_def)

lemma fresh_overwrites_none: "app_reach L a \<Longrightarrow> rooms_fresh rqs a \<Longrightarrow> all_overwritten rqs a = {}"
proof (induction rqs arbitrary: L a)
  case (Cons r rqs)
  obtain ev rq where r: "r = (ev, rq)" by fastforce
  note h = handler_reach [OF Cons.prems(1), of ev rq]
  have "displaced (randomRoom (ev_rand ev)) a = {}"
    using Cons.prems(2) r by (simp add: displaced_def map_of_eq_None_iff [symmetric])
  with h Cons.IH [OF h [THEN conjunct1]] Cons.prems(2) r show ?case by auto
qed simp

definition start_request :: request where
  "start_request = (toy_request ''POST'' ''/api/share/start'')\<lparr>rq_json := Inr \<lparr>jb_force_relay = False, jb_dir = ''/pub'', jb_room = []\<rparr>\<rparr>"

definition add_request :: "api_env \<times> request" where
  "add_request = (toy_env, toy_request ''POST'' ''/api/share/add'')"

lemmas toy_run_simps = serve_def httpHandlers_def Let_def start_request_def toy_request_def toy_paths h_share_start_def
  h_share_add_def startShare_def addViewer_def addViewer_launch_def addViewer_insert_def launch_def calm_launch_def toy_env_def
  reply_def

lemma start_and_add_launches:
  "a_running (serve [(toy_env, start_request), add_request] a) = insert (a_next a) (a_running a)"
  by (simp add: toy_run_simps add_request_def)

text \<open>
  Property C39: which children are alive when \<open>main\<close> returns. Of the requests that came before the
  shutdown, exactly those children that were alive and had lost their slot to a later viewer with the
  same room code: none, if no request drew a code that was in use. Moreover the listener is still open
  between \<open>stopAll\<close> and the end of \<open>Shutdown\<close>: a folder that is shared then, with a viewer added,
  leaves its owner process running when the controller is gone, with nobody to stop it.
\<close>
theorem claudy_shutdown:
  "(\<exists>r. claudy_main os (Inr exe) (Inr addr) nb before [] = ClaudyEnd r
        \<and> a_running (cr_app r) = a_running (serve before newAppState) \<inter> all_overwritten before newAppState
        \<and> (rooms_fresh before newAppState \<longrightarrow> a_running (cr_app r) = {}))
    \<and> (\<exists>r. claudy_main os (Inr exe) (Inr addr) nb before [(toy_env, start_request), add_request] = ClaudyEnd r
        \<and> \<not> a_running (cr_app r) \<subseteq> all_overwritten before newAppState)"
proof -
  let ?b = "serve before newAppState" and ?L = "all_overwritten before newAppState"
  let ?a = "stopAll os ?b"
  let ?late = "[(toy_env, start_request), add_request]"
  have i: "app_inv ?L ?b" using reach_inv [OF serve_reach [OF reach_init]] by simp
  have stopped: "a_running ?a = a_running ?b \<inter> ?L" by (rule stopAll_stops [OF i])
  have fresh: "rooms_fresh before newAppState \<Longrightarrow> a_running ?a = {}"
    using stopped fresh_overwrites_none [OF reach_init] by simp
  have next_eq: "a_next ?a = a_next ?b"
  proof -
    have n: "a_next (fold (\<lambda>(room, p). sp_stop p) slots c) = a_next c" for slots :: "(string \<times> nat) list" and c
      by (induction slots arbitrary: c) auto
    show ?thesis by (simp add: stopAll_def stopShare_def stopConnect_def n Let_def split: option.splits)
  qed
  have "a_next ?a \<notin> ?L" using i next_eq by (auto simp: app_inv_def)
  then have late: "\<not> a_running (serve ?late ?a) \<subseteq> ?L" using start_and_add_launches [of ?a] by simp
  have run: "claudy_main os (Inr exe) (Inr addr) nb before late =
      ClaudyEnd \<lparr>cr_binDir = path_Dir exe, cr_url = ''http://'' @ addr @ ''/'',
        cr_browser = (if nb then [] else openBrowser os (''http://'' @ addr @ ''/'')), cr_app = serve late ?a\<rparr>" for late
    by (simp add: claudy_main_def Let_def)
  have none: "serve [] ?a = ?a" by (simp add: serve_def)
  show ?thesis
  proof (rule conjI)
    show "\<exists>r. claudy_main os (Inr exe) (Inr addr) nb before [] = ClaudyEnd r
        \<and> a_running (cr_app r) = a_running ?b \<inter> ?L \<and> (rooms_fresh before newAppState \<longrightarrow> a_running (cr_app r) = {})"
      unfolding run none using stopped fresh by simp
    show "\<exists>r. claudy_main os (Inr exe) (Inr addr) nb before ?late = ClaudyEnd r
        \<and> \<not> a_running (cr_app r) \<subseteq> ?L"
    proof (intro exI conjI)
      show "claudy_main os (Inr exe) (Inr addr) nb before ?late = ClaudyEnd \<lparr>cr_binDir = path_Dir exe, cr_url = ''http://'' @ addr @ ''/'',
        cr_browser = (if nb then [] else openBrowser os (''http://'' @ addr @ ''/'')), cr_app = serve ?late ?a\<rparr>" by (rule run)
    qed (use late in simp)
  qed
qed

text \<open>
  Two viewers for whom the clock gives the same code: the child of the first outlives the controller. A
  single one is stopped.
\<close>
theorem claudy_shutdown_witness:
  "(\<exists>r. claudy_main linux (Inr ''/opt/claudy/claudy'') (Inr ''127.0.0.1:8000'') True
       [(toy_env, start_request), add_request] [] = ClaudyEnd r \<and> a_running (cr_app r) = {})
   \<and> (\<exists>r. claudy_main linux (Inr ''/opt/claudy/claudy'') (Inr ''127.0.0.1:8000'') True
       [(toy_env, start_request), add_request, add_request] [] = ClaudyEnd r \<and> a_running (cr_app r) = {0})"
proof -
  let ?two = "[(toy_env, start_request), add_request, add_request]"
  have fresh: "rooms_fresh [(toy_env, start_request), add_request] newAppState"
    by (simp add: toy_run_simps add_request_def newAppState_def)
  have "a_running (serve ?two newAppState) = {0, 1}" "all_overwritten ?two newAppState = {0}"
    by (auto simp: toy_run_simps add_request_def newAppState_def overwritten_def displaced_def)
  then have "a_running (serve ?two newAppState) \<inter> all_overwritten ?two newAppState = {0}" by simp
  with claudy_shutdown [of linux "''/opt/claudy/claudy''" "''127.0.0.1:8000''" True ?two]
    claudy_shutdown [of linux "''/opt/claudy/claudy''" "''127.0.0.1:8000''" True "[(toy_env, start_request), add_request]"] fresh
  show ?thesis by metis
qed

end
