(* ===== verification/Spec2Isabelle.thy ===== *)
theory Spec2Isabelle
  imports Signal_Hub_Spec Signal_Duel Tunnel Proxy_Copy Session_Main Demo_Echo Owner_Stack Claudy_Main
begin

text \<open>
  A verification development for \<open>claudy-p2p\<close>: a folder of one machine, the owner's, is served over
  WebDAV to another machine, the viewer's, through an encrypted tunnel over a WebRTC data channel;
  a signaling server lets the two find each other, and the program \<open>claudy\<close> wraps both sides behind
  a local web page. Paths below are relative to \<open>src/claudy-p2p\<close>.

  \<^bold>\<open>The parts and how they meet.\<close> Both sides join a room at the signaling server (\<open>cmd/signal\<close>)
  with the client \<open>internal/signaling\<close>, and exchange their Ed25519 keys in \<open>ready\<close> messages. A side
  checks the other's key against its keyring (\<open>internal/identity\<close>), then builds a peer connection
  (\<open>internal/peer\<close>). Over the data channel that opens, \<open>internal/tunnel\<close> runs a Noise handshake
  (\<open>internal/secure\<close>) and a stream multiplexer. The supervisors in \<open>cmd/dav-owner\<close> and
  \<open>cmd/dav-client\<close> rebuild the peer connection when it fails and hand streams to the WebDAV server
  or take them from the local proxy. The owner serves its folder through the layers of
  \<open>internal/ownerfs\<close>. \<open>cmd/claudy\<close> starts these two commands as children.

  \<^bold>\<open>Foundations.\<close> \<open>Prelude\<close> holds types and generic lemmas. \<open>Go_Error\<close>, \<open>Go_Format\<close>, \<open>Go_Strings\<close>,
  \<open>Go_Text\<close>, \<open>Go_Base64\<close>, \<open>Go_Path\<close> and \<open>Go_Disk\<close> are what the code uses of Go's errors, \<open>fmt\<close>,
  \<open>strings\<close>, \<open>strconv\<close>, \<open>net/url\<close>, \<open>encoding/base64\<close>, \<open>path\<close> and \<open>os\<close>. Strings are byte strings.
  \<open>Go_Conn\<close> is \<open>net.Conn\<close> with the contracts of a source and a sink of bytes (locales \<open>byte_source\<close>,
  \<open>byte_sink\<close>), interpreted for the data channel connection and the encrypted connection.

  \<^bold>\<open>Signaling.\<close> \<open>Signal_Message\<close>, \<open>Slot_Table\<close> (the contract of a table with exclusive slots),
  \<open>Signal_Hub\<close> (rooms, \<open>pair\<close>, \<open>drop\<close>, the handler of one connection, action by action),
  \<open>Signal_Hub_Run\<close> (any number of handlers interleaved: the step relation \<open>hub_step\<close>, reachability,
  and an invariant from which exclusiveness, isolation of rooms, takeover and the absence of empty
  rooms follow), \<open>Signal_Hub_Spec\<close> (the abstract pairing table and the refinement of the running
  server to it, event by event of the acting handlers), \<open>Signal_Keepalive\<close> (the handler in time: the read deadline that pongs extend, the ping
  ticker; a silent connection is given up in time, a live one with a willing counterpart rides out a
  hiccup, and a stalled
  counterpart brings a live one down), \<open>Signal_Client\<close> (send, receive and the redial loop with its
  backoff; the loop is a partial function whose termination is a theorem), \<open>Signal_Duel\<close> (client and
  server together: two clients in one role displace each other without end).

  \<^bold>\<open>Data path.\<close> \<open>Peer_Timer\<close> and \<open>Peer_Conn\<close> (\<open>internal/peer/conn.go\<close>: the deadline timers, reads with
  leftovers, chunked writes with backpressure), \<open>Peer_Glue\<close> (\<open>peer.go\<close>), \<open>Secure_Frame\<close>,
  \<open>Secure_Conn\<close> and \<open>Secure_Handshake\<close> (\<open>internal/secure/noise.go\<close>), \<open>Tunnel\<close>. The theorems: bytes
  arrive unchanged and in order, through frames and ciphers of any cut; the responder answers only
  the pinned key; the handshake ends in every case, with the deadline cleared and every failure
  closing the channel.

  \<^bold>\<open>Supervisors.\<close> \<open>Conn_Listener\<close> (both listeners, one contract), \<open>Failover\<close> (the contract of the
  failure classifier), \<open>Viewer_Session\<close>, \<open>Viewer_Session_Run\<close>, \<open>Owner_Session\<close>. Callbacks take the
  session's lock several times; each lock region is a definition, and a task is a callback that
  waits for its next region, so that all interleavings are runs. The theorems: the tunnel in use
  belongs to the current epoch and every other one is closed, the ready channel is closed when and
  only when a tunnel is there, both sides escalate to the relay after two counted failures. The
  findings about them are theorems: a double close and a rebuild too many from any state of their kind,
  an unaccounted second tunnel on a concrete run. \<open>Proxy_Copy\<close> is the second half of the viewer's
  proxy: two copies as a step relation, in order whatever their interleaving, and the response that a
  half-close can lose.

  \<^bold>\<open>Commands.\<close> \<open>Session_Main\<close> is \<open>main\<close> of \<open>cmd/dav-owner\<close> and \<open>cmd/dav-client\<close>, composed of the
  components above, with what each kind of exit leaves undone (the sleep lock of \<open>Powerlock\<close>) and the
  meeting of both processes at the server; \<open>Demo_Echo\<close> is \<open>cmd/owner\<close> and \<open>cmd/viewer\<close>.

  \<^bold>\<open>Trust.\<close> \<open>Identity\<close>, \<open>Keyring\<close>, \<open>Tofu_Store\<close> (trust on first use as a contract, with the lemmas about
  histories proved once), \<open>Verify_Peer\<close>, \<open>Session_Trust\<close> (from the
  announced key to the key of the tunnel). The keyring and the gate of the commands are two
  interpretations of the contract. Every disk call may fail, and a failed write leaves any prefix.

  \<^bold>\<open>The served folder.\<close> \<open>Webdav_FS\<close> is the interface \<open>webdav.FileSystem\<close> as a record of operations over
  a world, with scripts of calls and the contract of a layer (\<open>fs_layer\<close>); \<open>Owner_Filter\<close> (junk filter
  and NFC layer, both interpretations of that contract), \<open>Owner_Cache\<close>, \<open>Share_Delete\<close>, and
  \<open>Owner_Stack\<close>, the composition that is served. The theorems: the disk sees the script without junk
  and in normal form, a cached answer is less than 250 ms old, writes through the cache are
  seen at once; and the two holes: children of a removed directory, and \<open>/../\<close> on Windows.

  \<^bold>\<open>The application.\<close> \<open>Claudy_Log\<close> (log ring, status, pipes), \<open>Claudy_Mount\<close>, \<open>Claudy_Files\<close> (the file
  browser), \<open>Claudy_App\<close> (the controller over a heap of children), \<open>Claudy_App_Run\<close> (its runs: as
  long as handlers do not overlap the only living children that are lost are those whose room code was
  drawn again, and overlapping connects lose one),
  \<open>Claudy_Api\<close> (the multiplexer and every HTTP handler), \<open>Claudy_Main\<close> (the folder picker, the browser, \<open>main\<close> with its
  shutdown, and the types of the responses).

  \<^bold>\<open>Conventions.\<close> A Go map is a function to options, or an association list where its iteration
  order matters. A value and an error are a sum where exactly one is meaningful. Locks are not
  modelled as such: what runs under a lock is one definition, and where the code releases the
  lock in between there are several. Times are integers in nanoseconds. Whatever the network,
  the disk, a library or another goroutine may do during a call is an argument of its definition.
  Loops are structural recursion over what the environment delivers, terminating functions, or
  partial functions into options; no definition uses fuel.

  \<^bold>\<open>Parameters.\<close> Third-party code is an argument: the WebSocket library, pion/webrtc, the Noise
  library, the Edwards curve and SHA-512, yamux, \<open>webdav.Dir\<close>, Unicode NFC, and of the standard library
  JSON, XML and HTTP transport, dates, MIME types and \<open>%q\<close>. The theorems that need a property of one
  of them assume it by name (decryption undoes encryption, decoding undoes encoding, keys have
  their length), and a witness instantiates it.

  \<^bold>\<open>Not modelled.\<close> Parsing of flags, sockets and delivery of signals, which are the environment of the
  \<open>main\<close> functions; the texts of the picker's scripts; \<open>cmd/fileserv\<close>, one call of \<open>http.FileServer\<close>;
  the web page, which is not Go. Log lines are left out except in \<open>claudy\<close>, which reads them.
  \<open>filepath.Base\<close> of the upload handler is that of Unix, UNC roots of a shared folder are left out,
  \<open>strings.ToLower\<close> of a room code is that of ASCII, and \<open>strings.ToUpper\<close> outside ASCII is a
  parameter. The handler's two \<open>ready\<close> frames are one action of it.
\<close>

section \<open>From the keyring to the tunnel\<close>

text \<open>
  Property C5: the owner serves the pinned viewer only. Under an alias that has a pinned key,
  whatever key the signaling server announced: if the owner's command goes on and a tunnel comes
  up on some data channel, then the first frame of that channel was a Noise message whose static
  key is the conversion of the key in the keyring.
\<close>
theorem owner_serves_pinned_viewer:
  assumes "kr_ok k" and "alias \<noteq> []" and "pinned k alias = Some (EncodeToString pinnedPub)"
    and "owner_admit codec quote env alias ready (k, d) = (Inr peerPub, kd')"
    and "tunnel_Serve N C (peer_net pick wenv st t) yamux cfg now myPriv peerPub c = Some (Inr sess, c')"
  shows "\<exists>pin hs msg1 c1 ks hs1. ed25519PubToX25519 C pinnedPub = Inr pin
    \<and> readFrame (peer_Read pick) (peer_SetDeadline st st t (Some (now + handshakeTimeout)) c) = Some (Inr msg1, c1)
    \<and> ReadMessage N msg1 hs = (Inr ks, hs1) \<and> PeerStatic N hs1 = pin"
proof -
  from admit_peer_pinned [of "(k, d)"] assms(1-4) have "EncodeToString pinnedPub = EncodeToString peerPub"
    by (simp add: owner_admit_def)
  then have same: "peerPub = pinnedPub" using EncodeToString_inj by simp
  obtain sec c1 where "secure_Server N C (peer_net pick wenv st t) now myPriv peerPub c = Some (Inr sec, c1)"
    using tunnel_Serve_server [OF assms(5)] by blast
  from secure_Server_checked [OF this] same show ?thesis by blast
qed

theorem owner_serves_pinned_viewer_witness:
  "\<exists>peerPub kd' sess c'.
     owner_admit toy_codec (\<lambda>s. s) (calm_kr, 1) ''pc'' (Inr (EncodeToString (replicate 32 7)))
       (\<lparr>kr_path = ''k'', peers = [(''pc'', toy_entry ''pc'')]\<rparr>, \<lambda>_. None) = (Inr peerPub, kd')
     \<and> tunnel_Serve demo_noise demo_curve (peer_net 0 (\<lambda>_. calm) True 5) (\<lambda>_ _. Inr True) demo_yamux 5 (demo_key 2)
         peerPub (fresh_with (replicate 96 7)) = Some (Inr sess, c')
     \<and> (\<exists>msg1 c1 hs ks hs1. readFrame (peer_Read 0) (peer_SetDeadline True True 5 (Some (5 + handshakeTimeout))
           (fresh_with (replicate 96 7))) = Some (Inr msg1, c1)
         \<and> ReadMessage demo_noise msg1 hs = (Inr ks, hs1) \<and> PeerStatic demo_noise hs1 = replicate 32 7)"
proof -
  let ?k = "\<lparr>kr_path = ''k'', peers = [(''pc'', toy_entry ''pc'')]\<rparr>"
  have k: "kr_ok ?k" "pinned ?k ''pc'' = Some (EncodeToString (replicate 32 7))"
    by (simp_all add: kr_ok_def pinned_def toy_entry_def)
  have nonempty: "EncodeToString (replicate 32 7) \<noteq> []"
    using EncodeToString_inj [of "replicate 32 7" "[]"] by (auto simp: EncodeToString_def)
  obtain kd' where a: "owner_admit toy_codec (\<lambda>s. s) (calm_kr, 1) ''pc'' (Inr (EncodeToString (replicate 32 7)))
      (?k, \<lambda>_. None) = (Inr (replicate 32 7), kd')"
    by (simp add: owner_admit_def admit_peer_def verifyPeer_def nonempty ParsePublic_encode Check_def toy_entry_def
        saveLocked_def toy_codec_def calm_kr_def Go_Disk.WriteFile_def Go_Disk.Rename_def Let_def)
  obtain sec c where "secure_Server demo_noise demo_curve (peer_net 0 (\<lambda>_. calm) True 5) 5 (demo_key 2)
      (replicate 32 7) (fresh_with (replicate 96 7)) = Some (Inr sec, c)"
    using demo_server by blast
  then have t: "tunnel_Serve demo_noise demo_curve (peer_net 0 (\<lambda>_. calm) True 5) (\<lambda>_ _. Inr True) demo_yamux 5 (demo_key 2)
      (replicate 32 7) (fresh_with (replicate 96 7)) = Some (Inr True, c)"
    by (simp add: tunnel_Serve_def)
  obtain pin hs msg1 c1 ks hs1 where r: "ed25519PubToX25519 demo_curve (replicate 32 7) = Inr pin"
      "readFrame (peer_Read 0) (peer_SetDeadline True True 5 (Some (5 + handshakeTimeout)) (fresh_with (replicate 96 7)))
        = Some (Inr msg1, c1)" "ReadMessage demo_noise msg1 hs = (Inr ks, hs1)" "PeerStatic demo_noise hs1 = pin"
    using owner_serves_pinned_viewer [OF k(1) _ k(2) a t] by auto
  from r(1) have "pin = replicate 32 7" by (simp add: demo_conv(1))
  with r a t show ?thesis by blast
qed

end
